(* ===== verification/RTS_Prelude.thy ===== *)
theory RTS_Prelude
  imports Complex_Main "HOL-Library.Sublist" "HOL-Library.Multiset"
begin

section \<open>JavaScript values, objects and strings\<close>

text \<open>
  The shared ground of the development: the values the TypeScript sources pass around
  (\<open>jsv\<close>, the type \<open>unknown\<close> of the sources), plain objects as the list of their own
  enumerable properties in the order \<open>Object.entries\<close> yields them, decimal rendering of
  integers, and the string functions the components call.

  Conventions. A \<open>char\<close> stands for one UTF-16 code unit below 256: strings are those whose
  code units are Latin-1, and the character classes (\<open>\s\<close>, \<open>\w\<close>, lower case) are exact
  on that range. Numbers are the finite ones as rationals (every finite double is one),
  and the three non-finite ones. Functions and symbols are not values of the model.
  Properties inherited from \<open>Object.prototype\<close> are not modelled; the one place where the
  prototype shows in an own-property list, the assignment \<open>o["__proto__"] = v\<close>, is
  (\<open>js_assign\<close>).
\<close>

named_theorems js_simps \<open>evaluation of the JavaScript primitives\<close>
named_theorems js_intros \<open>well-formedness of values built by the primitives\<close>

datatype jsnum = Fin rat | PosInf | NegInf | NaN

datatype jsv =
    JUndef
  | JNull
  | JBool bool
  | JNum jsnum
  | JBigInt int
  | JStr string
  | JArr "jsv list"
  | JObj "(string \<times> jsv) list"

type_synonym jsobj = "(string \<times> jsv) list"

abbreviation num :: "int \<Rightarrow> jsv" where
  "num n \<equiv> JNum (Fin (of_int n))"

subsection \<open>Type tests\<close>

text \<open>\<open>typeof v === 'object'\<close> holds for null and arrays too; \<open>!v\<close> is the negation of
  truthiness.\<close>

fun truthy :: "jsv \<Rightarrow> bool" where
  "truthy JUndef = False"
| "truthy JNull = False"
| "truthy (JBool b) = b"
| "truthy (JNum x) = (x \<noteq> Fin 0 \<and> x \<noteq> NaN)"
| "truthy (JBigInt n) = (n \<noteq> 0)"
| "truthy (JStr s) = (s \<noteq> [])"
| "truthy (JArr _) = True"
| "truthy (JObj _) = True"

fun typeof_object :: "jsv \<Rightarrow> bool" where
  "typeof_object JNull = True"
| "typeof_object (JArr _) = True"
| "typeof_object (JObj _) = True"
| "typeof_object _ = False"

fun is_string :: "jsv \<Rightarrow> bool" where
  "is_string (JStr _) = True"
| "is_string _ = False"

fun is_number :: "jsv \<Rightarrow> bool" where
  "is_number (JNum _) = True"
| "is_number _ = False"

lemma is_string_iff: "is_string v \<longleftrightarrow> (\<exists>s. v = JStr s)"
  by (cases v) simp_all

lemma is_number_iff: "is_number v \<longleftrightarrow> (\<exists>n. v = JNum n)"
  by (cases v) simp_all

text \<open>\<open>v && typeof v === 'object'\<close>: a non-null object or array.\<close>

definition is_objectlike :: "jsv \<Rightarrow> bool" where
  "is_objectlike v \<longleftrightarrow> truthy v \<and> typeof_object v"

lemma is_objectlike_simps [simp, js_simps]:
  "is_objectlike JUndef = False" "is_objectlike JNull = False"
  "is_objectlike (JBool b) = False" "is_objectlike (JNum n) = False"
  "is_objectlike (JBigInt i) = False" "is_objectlike (JStr s) = False"
  "is_objectlike (JArr xs) = True" "is_objectlike (JObj kvs) = True"
  by (simp_all add: is_objectlike_def)

lemma is_objectlike_iff: "is_objectlike v \<longleftrightarrow> (\<exists>xs. v = JArr xs) \<or> (\<exists>kvs. v = JObj kvs)"
  by (cases v) simp_all

text \<open>\<open>a ?? b\<close>.\<close>

definition nullish :: "jsv \<Rightarrow> bool" where
  "nullish v \<longleftrightarrow> v = JUndef \<or> v = JNull"

definition coalesce :: "jsv \<Rightarrow> jsv \<Rightarrow> jsv" where
  "coalesce a b = (if nullish a then b else a)"

subsection \<open>Decimal rendering of integers\<close>

definition digit_char :: "nat \<Rightarrow> char" where
  "digit_char d = char_of (48 + d)"

definition is_digit :: "char \<Rightarrow> bool" where
  "is_digit c \<longleftrightarrow> 48 \<le> (of_char c :: nat) \<and> (of_char c :: nat) \<le> 57"

definition digit_val :: "char \<Rightarrow> nat" where
  "digit_val c = of_char c - 48"

fun show_nat :: "nat \<Rightarrow> string" where
  "show_nat n = (if n < 10 then [digit_char n] else show_nat (n div 10) @ [digit_char (n mod 10)])"

declare show_nat.simps [simp del]

definition nat_of_str :: "string \<Rightarrow> nat" where
  "nat_of_str s = foldl (\<lambda>a c. 10 * a + digit_val c) 0 s"

text \<open>The digit strings that \<open>String(n)\<close> produces: no leading zero but \<open>"0"\<close> itself.\<close>

definition canonical_digits :: "string \<Rightarrow> bool" where
  "canonical_digits s \<longleftrightarrow> s \<noteq> [] \<and> list_all is_digit s \<and> (hd s = CHR ''0'' \<longrightarrow> s = ''0'')"

lemma digit_char_digit [simp]: "d < 10 \<Longrightarrow> is_digit (digit_char d)"
  by (simp add: is_digit_def digit_char_def)

lemma digit_val_char [simp]: "d < 10 \<Longrightarrow> digit_val (digit_char d) = d"
  by (simp add: digit_val_def digit_char_def)

lemma digit_char_val [simp]: "is_digit c \<Longrightarrow> digit_char (digit_val c) = c"
  by (simp add: is_digit_def digit_val_def digit_char_def)

lemma digit_val_less [simp]: "is_digit c \<Longrightarrow> digit_val c < 10"
  by (auto simp: is_digit_def digit_val_def)

lemma digit_char_0 [simp]: "digit_char 0 = CHR ''0''"
  by code_simp

lemma digit_zero: "is_digit c \<Longrightarrow> c = CHR ''0'' \<longleftrightarrow> digit_val c = 0"
  by (metis digit_char_0 digit_char_val digit_val_char zero_less_numeral)

lemma nat_of_str_snoc [simp]: "nat_of_str (s @ [c]) = 10 * nat_of_str s + digit_val c"
  by (simp add: nat_of_str_def)

lemma nat_of_str_Nil [simp]: "nat_of_str [] = 0"
  by (simp add: nat_of_str_def)

lemma nat_of_str_single [simp]: "nat_of_str [c] = digit_val c"
  using nat_of_str_snoc [of "[]" c] by simp

lemma show_nat_nonempty [simp]: "show_nat n \<noteq> []"
  by (subst show_nat.simps) simp

lemma show_nat_digits: "list_all is_digit (show_nat n)"
  by (induction n rule: show_nat.induct) (subst show_nat.simps, simp)

lemma nat_of_show_nat [simp]: "nat_of_str (show_nat n) = n"
proof (induction n rule: show_nat.induct)
  case (1 n)
  show ?case
  proof (cases "n < 10")
    case True
    then show ?thesis by (subst show_nat.simps) simp
  next
    case False
    then show ?thesis using "1" by (subst show_nat.simps) simp
  qed
qed

lemma hd_show_nat: "0 < n \<Longrightarrow> hd (show_nat n) \<noteq> CHR ''0''"
proof (induction n rule: show_nat.induct)
  case (1 n)
  show ?case
  proof (cases "n < 10")
    case True
    with "1.prems" show ?thesis
      using digit_zero [of "digit_char n"] by (subst show_nat.simps) simp
  next
    case False
    with "1" show ?thesis by (subst show_nat.simps) (simp add: hd_append)
  qed
qed

lemma show_nat_canonical [simp]: "canonical_digits (show_nat n)"
proof (cases "n = 0")
  case True
  then show ?thesis
    by (subst show_nat.simps) (simp add: canonical_digits_def is_digit_def)
next
  case False
  then show ?thesis
    by (simp add: canonical_digits_def show_nat_digits hd_show_nat)
qed

lemma canonical_pos:
  assumes "list_all is_digit s" "s \<noteq> []" "hd s \<noteq> CHR ''0''"
  shows "0 < nat_of_str s"
  using assms
proof (induction s rule: rev_induct)
  case Nil
  then show ?case by simp
next
  case (snoc c s)
  then show ?case
    by (cases "s = []") (auto simp: digit_zero)
qed

lemma show_nat_of_str: "canonical_digits s \<Longrightarrow> show_nat (nat_of_str s) = s"
proof (induction s rule: rev_induct)
  case Nil
  then show ?case by (simp add: canonical_digits_def)
next
  case (snoc c s)
  then have c: "is_digit c" by (simp add: canonical_digits_def)
  show ?case
  proof (cases "s = []")
    case True
    with c show ?thesis by (subst show_nat.simps) simp
  next
    case False
    with snoc.prems have hd: "hd s \<noteq> CHR ''0''" and d: "list_all is_digit s"
      by (auto simp: canonical_digits_def)
    with False have "0 < nat_of_str s" by (intro canonical_pos)
    moreover have "show_nat (nat_of_str s) = s"
      using snoc.IH hd d False by (simp add: canonical_digits_def)
    ultimately show ?thesis
      using c by (subst show_nat.simps) simp
  qed
qed

definition show_int :: "int \<Rightarrow> string" where
  "show_int n = (if n < 0 then CHR ''-'' # show_nat (nat (- n)) else show_nat (nat n))"

text \<open>The integer whose rendering a string is, if it is one: \<open>"-0"\<close> and leading zeros are
  not.\<close>

definition parse_int :: "string \<Rightarrow> int option" where
  "parse_int s =
     (case s of
        [] \<Rightarrow> None
      | c # t \<Rightarrow>
          if c = CHR ''-''
          then (if canonical_digits t \<and> t \<noteq> ''0'' then Some (- int (nat_of_str t)) else None)
          else (if canonical_digits s then Some (int (nat_of_str s)) else None))"

lemma show_nat_no_minus: "hd (show_nat n) \<noteq> CHR ''-''"
proof -
  have "is_digit (hd (show_nat n))"
    using show_nat_digits [of n] by (cases "show_nat n") (auto simp del: show_nat_nonempty, simp)
  then show ?thesis by (auto simp: is_digit_def)
qed

lemma show_nat_zero_iff: "show_nat n = ''0'' \<longleftrightarrow> n = 0"
proof -
  have "show_nat 0 = ''0''" by (subst show_nat.simps) simp
  then show ?thesis by (metis nat_of_show_nat)
qed

lemma parse_show_int [simp]: "parse_int (show_int n) = Some n"
proof (cases "n < 0")
  case True
  then show ?thesis by (simp add: show_int_def parse_int_def show_nat_zero_iff)
next
  case False
  then obtain c t where ct: "show_nat (nat n) = c # t" by (cases "show_nat (nat n)") simp_all
  with show_nat_no_minus [of "nat n"] have "c \<noteq> CHR ''-''" by simp
  moreover have "canonical_digits (c # t)" "nat_of_str (c # t) = nat n"
    by (metis ct show_nat_canonical, metis ct nat_of_show_nat)
  ultimately show ?thesis using False by (simp add: show_int_def parse_int_def ct)
qed

lemma parse_int_Some: "parse_int s = Some n \<Longrightarrow> s = show_int n"
proof (cases s)
  case Nil
  then show "parse_int s = Some n \<Longrightarrow> ?thesis" by (simp add: parse_int_def)
next
  case (Cons c t)
  assume p: "parse_int s = Some n"
  show ?thesis
  proof (cases "c = CHR ''-''")
    case True
    with p Cons have t: "canonical_digits t" "t \<noteq> ''0''" "n = - int (nat_of_str t)"
      by (auto simp: parse_int_def split: if_splits)
    then have "0 < nat_of_str t"
      by (intro canonical_pos) (auto simp: canonical_digits_def)
    with t True Cons show ?thesis by (simp add: show_int_def show_nat_of_str)
  next
    case False
    with p Cons have "canonical_digits s" "n = int (nat_of_str s)"
      by (auto simp: parse_int_def split: if_splits)
    then show ?thesis by (simp add: show_int_def show_nat_of_str)
  qed
qed

subsection \<open>Plain objects\<close>

text \<open>
  An object is the list of its own enumerable string-keyed properties in enumeration order:
  array-index keys first, ascending, then the others in the order they were created
  (ECMAScript, OrdinaryOwnPropertyKeys). \<open>canonical\<close> is that order together with
  distinctness; every object of a running program satisfies it.
\<close>

definition array_index :: "string \<Rightarrow> nat option" where
  "array_index k =
     (if canonical_digits k \<and> nat_of_str k < 4294967295 then Some (nat_of_str k) else None)"

text \<open>May key \<open>a\<close> stand before key \<open>b\<close>?\<close>

definition key_before :: "string \<Rightarrow> string \<Rightarrow> bool" where
  "key_before a b =
     (case array_index b of
        None \<Rightarrow> True
      | Some n \<Rightarrow> (case array_index a of None \<Rightarrow> False | Some m \<Rightarrow> m < n))"

definition canonical :: "(string \<times> 'a) list \<Rightarrow> bool" where
  "canonical kvs \<longleftrightarrow> distinct (map fst kvs) \<and> sorted_wrt key_before (map fst kvs)"

text \<open>\<open>CreateDataProperty\<close>: overwrite in place, or insert a new key where the enumeration
  order puts it.\<close>

fun js_put :: "string \<Rightarrow> 'a \<Rightarrow> (string \<times> 'a) list \<Rightarrow> (string \<times> 'a) list" where
  "js_put k v [] = [(k, v)]"
| "js_put k v ((k', v') # kvs) =
     (if k = k' then (k, v) # kvs
      else if array_index k \<noteq> None \<and> key_before k k' then (k, v) # (k', v') # kvs
      else (k', v') # js_put k v kvs)"

text \<open>The assignment \<open>o[k] = v\<close>. For the key \<open>__proto__\<close> it calls the setter that
  \<open>Object.prototype\<close> defines, which changes no own property.\<close>

definition js_assign :: "string \<Rightarrow> 'a \<Rightarrow> (string \<times> 'a) list \<Rightarrow> (string \<times> 'a) list" where
  "js_assign k v kvs = (if k = ''__proto__'' then kvs else js_put k v kvs)"

text \<open>\<open>delete o[k]\<close>.\<close>

definition js_delete :: "string \<Rightarrow> (string \<times> 'a) list \<Rightarrow> (string \<times> 'a) list" where
  "js_delete k kvs = filter (\<lambda>(k', _). k' \<noteq> k) kvs"

text \<open>\<open>o[k]\<close> on an object, and \<open>v.k\<close> on any value of which the sources read a named
  property.\<close>

definition js_get :: "jsobj \<Rightarrow> string \<Rightarrow> jsv" where
  "js_get kvs k = (case map_of kvs k of None \<Rightarrow> JUndef | Some v \<Rightarrow> v)"

fun jprop :: "jsv \<Rightarrow> string \<Rightarrow> jsv" where
  "jprop (JObj kvs) k = js_get kvs k"
| "jprop _ k = JUndef"

text \<open>\<open>Object.entries\<close>: an array's entries are its elements under their indices.\<close>

definition array_entries :: "jsv list \<Rightarrow> jsobj" where
  "array_entries xs = zip (map show_nat [0..<length xs]) xs"

fun entries :: "jsv \<Rightarrow> jsobj" where
  "entries (JObj kvs) = kvs"
| "entries (JArr xs) = array_entries xs"
| "entries _ = []"

lemma map_of_js_put [simp]: "map_of (js_put k v kvs) = (map_of kvs)(k \<mapsto> v)"
  by (induction kvs) auto

lemma map_of_js_assign: "k \<noteq> ''__proto__'' \<Longrightarrow> map_of (js_assign k v kvs) = (map_of kvs)(k \<mapsto> v)"
  by (simp add: js_assign_def)

lemma js_get_put: "js_get (js_put k v kvs) k' = (if k' = k then v else js_get kvs k')"
  by (simp add: js_get_def)

lemma keys_js_put [simp]: "fst ` set (js_put k v kvs) = insert k (fst ` set kvs)"
  by (induction k v kvs rule: js_put.induct) (simp_all add: insert_commute)

lemma map_of_js_delete [simp]: "map_of (js_delete k kvs) = (map_of kvs)(k := None)"
  by (induction kvs) (auto simp: js_delete_def fun_eq_iff)

lemma keys_js_delete [simp]: "fst ` set (js_delete k kvs) = fst ` set kvs - {k}"
  by (force simp: js_delete_def)

lemma js_get_delete: "js_get (js_delete k kvs) k' = (if k' = k then JUndef else js_get kvs k')"
  by (simp add: js_get_def)

lemma js_delete_id: "k \<notin> fst ` set kvs \<Longrightarrow> js_delete k kvs = kvs"
  by (force simp: js_delete_def filter_id_conv)

lemma js_get_notin: "k \<notin> fst ` set kvs \<Longrightarrow> js_get kvs k = JUndef"
  by (simp add: js_get_def map_of_eq_None_iff [THEN iffD2])

lemma array_index_inj: "array_index a = Some n \<Longrightarrow> array_index b = Some n \<Longrightarrow> a = b"
  by (auto simp: array_index_def split: if_splits) (metis show_nat_of_str)

lemma array_index_show_nat: "array_index (show_nat n) = (if n < 4294967295 then Some n else None)"
  by (simp add: array_index_def)

lemma key_before_total: "a \<noteq> b \<Longrightarrow> array_index a \<noteq> None \<Longrightarrow> \<not> key_before a b \<Longrightarrow> key_before b a"
  by (auto simp: key_before_def split: option.splits dest: array_index_inj)

lemma key_before_trans: "key_before a b \<Longrightarrow> array_index b \<noteq> None \<Longrightarrow> key_before b c \<Longrightarrow> key_before a c"
  by (auto simp: key_before_def split: option.splits)

lemma canonical_Nil [simp, js_intros]: "canonical []"
  by (simp add: canonical_def)

lemma canonical_Cons:
  "canonical (kv # kvs) \<longleftrightarrow>
     fst kv \<notin> fst ` set kvs \<and> (\<forall>k \<in> fst ` set kvs. key_before (fst kv) k) \<and> canonical kvs"
  by (auto simp: canonical_def)

lemma canonical_js_put [js_intros]: "canonical kvs \<Longrightarrow> canonical (js_put k v kvs)"
proof (induction kvs)
  case Nil
  then show ?case by (simp add: canonical_def)
next
  case (Cons kv kvs)
  obtain k' v' where kv: "kv = (k', v')" by (cases kv)
  consider (same) "k = k'"
    | (front) "k \<noteq> k'" "array_index k \<noteq> None" "key_before k k'"
    | (later) "k \<noteq> k'" "array_index k = None \<or> \<not> key_before k k'"
    by metis
  then show ?case
  proof cases
    case same
    with Cons.prems kv show ?thesis by (simp add: canonical_Cons)
  next
    case front
    have "key_before k x" if "x \<in> fst ` set kvs" for x
    proof -
      from that Cons.prems kv have "key_before k' x" by (auto simp: canonical_Cons)
      with front show ?thesis
        by (auto simp: key_before_def split: option.splits)
    qed
    moreover have "k \<notin> fst ` set kvs"
    proof
      assume "k \<in> fst ` set kvs"
      with Cons.prems kv have "key_before k' k" by (auto simp: canonical_Cons)
      with front show False by (auto simp: key_before_def split: option.splits)
    qed
    ultimately show ?thesis using front Cons.prems kv by (simp add: canonical_Cons)
  next
    case later
    then have "key_before k' k"
      using key_before_total [of k k'] by (auto simp: key_before_def split: option.splits)
    with later Cons kv show ?thesis by (auto simp: canonical_Cons)
  qed
qed

lemma canonical_filter: "canonical kvs \<Longrightarrow> canonical (filter P kvs)"
  by (induction kvs) (auto simp: canonical_Cons)

lemma canonical_js_delete [js_intros]: "canonical kvs \<Longrightarrow> canonical (js_delete k kvs)"
  by (simp add: js_delete_def canonical_filter)

lemma canonical_map_values [simp]: "canonical (map (\<lambda>(k, v). (k, f v)) kvs) = canonical kvs"
  by (simp add: canonical_def comp_def case_prod_unfold)

lemma js_put_snoc: "canonical (kvs @ [(k, v)]) \<Longrightarrow> js_put k v kvs = kvs @ [(k, v)]"
proof (induction kvs)
  case Nil
  then show ?case by simp
next
  case (Cons kv kvs)
  obtain k' v' where kv: "kv = (k', v')" by (cases kv)
  from Cons.prems kv have ne: "k \<noteq> k'" and kb: "key_before k' k"
    and tl: "canonical (kvs @ [(k, v)])"
    by (auto simp: canonical_Cons)
  from kb have "\<not> (array_index k \<noteq> None \<and> key_before k k')"
    by (auto simp: key_before_def split: option.splits)
  with ne tl Cons.IH kv show ?case by simp
qed

text \<open>Copying a canonical property list key by key rebuilds it: the loop
  \<open>for (const [k, v] of Object.entries(o)) out[k] = f(v)\<close>, and object spread.\<close>

definition js_copy :: "(string \<times> 'a) list \<Rightarrow> (string \<times> 'a) list" where
  "js_copy kvs = fold (\<lambda>(k, v). js_put k v) kvs []"

lemma canonical_append1: "canonical (xs @ ys) \<Longrightarrow> canonical xs"
  by (auto simp: canonical_def sorted_wrt_append)

lemma fold_put_append:
  "canonical (acc @ kvs) \<Longrightarrow> fold (\<lambda>(k, v). js_put k v) kvs acc = acc @ kvs"
proof (induction kvs arbitrary: acc)
  case Nil
  then show ?case by simp
next
  case (Cons kv kvs)
  obtain k v where kv: "kv = (k, v)" by (cases kv)
  from Cons.prems kv have "js_put k v acc = acc @ [(k, v)]"
    by (intro js_put_snoc) (rule canonical_append1 [where ys = kvs], simp)
  with Cons kv show ?case by simp
qed

lemma js_copy_canonical [simp]: "canonical kvs \<Longrightarrow> js_copy kvs = kvs"
  by (simp add: js_copy_def fold_put_append)

lemma fold_assign_canonical:
  assumes "canonical (acc @ kvs)" "list_all (\<lambda>(k, v). k \<noteq> ''__proto__'') kvs"
  shows "fold (\<lambda>(k, v). js_assign k v) kvs acc = acc @ kvs"
proof -
  have "fold (\<lambda>(k, v). js_assign k v) kvs acc = fold (\<lambda>(k, v). js_put k v) kvs acc"
    using assms(2) by (induction kvs arbitrary: acc) (auto simp: js_assign_def)
  then show ?thesis using fold_put_append [OF assms(1)] by simp
qed

lemma canonical_fold_put: "canonical acc \<Longrightarrow> canonical (fold (\<lambda>(k, v). js_put k v) kvs acc)"
  by (induction kvs arbitrary: acc) (auto intro: js_intros)

lemma map_of_fold_put: "map_of (fold (\<lambda>(k, v). js_put k v) kvs acc) = map_of acc ++ map_of (rev kvs)"
  by (induction kvs arbitrary: acc) (auto simp: map_add_def fun_eq_iff split: option.splits)

subsection \<open>Maps in insertion order\<close>

text \<open>A \<open>Map\<close> as the list of its entries in insertion order: \<open>set\<close> overwrites in place or
  appends, \<open>delete\<close> removes; \<open>get\<close> is \<open>map_of\<close>.\<close>

fun map_set :: "'k \<Rightarrow> 'v \<Rightarrow> ('k \<times> 'v) list \<Rightarrow> ('k \<times> 'v) list" where
  "map_set k v [] = [(k, v)]"
| "map_set k v ((k', v') # m) = (if k' = k then (k, v) # m else (k', v') # map_set k v m)"

definition map_delete :: "'k \<Rightarrow> ('k \<times> 'v) list \<Rightarrow> ('k \<times> 'v) list" where
  "map_delete k m = filter (\<lambda>(k', _). k' \<noteq> k) m"

lemma map_of_map_set [simp]: "map_of (map_set k v m) = (map_of m)(k \<mapsto> v)"
  by (induction k v m rule: map_set.induct) (auto simp: fun_eq_iff)

lemma map_of_map_delete [simp]: "map_of (map_delete k m) = (map_of m)(k := None)"
  by (induction m) (auto simp: map_delete_def fun_eq_iff)

lemma keys_map_set: "fst ` set (map_set k v m) = insert k (fst ` set m)"
  by (induction k v m rule: map_set.induct) (auto simp: insert_commute)

lemma keys_map_delete: "fst ` set (map_delete k m) = fst ` set m - {k}"
  by (force simp: map_delete_def)

lemma distinct_map_set: "distinct (map fst m) \<Longrightarrow> distinct (map fst (map_set k v m))"
proof (induction k v m rule: map_set.induct)
  case (2 k v k' v' m)
  then show ?case using keys_map_set [of k v m] by auto
qed simp

lemma distinct_map_delete: "distinct (map f m) \<Longrightarrow> distinct (map f (map_delete k m))"
  by (simp add: map_delete_def distinct_map_filter)

lemma map_set_new: "k \<notin> fst ` set m \<Longrightarrow> map_set k v m = m @ [(k, v)]"
  by (induction m) auto

lemma map_delete_absent: "k \<notin> fst ` set m \<Longrightarrow> map_delete k m = m"
  by (induction m) (auto simp: map_delete_def)

text \<open>Deleting an entry removes its value once from the multiset of values.\<close>

lemma mset_map_delete:
  "distinct (map fst m) \<Longrightarrow> map_of m k = Some v \<Longrightarrow> mset (map snd m) = mset (map snd (map_delete k m)) + {#v#}"
proof (induction m)
  case (Cons kv m)
  obtain k' v' where kv: "kv = (k', v')" by (cases kv)
  show ?case
  proof (cases "k' = k")
    case True
    then have "k \<notin> fst ` set m" "v' = v" using Cons.prems kv by auto
    then show ?thesis using True kv map_delete_absent [of k m] by (simp add: map_delete_def)
  next
    case False
    then show ?thesis using Cons kv by (simp add: map_delete_def)
  qed
qed simp

subsection \<open>The property store as an interface\<close>

text \<open>
  What the components rely on when they use an object (or a \<open>Map\<close>) as a dictionary. The
  clients' lemmas are proved once in the locale.
\<close>

locale prop_store =
  fixes get :: "'s \<Rightarrow> 'k \<Rightarrow> 'v option"
    and put :: "'k \<Rightarrow> 'v \<Rightarrow> 's \<Rightarrow> 's"
    and ok :: "'k \<Rightarrow> bool"
  assumes get_put_same: "ok k \<Longrightarrow> get (put k v s) k = Some v"
    and get_put_other: "k \<noteq> k' \<Longrightarrow> get (put k v s) k' = get s k'"
begin

lemma get_fold_put:
  "\<forall>k' \<in> fst ` set kvs. ok k' \<Longrightarrow>
   get (fold (\<lambda>(k, v). put k v) kvs s) k =
     (case map_of (rev kvs) k of None \<Rightarrow> get s k | Some v \<Rightarrow> Some v)"
proof (induction kvs arbitrary: s)
  case Nil
  then show ?case by simp
next
  case (Cons kv kvs)
  obtain k' v' where kv: "kv = (k', v')" by (cases kv)
  have IH: "get (fold (\<lambda>(k, v). put k v) kvs (put k' v' s)) k =
     (case map_of (rev kvs) k of None \<Rightarrow> get (put k' v' s) k | Some v \<Rightarrow> Some v)"
    using Cons.prems by (intro Cons.IH) simp
  show ?case
    using IH Cons.prems kv
    by (cases "k = k'") (auto simp: get_put_same get_put_other map_add_def split: option.splits)
qed

lemma get_fold_put_notin:
  "k \<notin> fst ` set kvs \<Longrightarrow> get (fold (\<lambda>(k, v). put k v) kvs s) k = get s k"
  by (induction kvs arbitrary: s) (auto simp: get_put_other)

end

interpretation obj: prop_store "map_of" "js_assign" "\<lambda>k. k \<noteq> ''__proto__''"
  by unfold_locales (auto simp: js_assign_def)

interpretation data: prop_store "map_of" "js_put" "\<lambda>k. True"
  by unfold_locales auto

interpretation jsmap: prop_store "\<lambda>m. m" "\<lambda>k v m. m(k \<mapsto> v)" "\<lambda>k. True"
  by unfold_locales auto

interpretation ordmap: prop_store "map_of" "map_set" "\<lambda>k. True"
  by unfold_locales auto

end
