(* ===== verification/Otel_Attrs.thy ===== *)
theory Otel_Attrs
  imports RTS_Prelude "HOL-Library.Log_Nat"
begin

section \<open>OTLP attribute encoding (\<open>extension/src/otel/attrs.ts\<close>)\<close>

text \<open>
  The tagged union of OTLP/JSON values with its seven optional fields, the two directions
  of the value encoding, the attribute lists built from records and read back, and the two
  single-attribute readers. \<open>any_value\<close> is the interface \<open>OtlpAnyValue\<close>, a field absent
  from the object being \<open>None\<close>; an attribute \<open>{key, value}\<close> is a pair.
\<close>

subsection \<open>Numbers as the encoder prints and reads them\<close>

text \<open>\<open>Number.MAX_SAFE_INTEGER\<close>, \<open>Number.isInteger\<close> and \<open>Number.isSafeInteger\<close>.\<close>

definition max_safe_integer :: int where
  "max_safe_integer = 9007199254740991"

definition safe_int :: "int \<Rightarrow> bool" where
  "safe_int n \<longleftrightarrow> \<bar>n\<bar> \<le> max_safe_integer"

definition rat_is_int :: "rat \<Rightarrow> bool" where
  "rat_is_int r \<longleftrightarrow> of_int \<lfloor>r\<rfloor> = r"

text \<open>
  \<open>String(v)\<close> for an integral double. Safe integers print all their digits. Above them
  the shortest digit string that still rounds to \<open>v\<close> is padded with zeros, and from
  \<open>10^21\<close> on the exponent form is used. \<open>rounds_to x v\<close>: the integer \<open>x\<close> rounds to the
  double \<open>v \<ge> 2^53\<close> under round-half-even, \<open>2^e\<close> being the spacing of the doubles at \<open>v\<close>.
\<close>

definition rounds_to :: "nat \<Rightarrow> nat \<Rightarrow> bool" where
  "rounds_to x v =
     (let e = floorlog 2 v - 53; u = 2 ^ e; even_m = even (v div u) in
      if v \<le> x then 2 * (x - v) < u \<or> 2 * (x - v) = u \<and> even_m
      else if v = 2 ^ (e + 52) then 4 * (v - x) \<le> u
      else 2 * (v - x) < u \<or> 2 * (v - x) = u \<and> even_m)"

definition shortest_candidate :: "nat \<Rightarrow> nat \<Rightarrow> nat option" where
  "shortest_candidate v z =
     (let lo = v div 10 ^ z * 10 ^ z; hi = lo + 10 ^ z in
      if v - lo \<le> hi - v \<and> rounds_to lo v then Some lo
      else if rounds_to hi v then Some hi
      else if rounds_to lo v then Some lo
      else None)"

fun shortest_rounding :: "nat \<Rightarrow> nat \<Rightarrow> nat" where
  "shortest_rounding v 0 = v"
| "shortest_rounding v (Suc z) =
     (case shortest_candidate v (Suc z) of Some s \<Rightarrow> s | None \<Rightarrow> shortest_rounding v z)"

definition js_nat_to_string :: "nat \<Rightarrow> string" where
  "js_nat_to_string v =
     (if int v \<le> max_safe_integer then show_nat v
      else (let ds = show_nat (shortest_rounding v (length (show_nat v) - 1)) in
        if length ds \<le> 21 then ds
        else (let frac = rev (dropWhile (\<lambda>c. c = CHR ''0'') (rev (tl ds))) in
          hd ds # (if frac = [] then [] else CHR ''.'' # frac) @ ''e+'' @ show_nat (length ds - 1))))"

definition js_int_to_string :: "int \<Rightarrow> string" where
  "js_int_to_string n =
     (if n < 0 then CHR ''-'' # js_nat_to_string (nat (- n)) else js_nat_to_string (nat n))"

lemma js_int_to_string_safe [simp]: "safe_int n \<Longrightarrow> js_int_to_string n = show_int n"
  by (auto simp: js_int_to_string_def js_nat_to_string_def show_int_def safe_int_def max_safe_integer_def)

subsection \<open>Values\<close>

datatype any_value = AnyValue
  (stringValue: "string option")
  (intValue: "string option")
  (doubleValue: "jsnum option")
  (boolValue: "bool option")
  (arrayValue: "any_value list option")
  (kvlistValue: "(string \<times> any_value) list option")
  (bytesValue: "string option")

type_synonym otlp_attribute = "string \<times> any_value"

abbreviation string_value :: "string \<Rightarrow> any_value" where
  "string_value s \<equiv> AnyValue (Some s) None None None None None None"
abbreviation int_value :: "string \<Rightarrow> any_value" where
  "int_value s \<equiv> AnyValue None (Some s) None None None None None"
abbreviation double_value :: "jsnum \<Rightarrow> any_value" where
  "double_value d \<equiv> AnyValue None None (Some d) None None None None"
abbreviation bool_value :: "bool \<Rightarrow> any_value" where
  "bool_value b \<equiv> AnyValue None None None (Some b) None None None"
abbreviation array_value :: "any_value list \<Rightarrow> any_value" where
  "array_value xs \<equiv> AnyValue None None None None (Some xs) None None"
abbreviation kvlist_value :: "otlp_attribute list \<Rightarrow> any_value" where
  "kvlist_value kvs \<equiv> AnyValue None None None None None (Some kvs) None"

definition encode_number :: "jsnum \<Rightarrow> any_value" where
  "encode_number x =
     (case x of
        Fin r \<Rightarrow> if rat_is_int r then int_value (js_int_to_string \<lfloor>r\<rfloor>) else double_value x
      | _ \<Rightarrow> double_value x)"

fun encodeAnyValue :: "jsv \<Rightarrow> any_value" where
  "encodeAnyValue JNull = string_value []"
| "encodeAnyValue JUndef = string_value []"
| "encodeAnyValue (JStr s) = string_value s"
| "encodeAnyValue (JBool b) = bool_value b"
| "encodeAnyValue (JNum x) = encode_number x"
| "encodeAnyValue (JBigInt n) = int_value (show_int n)"
| "encodeAnyValue (JArr xs) = array_value (map encodeAnyValue xs)"
| "encodeAnyValue (JObj kvs) = kvlist_value (map (\<lambda>(k, v). (k, encodeAnyValue v)) kvs)"

text \<open>
  The \<open>intValue\<close> branch of the decoder: \<open>Number(s)\<close> is a safe integer whose rendering is
  \<open>s\<close> again exactly when \<open>s\<close> is the canonical decimal form of a safe integer.
\<close>

definition decode_int :: "string \<Rightarrow> jsv" where
  "decode_int s =
     (case parse_int s of
        Some n \<Rightarrow> if safe_int n then num n else JStr s
      | None \<Rightarrow> JStr s)"

text \<open>\<open>decodeAnyValue\<close> and \<open>decodeAttrs\<close> are mutually recursive; the record is filled in
  list order by assignment, so the last duplicate of a key wins.\<close>

fun decode_any :: "any_value \<Rightarrow> jsv" where
  "decode_any (AnyValue sv iv dv bv av kv byv) =
     (case sv of Some s \<Rightarrow> JStr s | None \<Rightarrow>
     (case bv of Some b \<Rightarrow> JBool b | None \<Rightarrow>
     (case iv of Some s \<Rightarrow> decode_int s | None \<Rightarrow>
     (case dv of Some d \<Rightarrow> JNum d | None \<Rightarrow>
     (case av of Some xs \<Rightarrow> JArr (map decode_any xs) | None \<Rightarrow>
     (case kv of Some kvs \<Rightarrow>
        JObj (fold (\<lambda>(k, v). js_assign k v) (map (\<lambda>(k, v). (k, decode_any v)) kvs) []) | None \<Rightarrow>
     (case byv of Some s \<Rightarrow> JStr s | None \<Rightarrow> JUndef)))))))"

definition decodeAnyValue :: "any_value option \<Rightarrow> jsv" where
  "decodeAnyValue v = (case v of None \<Rightarrow> JUndef | Some w \<Rightarrow> decode_any w)"

definition encodeAttrs :: "jsobj \<Rightarrow> otlp_attribute list" where
  "encodeAttrs record = map (\<lambda>(k, v). (k, encodeAnyValue v)) record"

definition decodeAttrs :: "otlp_attribute list option \<Rightarrow> jsobj" where
  "decodeAttrs list =
     (case list of
        None \<Rightarrow> []
      | Some attrs \<Rightarrow> fold (\<lambda>(k, v). js_assign k (decodeAnyValue (Some v))) attrs [])"

subsection \<open>Single attributes\<close>

text \<open>The loop of \<open>getAttr\<close> runs from the last index down and returns at the first match.\<close>

fun get_attr_from :: "otlp_attribute list \<Rightarrow> string \<Rightarrow> jsv" where
  "get_attr_from [] key = JUndef"
| "get_attr_from ((k, v) # rest) key =
     (if k = key then decodeAnyValue (Some v) else get_attr_from rest key)"

definition getAttr :: "otlp_attribute list option \<Rightarrow> string \<Rightarrow> jsv" where
  "getAttr list key = (case list of None \<Rightarrow> JUndef | Some attrs \<Rightarrow> get_attr_from (rev attrs) key)"

definition getStringAttr :: "otlp_attribute list option \<Rightarrow> string \<Rightarrow> string \<Rightarrow> string" where
  "getStringAttr list key fallback =
     (case getAttr list key of JStr s \<Rightarrow> s | _ \<Rightarrow> fallback)"

subsection \<open>Lemmas\<close>

lemma decode_int_show [simp]: "safe_int n \<Longrightarrow> decode_int (show_int n) = num n"
  by (simp add: decode_int_def)

lemma fold_assign_map:
  "fold (\<lambda>(k, v). js_assign k v) (map (\<lambda>(k, v). (k, f v)) kvs) acc =
   fold (\<lambda>(k, v). js_assign k (f v)) kvs acc"
  by (induction kvs arbitrary: acc) auto

lemma fold_assign_put:
  "''__proto__'' \<notin> fst ` set kvs \<Longrightarrow>
   fold (\<lambda>(k, v). js_assign k v) kvs acc = fold (\<lambda>(k, v). js_put k v) kvs acc"
  by (induction kvs arbitrary: acc) (auto simp: js_assign_def)

lemma decodeAttrs_kvlist: "decode_any (kvlist_value kvs) = JObj (decodeAttrs (Some kvs))"
  by (simp add: decodeAttrs_def decodeAnyValue_def fold_assign_map)

text \<open>The values on which the encoding loses nothing.\<close>

fun otel_normal :: "jsv \<Rightarrow> bool" where
  "otel_normal JUndef = False"
| "otel_normal JNull = False"
| "otel_normal (JBool b) = True"
| "otel_normal (JNum x) = (case x of Fin r \<Rightarrow> rat_is_int r \<longrightarrow> safe_int \<lfloor>r\<rfloor> | _ \<Rightarrow> True)"
| "otel_normal (JBigInt n) = False"
| "otel_normal (JStr s) = True"
| "otel_normal (JArr xs) = list_all otel_normal xs"
| "otel_normal (JObj kvs) =
     (canonical kvs \<and> ''__proto__'' \<notin> fst ` set kvs \<and> list_all (\<lambda>(k, v). otel_normal v) kvs)"

lemma decode_encode_number:
  "otel_normal (JNum x) \<Longrightarrow> decode_any (encode_number x) = JNum x"
  by (auto simp: encode_number_def rat_is_int_def split: jsnum.splits)

lemma decode_encode: "otel_normal v \<Longrightarrow> decode_any (encodeAnyValue v) = v"
proof (induction v rule: encodeAnyValue.induct)
  case (5 x)
  then show ?case by (simp add: decode_encode_number del: otel_normal.simps)
next
  case (7 xs)
  then show ?case by (auto simp: list_all_iff intro: map_idI)
next
  case (8 kvs)
  have "map (\<lambda>(k, v). (k, decode_any (encodeAnyValue v))) kvs = kvs"
    using 8 by (intro map_idI) (auto simp: list_all_iff)
  then show ?case
    using 8 by (auto simp: comp_def case_prod_unfold fold_assign_put [unfolded case_prod_unfold]
        js_copy_def [symmetric, unfolded case_prod_unfold])
qed auto

lemma decode_encode_attrs:
  assumes "otel_normal (JObj kvs)"
  shows "decodeAttrs (Some (encodeAttrs kvs)) = kvs"
proof -
  have "JObj (decodeAttrs (Some (encodeAttrs kvs))) = decode_any (encodeAnyValue (JObj kvs))"
    by (simp add: encodeAttrs_def decodeAttrs_kvlist del: decode_any.simps)
  with decode_encode [OF assms] show ?thesis by simp
qed

lemma get_attr_from_map_of:
  "get_attr_from attrs key = (case map_of attrs key of None \<Rightarrow> JUndef | Some v \<Rightarrow> decodeAnyValue (Some v))"
  by (induction attrs) auto

lemma map_of_fold_assign:
  "key \<noteq> ''__proto__'' \<Longrightarrow>
   map_of (fold (\<lambda>(k, v). js_assign k (f v)) kvs acc) key =
     (case map_of (rev kvs) key of None \<Rightarrow> map_of acc key | Some v \<Rightarrow> Some (f v))"
  by (induction kvs arbitrary: acc)
     (auto simp: js_assign_def map_add_def split: option.splits if_splits)

lemma getAttr_decodeAttrs:
  "key \<noteq> ''__proto__'' \<Longrightarrow> getAttr list key = js_get (decodeAttrs list) key"
  by (cases list)
     (auto simp: getAttr_def decodeAttrs_def js_get_def get_attr_from_map_of map_of_fold_assign
           split: option.splits)


subsection \<open>Properties\<close>

text \<open>C25. Decoding undoes encoding: for every value without null, undefined, bigint, unsafe
  integers and \<open>__proto__\<close> keys, however deeply nested, \<open>decodeAnyValue(encodeAnyValue(v))\<close>
  is \<open>v\<close> again, objects with their keys in the same order.\<close>

theorem decodeAnyValue_encodeAnyValue:
  assumes "otel_normal v"
  shows "decodeAnyValue (Some (encodeAnyValue v)) = v"
  using decode_encode [OF assms] by (simp add: decodeAnyValue_def)

theorem decodeAnyValue_encodeAnyValue_witness:
  "decodeAnyValue (Some (encodeAnyValue
     (JObj [(''n'', num (-3)), (''xs'', JArr [JBool True, JStr ''a'', JNum (Fin (1/2))])])))
   = JObj [(''n'', num (-3)), (''xs'', JArr [JBool True, JStr ''a'', JNum (Fin (1/2))])]"
  by (rule decodeAnyValue_encodeAnyValue)
     (simp add: canonical_def key_before_def array_index_def canonical_digits_def is_digit_def
        rat_is_int_def safe_int_def max_safe_integer_def)

text \<open>The record round trip: \<open>decodeAttrs(encodeAttrs(r))\<close> is \<open>r\<close>, and on any attribute
  list, duplicates included, the backward scan of \<open>getAttr\<close> finds the value \<open>decodeAttrs\<close>
  stores under the key (last one wins in both).\<close>

theorem getAttr_last_wins:
  assumes "key \<noteq> ''__proto__''" and "otel_normal (JObj r)"
  shows "getAttr list key = js_get (decodeAttrs list) key \<and>
    decodeAttrs (Some (encodeAttrs r)) = r \<and>
    getAttr (Some (encodeAttrs r)) key = js_get r key"
  using assms by (simp_all add: getAttr_decodeAttrs decode_encode_attrs)

theorem getAttr_last_wins_witness:
  "getAttr (Some [(''k'', string_value ''old''), (''k'', string_value ''new'')]) ''k'' =
     js_get (decodeAttrs (Some [(''k'', string_value ''old''), (''k'', string_value ''new'')])) ''k''
   \<and> decodeAttrs (Some (encodeAttrs [(''k'', JStr ''x'')])) = [(''k'', JStr ''x'')]
   \<and> getAttr (Some (encodeAttrs [(''k'', JStr ''x'')])) ''k'' = js_get [(''k'', JStr ''x'')] ''k''"
  using getAttr_last_wins [of "''k''" "[(''k'', JStr ''x'')]"
      "Some [(''k'', string_value ''old''), (''k'', string_value ''new'')]"]
  by (simp add: canonical_def)

text \<open>A bigint beyond the safe range comes back as a string, and encoding that string again
  gives a different tagged value: the decoder is not an inverse on everything the encoder
  produces.\<close>

lemma bigint_reencodes_as_string:
  "encodeAnyValue (decodeAnyValue (Some (encodeAnyValue (JBigInt 9007199254740992))))
     \<noteq> encodeAnyValue (JBigInt 9007199254740992)"
  by (simp add: decodeAnyValue_def decode_int_def safe_int_def max_safe_integer_def)

end
