(* ===== verification/Router.thy ===== *)
theory Router
  imports RTS_Prelude
begin

section \<open>The message router (\<open>extension/src/messaging/router.ts\<close>)\<close>

text \<open>
  The router keeps six observer lists and dispatches three kinds of inbound traffic: Comm
  envelopes (\<open>route\<close>), run payloads (\<open>routeRunMime\<close>) and log records
  (\<open>routeLogRecord\<close>); outbound envelopes fan out to the outbound subscribers.

  An observer is its object identity, a number. What an observer does when it is called is
  outside the router: the parameter \<open>beh\<close> says whether the call returns (\<open>None\<close>) or throws,
  with the text of the error. An operation returns the sequence of the calls and log lines it
  makes and, where the source lets an exception escape, that exception. Observers do not
  register or unregister while a dispatch iterates over the lists.
\<close>

subsection \<open>State, calls and log lines\<close>

type_synonym observer = nat

record router =
  runObservers :: "observer list"
  mapObservers :: "observer list"
  metadataObservers :: "observer list"
  logRecordObservers :: "observer list"
  heartbeatKernelObservers :: "observer list"
  outboundSubscribers :: "observer list"

datatype log_level = LTrace | LDebug | LInfo | LWarn | LError

datatype call =
    OnLayoutUpdate observer jsv
  | OnAgentGraphResponse observer jsv
  | OnNotebookMetadata observer jsv
  | OnHeartbeatKernel observer jsv
  | OnLogRecord observer jsv
  | OnRunStart observer jsv
  | OnRunEvent observer jsv
  | OnRunComplete observer jsv
  | OutboundSend observer jsv

datatype event = Called call | Logged log_level string

type_synonym behaviour = "call \<Rightarrow> string option"

definition new_router :: router where
  "new_router = \<lparr>runObservers = [], mapObservers = [], metadataObservers = [],
     logRecordObservers = [], heartbeatKernelObservers = [], outboundSubscribers = []\<rparr>"

subsection \<open>Registration and disposal\<close>

text \<open>\<open>indexOf\<close> and the disposal closure \<open>if (idx >= 0) list.splice(idx, 1)\<close>.\<close>

fun indexOf :: "'a \<Rightarrow> 'a list \<Rightarrow> nat option" where
  "indexOf x [] = None"
| "indexOf x (y # ys) = (if y = x then Some 0 else map_option Suc (indexOf x ys))"

definition splice_out :: "'a \<Rightarrow> 'a list \<Rightarrow> 'a list" where
  "splice_out x xs = (case indexOf x xs of None \<Rightarrow> xs | Some i \<Rightarrow> take i xs @ drop (Suc i) xs)"

definition registerRunObserver :: "observer \<Rightarrow> router \<Rightarrow> router" where
  "registerRunObserver o1 r = r\<lparr>runObservers := runObservers r @ [o1]\<rparr>"
definition disposeRunObserver :: "observer \<Rightarrow> router \<Rightarrow> router" where
  "disposeRunObserver o1 r = r\<lparr>runObservers := splice_out o1 (runObservers r)\<rparr>"

definition registerMapObserver :: "observer \<Rightarrow> router \<Rightarrow> router" where
  "registerMapObserver o1 r = r\<lparr>mapObservers := mapObservers r @ [o1]\<rparr>"
definition disposeMapObserver :: "observer \<Rightarrow> router \<Rightarrow> router" where
  "disposeMapObserver o1 r = r\<lparr>mapObservers := splice_out o1 (mapObservers r)\<rparr>"

definition registerMetadataObserver :: "observer \<Rightarrow> router \<Rightarrow> router" where
  "registerMetadataObserver o1 r = r\<lparr>metadataObservers := metadataObservers r @ [o1]\<rparr>"
definition disposeMetadataObserver :: "observer \<Rightarrow> router \<Rightarrow> router" where
  "disposeMetadataObserver o1 r = r\<lparr>metadataObservers := splice_out o1 (metadataObservers r)\<rparr>"

definition registerLogRecordObserver :: "observer \<Rightarrow> router \<Rightarrow> router" where
  "registerLogRecordObserver o1 r = r\<lparr>logRecordObservers := logRecordObservers r @ [o1]\<rparr>"
definition disposeLogRecordObserver :: "observer \<Rightarrow> router \<Rightarrow> router" where
  "disposeLogRecordObserver o1 r = r\<lparr>logRecordObservers := splice_out o1 (logRecordObservers r)\<rparr>"

text \<open>The handler variant wraps the handler in a new object, whose identity is \<open>fresh\<close>.\<close>

definition registerLogRecordHandler :: "observer \<Rightarrow> router \<Rightarrow> router" where
  "registerLogRecordHandler fresh r = registerLogRecordObserver fresh r"

definition registerHeartbeatKernelObserver :: "observer \<Rightarrow> router \<Rightarrow> router" where
  "registerHeartbeatKernelObserver o1 r =
     r\<lparr>heartbeatKernelObservers := heartbeatKernelObservers r @ [o1]\<rparr>"
definition disposeHeartbeatKernelObserver :: "observer \<Rightarrow> router \<Rightarrow> router" where
  "disposeHeartbeatKernelObserver o1 r =
     r\<lparr>heartbeatKernelObservers := splice_out o1 (heartbeatKernelObservers r)\<rparr>"

definition subscribeOutbound :: "observer \<Rightarrow> router \<Rightarrow> router" where
  "subscribeOutbound o1 r = r\<lparr>outboundSubscribers := outboundSubscribers r @ [o1]\<rparr>"
definition disposeOutbound :: "observer \<Rightarrow> router \<Rightarrow> router" where
  "disposeOutbound o1 r = r\<lparr>outboundSubscribers := splice_out o1 (outboundSubscribers r)\<rparr>"

subsection \<open>Fan-out\<close>

text \<open>A bare \<open>for (const obs of \<dots>) obs.on\<dots>(payload)\<close>: the first exception ends the loop
  and escapes.\<close>

fun deliver :: "behaviour \<Rightarrow> call list \<Rightarrow> event list \<times> string option" where
  "deliver beh [] = ([], None)"
| "deliver beh (c # cs) =
     (case beh c of
        Some err \<Rightarrow> ([Called c], Some err)
      | None \<Rightarrow> (let (evs, exn) = deliver beh cs in (Called c # evs, exn)))"

text \<open>The loop with \<open>try \<dots> catch (err) { logger.error(\<dots>) }\<close> around each call.\<close>

fun deliver_guarded :: "behaviour \<Rightarrow> string \<Rightarrow> call list \<Rightarrow> event list" where
  "deliver_guarded beh msg [] = []"
| "deliver_guarded beh msg (c # cs) =
     Called c # (case beh c of Some err \<Rightarrow> [Logged LError (msg @ err)] | None \<Rightarrow> [])
       @ deliver_guarded beh msg cs"

subsection \<open>Validation and dispatch\<close>

definition validateEnvelope :: "jsv \<Rightarrow> event list \<times> bool" where
  "validateEnvelope env =
     (if \<not> truthy env \<or> \<not> typeof_object env
      then ([Logged LError ''[router] envelope is not an object''], False)
      else if \<not> is_string (jprop env ''type'') \<or> jprop env ''type'' = JStr []
      then ([Logged LError ''[router] envelope missing required field: type''], False)
      else if jprop env ''payload'' = JUndef \<or> jprop env ''payload'' = JNull
      then ([Logged LError ''[router] envelope missing required field: payload''], False)
      else ([], True))"

definition str_of :: "jsv \<Rightarrow> string" where
  "str_of v = (case v of JStr s \<Rightarrow> s | _ \<Rightarrow> [])"

definition cid_text :: "jsv \<Rightarrow> string" where
  "cid_text env = (case jprop env ''correlation_id'' of JStr s \<Rightarrow> s | _ \<Rightarrow> ''-'')"

definition enqueueOutbound :: "router \<Rightarrow> behaviour \<Rightarrow> jsv \<Rightarrow> event list" where
  "enqueueOutbound r beh env =
     (if outboundSubscribers r = []
      then [Logged LWarn (''[router] outbound dropped (no subscriber): type='' @
              str_of (jprop env ''type'') @ '' cid='' @ cid_text env)]
      else deliver_guarded beh ''[router] outbound subscriber threw: ''
             (map (\<lambda>s. OutboundSend s env) (outboundSubscribers r)))"

definition route :: "router \<Rightarrow> behaviour \<Rightarrow> jsv \<Rightarrow> event list \<times> string option" where
  "route r beh env =
     (let (log, ok) = validateEnvelope env in
      if \<not> ok then (log, None)
      else (let t = str_of (jprop env ''type''); p = jprop env ''payload'' in
        if t = ''layout.update''
        then deliver beh (map (\<lambda>obs. OnLayoutUpdate obs p) (mapObservers r))
        else if t = ''agent_graph.response''
        then deliver beh (map (\<lambda>obs. OnAgentGraphResponse obs p) (mapObservers r))
        else if t = ''notebook.metadata''
        then deliver beh (map (\<lambda>obs. OnNotebookMetadata obs p) (metadataObservers r))
        else if t \<in> {''layout.edit'', ''agent_graph.query'', ''operator.action'',
                     ''heartbeat.extension'', ''kernel.shutdown_request''}
        then (enqueueOutbound r beh env, None)
        else if t = ''heartbeat.kernel''
        then (deliver_guarded beh ''[router] heartbeat.kernel observer threw: ''
                (map (\<lambda>obs. OnHeartbeatKernel obs p) (heartbeatKernelObservers r))
              @ [Logged LTrace (''[router] heartbeat.kernel received (cid='' @ cid_text env @ '')'')],
              None)
        else ([Logged LError (''[router] unknown comm type: '' @ t)], None)))"

text \<open>\<open>x && x.length > 0\<close> for the declared type \<open>string | null\<close> (and arrays).\<close>

definition nonempty_text :: "jsv \<Rightarrow> bool" where
  "nonempty_text v = (case v of JStr s \<Rightarrow> s \<noteq> [] | JArr xs \<Rightarrow> xs \<noteq> [] | _ \<Rightarrow> False)"

definition routeRunMime :: "router \<Rightarrow> behaviour \<Rightarrow> jsv \<Rightarrow> event list \<times> string option" where
  "routeRunMime r beh payload =
     (if \<not> truthy payload \<or> \<not> typeof_object payload
      then ([Logged LError ''[router] routeRunMime: payload is not an object''], None)
      else if truthy (jprop payload ''event'')
      then deliver beh (map (\<lambda>obs. OnRunEvent obs payload) (runObservers r))
      else if \<not> is_string (jprop payload ''spanId'') \<or> jprop payload ''spanId'' = JStr []
      then ([Logged LWarn ''[router] routeRunMime: span missing spanId''], None)
      else if nonempty_text (jprop payload ''endTimeUnixNano'')
      then deliver beh (map (\<lambda>obs. OnRunComplete obs payload) (runObservers r))
      else deliver beh (map (\<lambda>obs. OnRunStart obs payload) (runObservers r)))"

definition routeLogRecord :: "router \<Rightarrow> behaviour \<Rightarrow> jsv \<Rightarrow> event list" where
  "routeLogRecord r beh record =
     (if \<not> truthy record \<or> \<not> typeof_object record
      then [Logged LError ''[router] routeLogRecord: record is not an object'']
      else deliver_guarded beh ''[router] log-record observer threw: ''
             (map (\<lambda>obs. OnLogRecord obs record) (logRecordObservers r)))"

subsection \<open>Observer lists as an interface\<close>

locale observer_registry =
  fixes members :: "'r \<Rightarrow> 'o list"
    and add :: "'o \<Rightarrow> 'r \<Rightarrow> 'r"
    and remove :: "'o \<Rightarrow> 'r \<Rightarrow> 'r"
  assumes members_add: "members (add x r) = members r @ [x]"
    and members_remove: "members (remove x r) = remove1 x (members r)"
begin

lemma members_add_list: "members (fold add xs r) = members r @ xs"
  by (induction xs arbitrary: r) (simp_all add: members_add)

lemma remove_add_fresh: "x \<notin> set (members r) \<Longrightarrow> members (remove x (add x r)) = members r"
  by (simp add: members_add members_remove remove1_append)

lemma remove_absent: "x \<notin> set (members r) \<Longrightarrow> members (remove x r) = members r"
  by (simp add: members_remove remove1_idem)

lemma remove_keeps_others:
  "filter (\<lambda>y. y \<noteq> x) (members (remove x r)) = filter (\<lambda>y. y \<noteq> x) (members r)"
  unfolding members_remove by (induction "members r" arbitrary: r) (auto simp: filter_remove1 remove1_idem)

end

lemma splice_out_remove1: "splice_out x xs = remove1 x xs"
proof (induction xs)
  case Nil
  then show ?case by (simp add: splice_out_def)
next
  case (Cons y ys)
  then show ?case by (cases "indexOf x ys") (auto simp: splice_out_def)
qed

interpretation run_reg: observer_registry runObservers registerRunObserver disposeRunObserver
  by unfold_locales (simp_all add: registerRunObserver_def disposeRunObserver_def splice_out_remove1)
interpretation map_reg: observer_registry mapObservers registerMapObserver disposeMapObserver
  by unfold_locales (simp_all add: registerMapObserver_def disposeMapObserver_def splice_out_remove1)
interpretation metadata_reg: observer_registry metadataObservers registerMetadataObserver disposeMetadataObserver
  by unfold_locales (simp_all add: registerMetadataObserver_def disposeMetadataObserver_def splice_out_remove1)
interpretation log_reg: observer_registry logRecordObservers registerLogRecordObserver disposeLogRecordObserver
  by unfold_locales (simp_all add: registerLogRecordObserver_def disposeLogRecordObserver_def splice_out_remove1)
interpretation heartbeat_reg: observer_registry heartbeatKernelObservers registerHeartbeatKernelObserver disposeHeartbeatKernelObserver
  by unfold_locales (simp_all add: registerHeartbeatKernelObserver_def disposeHeartbeatKernelObserver_def splice_out_remove1)
interpretation outbound_reg: observer_registry outboundSubscribers subscribeOutbound disposeOutbound
  by unfold_locales (simp_all add: subscribeOutbound_def disposeOutbound_def splice_out_remove1)

subsection \<open>What was called\<close>

fun calls :: "event list \<Rightarrow> call list" where
  "calls [] = []"
| "calls (Called c # evs) = c # calls evs"
| "calls (Logged l s # evs) = calls evs"

lemma calls_append [simp]: "calls (xs @ ys) = calls xs @ calls ys"
  by (induction xs rule: calls.induct) auto

lemma calls_guarded [simp]: "calls (deliver_guarded beh msg cs) = cs"
  by (induction cs) (auto split: option.splits)

text \<open>The unguarded loop reaches the calls up to and including the first that throws.\<close>

lemma deliver_upto_throw:
  "deliver beh cs =
     (let ok = takeWhile (\<lambda>c. beh c = None) cs; rest = dropWhile (\<lambda>c. beh c = None) cs in
      (map Called (ok @ take 1 rest), case rest of [] \<Rightarrow> None | c # _ \<Rightarrow> beh c))"
  by (induction cs) (auto simp: Let_def split: option.splits prod.splits list.splits)

lemma calls_map_Called [simp]: "calls (map Called cs) = cs"
  by (induction cs) auto

lemma deliver_no_throw: "\<forall>c \<in> set cs. beh c = None \<Longrightarrow> deliver beh cs = (map Called cs, None)"
  by (induction cs) auto

lemma calls_deliver: "calls (fst (deliver beh cs)) = takeWhile (\<lambda>c. beh c = None) cs @ take 1 (dropWhile (\<lambda>c. beh c = None) cs)"
  by (simp add: deliver_upto_throw Let_def)

lemma guarded_logs:
  "Logged l s \<in> set (deliver_guarded beh msg cs) \<longleftrightarrow>
     l = LError \<and> (\<exists>c \<in> set cs. \<exists>err. beh c = Some err \<and> s = msg @ err)"
  by (induction cs) (auto split: option.splits)

lemma prefix_deliver: "prefix (calls (fst (deliver beh cs))) cs"
  by (induction cs) (auto split: option.splits prod.splits)

subsection \<open>The dispatch table\<close>

text \<open>The union \<open>RtsV2MessageType\<close> of \<open>messaging/types.ts\<close>, split by the direction the
  router gives each type.\<close>

definition observer_types :: "string list" where
  "observer_types = [''layout.update'', ''agent_graph.response'', ''notebook.metadata'', ''heartbeat.kernel'']"

definition forwarded_types :: "string list" where
  "forwarded_types = [''layout.edit'', ''agent_graph.query'', ''operator.action'',
     ''heartbeat.extension'', ''kernel.shutdown_request'']"

definition RtsV2MessageType :: "string list" where
  "RtsV2MessageType = [''layout.update'', ''layout.edit'', ''agent_graph.query'', ''agent_graph.response'',
     ''operator.action'', ''heartbeat.kernel'', ''heartbeat.extension'', ''notebook.metadata'',
     ''kernel.shutdown_request'']"

text \<open>Who must hear of an envelope, in which order, through which method: the contract of
  the router, without validation, exceptions or log lines.\<close>

definition recipients :: "router \<Rightarrow> jsv \<Rightarrow> call list" where
  "recipients r env =
     (let p = jprop env ''payload'' in
      if \<not> snd (validateEnvelope env) then []
      else case map_of
        [(''layout.update'', map (\<lambda>x. OnLayoutUpdate x p) (mapObservers r)),
         (''agent_graph.response'', map (\<lambda>x. OnAgentGraphResponse x p) (mapObservers r)),
         (''notebook.metadata'', map (\<lambda>x. OnNotebookMetadata x p) (metadataObservers r)),
         (''heartbeat.kernel'', map (\<lambda>x. OnHeartbeatKernel x p) (heartbeatKernelObservers r))]
        (str_of (jprop env ''type'')) of
        Some cs \<Rightarrow> cs
      | None \<Rightarrow> if str_of (jprop env ''type'') \<in> set forwarded_types
                then map (\<lambda>x. OutboundSend x env) (outboundSubscribers r) else [])"

lemma validateEnvelope_cases:
  "validateEnvelope env = ([], True) \<or> (\<exists>msg. validateEnvelope env = ([Logged LError msg], False))"
  by (auto simp: validateEnvelope_def)

lemma calls_enqueueOutbound [simp]:
  "calls (enqueueOutbound r beh env) = map (\<lambda>x. OutboundSend x env) (outboundSubscribers r)"
  by (simp add: enqueueOutbound_def)

lemma types_partition:
  "t \<in> set RtsV2MessageType \<longleftrightarrow> t \<in> set observer_types \<or> t \<in> set forwarded_types"
  by (auto simp: RtsV2MessageType_def observer_types_def forwarded_types_def)

lemma route_valid:
  assumes "snd (validateEnvelope env)" and "jprop env ''type'' = JStr t"
  shows
    "t = ''layout.update'' \<Longrightarrow> route r beh env = deliver beh (recipients r env)"
    "t = ''agent_graph.response'' \<Longrightarrow> route r beh env = deliver beh (recipients r env)"
    "t = ''notebook.metadata'' \<Longrightarrow> route r beh env = deliver beh (recipients r env)"
    "t = ''heartbeat.kernel'' \<Longrightarrow>
       route r beh env = (deliver_guarded beh ''[router] heartbeat.kernel observer threw: '' (recipients r env)
         @ [Logged LTrace (''[router] heartbeat.kernel received (cid='' @ cid_text env @ '')'')], None)"
    "t \<in> set forwarded_types \<Longrightarrow>
       route r beh env = (enqueueOutbound r beh env, None) \<and>
       recipients r env = map (\<lambda>x. OutboundSend x env) (outboundSubscribers r)"
    "t \<notin> set RtsV2MessageType \<Longrightarrow>
       route r beh env = ([Logged LError (''[router] unknown comm type: '' @ t)], None) \<and> recipients r env = []"
proof -
  from assms validateEnvelope_cases [of env] have v: "validateEnvelope env = ([], True)" by auto
  note defs = route_def recipients_def v assms(2) str_of_def forwarded_types_def RtsV2MessageType_def
  show "t = ''layout.update'' \<Longrightarrow> route r beh env = deliver beh (recipients r env)"
    by (simp add: defs)
  show "t = ''agent_graph.response'' \<Longrightarrow> route r beh env = deliver beh (recipients r env)"
    by (simp add: defs)
  show "t = ''notebook.metadata'' \<Longrightarrow> route r beh env = deliver beh (recipients r env)"
    by (simp add: defs)
  show "t = ''heartbeat.kernel'' \<Longrightarrow>
       route r beh env = (deliver_guarded beh ''[router] heartbeat.kernel observer threw: '' (recipients r env)
         @ [Logged LTrace (''[router] heartbeat.kernel received (cid='' @ cid_text env @ '')'')], None)"
    by (simp add: defs)
  show "t \<in> set forwarded_types \<Longrightarrow>
       route r beh env = (enqueueOutbound r beh env, None) \<and>
       recipients r env = map (\<lambda>x. OutboundSend x env) (outboundSubscribers r)"
    by (auto simp: defs)
  show "t \<notin> set RtsV2MessageType \<Longrightarrow>
       route r beh env = ([Logged LError (''[router] unknown comm type: '' @ t)], None) \<and> recipients r env = []"
    by (simp add: defs)
qed

lemma route_invalid:
  "\<not> snd (validateEnvelope env) \<Longrightarrow>
     route r beh env = (fst (validateEnvelope env), None) \<and> recipients r env = []"
  by (auto simp: route_def recipients_def split: prod.splits)

lemma validEnvelope_type:
  "snd (validateEnvelope env) \<Longrightarrow> \<exists>t. jprop env ''type'' = JStr t \<and> t \<noteq> []"
  by (auto simp: validateEnvelope_def is_string_iff split: if_splits)

text \<open>Every envelope is of one of five sorts: malformed, unknown, forwarded, observed with
  or without exception guard.\<close>

lemma route_cases [case_names invalid strict guarded forwarded unknown]:
  obtains "\<not> snd (validateEnvelope env)"
  | t where "snd (validateEnvelope env)" "jprop env ''type'' = JStr t"
      "t \<in> {''layout.update'', ''agent_graph.response'', ''notebook.metadata''}"
  | "snd (validateEnvelope env)" "jprop env ''type'' = JStr ''heartbeat.kernel''"
  | t where "snd (validateEnvelope env)" "jprop env ''type'' = JStr t" "t \<in> set forwarded_types"
  | t where "snd (validateEnvelope env)" "jprop env ''type'' = JStr t" "t \<notin> set RtsV2MessageType"
proof (cases "snd (validateEnvelope env)")
  case True
  then obtain t where t: "jprop env ''type'' = JStr t" using validEnvelope_type by blast
  show ?thesis
  proof (cases "t \<in> set RtsV2MessageType")
    case known: True
    then have "t \<in> {''layout.update'', ''agent_graph.response'', ''notebook.metadata''} \<or>
      t = ''heartbeat.kernel'' \<or> t \<in> set forwarded_types"
      unfolding types_partition observer_types_def by auto
    then show ?thesis
    proof (elim disjE)
      assume "t = ''heartbeat.kernel''"
      with t have "jprop env ''type'' = JStr ''heartbeat.kernel''" by (simp only:)
      with True show ?thesis by (rule that(3))
    qed (rule that(2,4) [OF True t], assumption)+
  next
    case False
    then show ?thesis by (rule that(5) [OF True t])
  qed
qed (rule that)

lemma route_strict:
  assumes "snd (validateEnvelope env)" "jprop env ''type'' = JStr t"
    "t \<in> {''layout.update'', ''agent_graph.response'', ''notebook.metadata''}"
  shows "route r beh env = deliver beh (recipients r env)"
  using assms route_valid(1-3) [OF assms(1,2)] by blast

subsection \<open>Properties\<close>

text \<open>C7. Dispatch is faithful to the contract: whatever the observers do, the calls the
  router makes for an envelope are an initial part of the recipients the dispatch table
  names, in registration order, nobody else is called, and when no recipient throws all of
  them are called and no exception escapes.\<close>

theorem route_refines_recipients:
  "prefix (calls (fst (route r beh env))) (recipients r env) \<and>
   ((\<forall>c \<in> set (recipients r env). beh c = None) \<longrightarrow>
      calls (fst (route r beh env)) = recipients r env \<and> snd (route r beh env) = None)"
proof (cases env rule: route_cases)
  case invalid
  then show ?thesis
    using validateEnvelope_cases [of env] by (auto simp: route_invalid)
next
  case (strict t)
  then show ?thesis
    by (simp add: route_strict prefix_deliver deliver_no_throw)
next
  case guarded
  then show ?thesis using route_valid(4) [OF guarded(1,2)] by simp
next
  case (forwarded t)
  then show ?thesis using route_valid(5) [OF forwarded(1,2)] by simp
next
  case (unknown t)
  then show ?thesis using route_valid(6) [OF unknown(1,2)] by simp
qed

theorem route_refines_recipients_witness:
  "calls (fst (route (registerMapObserver 7 new_router) (\<lambda>_. None)
     (JObj [(''type'', JStr ''layout.update''), (''payload'', JObj [])])))
   = [OnLayoutUpdate 7 (JObj [])]"
  using route_refines_recipients [of "registerMapObserver 7 new_router" "\<lambda>_. None"
      "JObj [(''type'', JStr ''layout.update''), (''payload'', JObj [])]"]
  by (simp add: recipients_def validateEnvelope_def js_get_def str_of_def new_router_def
      registerMapObserver_def)



text \<open>Log and discard (failure modes W4, W5): an envelope that is not an object, lacks a
  type or a payload, or has a type outside \<open>RtsV2MessageType\<close>, calls nobody, raises nothing
  and leaves exactly one error line.\<close>

theorem route_discards_unrecognised:
  assumes "\<not> (\<exists>t \<in> set RtsV2MessageType. jprop env ''type'' = JStr t) \<or> nullish (jprop env ''payload'')"
  shows "\<exists>msg. route r beh env = ([Logged LError msg], None) \<and> recipients r env = []"
proof (cases env rule: route_cases)
  case invalid
  then show ?thesis
    using validateEnvelope_cases [of env] route_invalid [of env r beh] by auto
next
  case (unknown t)
  then show ?thesis using route_valid(6) [OF unknown(1,2)] by auto
qed (use assms in \<open>auto simp: nullish_def validateEnvelope_def types_partition observer_types_def
      split: if_splits\<close>)

theorem route_discards_unrecognised_witness:
  "\<exists>msg. route new_router (\<lambda>_. None) (JObj [(''type'', JStr ''bogus''), (''payload'', JObj [])])
      = ([Logged LError msg], None)"
  using route_discards_unrecognised [of "JObj [(''type'', JStr ''bogus''), (''payload'', JObj [])]"
      new_router "\<lambda>_. None"]
  by (simp add: RtsV2MessageType_def js_get_def)

end
