(* ===== verification/JS_Strings.thy ===== *)
theory JS_Strings
  imports RTS_Prelude
begin

section \<open>String functions of the sources\<close>

text \<open>
  The library functions on strings that the parsers call: \<open>trim\<close>, \<open>split(/\r?\n/)\<close>,
  \<open>join\<close>, \<open>includes\<close>, \<open>startsWith\<close>, \<open>endsWith\<close>, \<open>toLowerCase\<close> and the character
  classes of the regular expressions, exact for Latin-1 strings.
\<close>

abbreviation LF :: char where "LF \<equiv> CHR 0x0A"
abbreviation CR :: char where "CR \<equiv> CHR 0x0D"
abbreviation QUOTE :: char where "QUOTE \<equiv> CHR 0x22"

text \<open>\<open>\s\<close> and the white space of \<open>trim\<close>; \<open>\w\<close>; \<open>[A-Za-z_]\<close>.\<close>

definition is_ws :: "char \<Rightarrow> bool" where
  "is_ws c \<longleftrightarrow> c \<in> {CHR 0x09, CHR 0x0A, CHR 0x0B, CHR 0x0C, CHR 0x0D, CHR 0x20, CHR 0xA0}"

definition in_range :: "char \<Rightarrow> char \<Rightarrow> char \<Rightarrow> bool" where
  "in_range lo hi c \<longleftrightarrow> (of_char lo :: nat) \<le> of_char c \<and> (of_char c :: nat) \<le> of_char hi"

definition is_name_start :: "char \<Rightarrow> bool" where
  "is_name_start c \<longleftrightarrow> in_range CHR ''A'' CHR ''Z'' c \<or> in_range CHR ''a'' CHR ''z'' c \<or> c = CHR ''_''"

definition is_word :: "char \<Rightarrow> bool" where
  "is_word c \<longleftrightarrow> is_name_start c \<or> in_range CHR ''0'' CHR ''9'' c"

definition trimStart :: "string \<Rightarrow> string" where
  "trimStart s = dropWhile is_ws s"

definition trimEnd :: "string \<Rightarrow> string" where
  "trimEnd s = rev (dropWhile is_ws (rev s))"

definition trim :: "string \<Rightarrow> string" where
  "trim s = trimEnd (trimStart s)"

fun split_lines :: "string \<Rightarrow> string list" where
  "split_lines [] = [[]]"
| "split_lines (c # cs) =
     (if c = LF then [] # split_lines cs
      else if c = CR \<and> cs \<noteq> [] \<and> hd cs = LF then [] # split_lines (tl cs)
      else (case split_lines cs of [] \<Rightarrow> [[c]] | l # ls \<Rightarrow> (c # l) # ls))"

fun join :: "string \<Rightarrow> string list \<Rightarrow> string" where
  "join sep [] = []"
| "join sep [x] = x"
| "join sep (x # y # xs) = x @ sep @ join sep (y # xs)"

text \<open>\<open>split(sep)\<close> for a one-character separator.\<close>

fun split_char :: "char \<Rightarrow> string \<Rightarrow> string list" where
  "split_char d [] = [[]]"
| "split_char d (c # cs) =
     (if c = d then [] # split_char d cs
      else (case split_char d cs of [] \<Rightarrow> [[c]] | l # ls \<Rightarrow> (c # l) # ls))"

definition startsWith :: "string \<Rightarrow> string \<Rightarrow> bool" where
  "startsWith s p = prefix p s"

definition endsWith :: "string \<Rightarrow> string \<Rightarrow> bool" where
  "endsWith s p = prefix (rev p) (rev s)"

fun str_includes :: "string \<Rightarrow> string \<Rightarrow> bool" where
  "str_includes [] p = (p = [])"
| "str_includes (c # cs) p = (prefix p (c # cs) \<or> str_includes cs p)"

text \<open>Latin-1 lower case: A--Z and U+00C0--U+00DE but the multiplication sign U+00D7.\<close>

definition lower_char :: "char \<Rightarrow> char" where
  "lower_char c =
     (if in_range CHR ''A'' CHR ''Z'' c \<or> in_range CHR 0xC0 CHR 0xDE c \<and> c \<noteq> CHR 0xD7
      then char_of ((of_char c :: nat) + 32) else c)"

definition toLowerCase :: "string \<Rightarrow> string" where
  "toLowerCase s = map lower_char s"

text \<open>The first match of \<open>/kw([^"]*)"/\<close> and of \<open>/kw(\S+)/\<close> anywhere in a string.\<close>

fun match_quoted :: "string \<Rightarrow> string \<Rightarrow> string option" where
  "match_quoted kw [] = None"
| "match_quoted kw (c # cs) =
     (if prefix kw (c # cs) \<and> QUOTE \<in> set (drop (length kw) (c # cs))
      then Some (takeWhile (\<lambda>d. d \<noteq> QUOTE) (drop (length kw) (c # cs)))
      else match_quoted kw cs)"

fun match_token :: "string \<Rightarrow> string \<Rightarrow> string option" where
  "match_token kw [] = None"
| "match_token kw (c # cs) =
     (let r = takeWhile (\<lambda>d. \<not> is_ws d) (drop (length kw) (c # cs)) in
      if prefix kw (c # cs) \<and> r \<noteq> [] then Some r else match_token kw cs)"

subsection \<open>Lemmas\<close>

lemma split_lines_nonempty [simp]: "split_lines s \<noteq> []"
  by (induction s rule: split_lines.induct) (auto split: list.splits)

lemma split_char_nonempty [simp]: "split_char d s \<noteq> []"
  by (induction s) (auto split: list.splits)

text \<open>A first line without line breaks is cut off by the next line feed.\<close>

lemma split_lines_single: "LF \<notin> set l \<Longrightarrow> split_lines l = [l]"
  by (induction l) (auto simp: neq_Nil_conv)

lemma split_lines_append_LF:
  "LF \<notin> set l \<Longrightarrow> l = [] \<or> last l \<noteq> CR \<Longrightarrow> split_lines (l @ LF # rest) = l # split_lines rest"
proof (induction l)
  case Nil
  then show ?case by simp
next
  case (Cons c l)
  then have c: "c \<noteq> LF" by auto
  from Cons.prems have "l = [] \<Longrightarrow> c \<noteq> CR" and "l = [] \<or> last l \<noteq> CR" by auto
  moreover have "l \<noteq> [] \<Longrightarrow> hd (l @ LF # rest) \<noteq> LF" using Cons.prems by (cases l) auto
  ultimately show ?case using Cons c by (cases l) auto
qed

lemma trim_id: "s = [] \<or> \<not> is_ws (hd s) \<and> \<not> is_ws (last s) \<Longrightarrow> trim s = s"
proof -
  assume s: "s = [] \<or> \<not> is_ws (hd s) \<and> \<not> is_ws (last s)"
  then have "trimStart s = s" by (cases s) (auto simp: trimStart_def)
  moreover from s have "trimEnd s = s"
    by (cases s rule: rev_cases) (auto simp: trimEnd_def)
  ultimately show ?thesis by (simp add: trim_def)
qed

lemma trim_Nil [simp]: "trim [] = []"
  by (simp add: trim_id)

lemma trim_eq_Nil: "trim s = [] \<longleftrightarrow> (\<forall>c \<in> set s. is_ws c)"
proof -
  have "trim s = [] \<longleftrightarrow> (\<forall>c \<in> set (dropWhile is_ws s). is_ws c)"
    by (auto simp: trim_def trimStart_def trimEnd_def dropWhile_eq_Nil_conv)
  also have "\<dots> \<longleftrightarrow> (\<forall>c \<in> set s. is_ws c)"
    by (induction s) auto
  finally show ?thesis .
qed

lemma str_includes_sublist: "str_includes s p \<longleftrightarrow> sublist p s"
  by (induction s) (auto simp: sublist_Cons_right)

lemma match_quoted_here:
  assumes "QUOTE \<notin> set kw" "QUOTE \<notin> set t"
  shows "match_quoted (kw @ [QUOTE]) (kw @ QUOTE # t @ QUOTE # rest) = Some t"
  using assms by (cases kw) (auto simp: takeWhile_append)

lemma match_quoted_first:
  assumes "QUOTE \<notin> set kw" "QUOTE \<notin> set t" "QUOTE \<notin> set pre"
  shows "match_quoted (kw @ [QUOTE]) (pre @ kw @ QUOTE # t @ QUOTE # rest) = Some t"
  using assms(3)
proof (induction pre)
  case Nil
  then show ?case using match_quoted_here [OF assms(1,2)] by simp
next
  case (Cons c pre)
  have "\<not> prefix (kw @ [QUOTE]) (c # pre @ kw @ QUOTE # t @ QUOTE # rest)"
  proof
    assume "prefix (kw @ [QUOTE]) (c # pre @ kw @ QUOTE # t @ QUOTE # rest)"
    then have "QUOTE = (c # pre @ kw @ QUOTE # t @ QUOTE # rest) ! length kw"
      by (auto simp: prefix_def nth_append)
    moreover have "(c # pre @ kw @ QUOTE # t @ QUOTE # rest) ! length kw \<in> set (c # pre @ kw)"
      by (auto simp: nth_Cons nth_append split: nat.splits)
    ultimately show False using Cons.prems assms(1) by auto
  qed
  with Cons show ?case by simp
qed

lemma match_token_None: "\<not> sublist kw s \<Longrightarrow> match_token kw s = None"
  by (induction s) (auto simp: Let_def sublist_Cons_right)

lemma match_token_first:
  assumes "\<not> sublist kw pre" "c \<notin> set kw" "kw \<noteq> []" "tok \<noteq> []" "\<forall>d \<in> set tok. \<not> is_ws d"
  shows "match_token kw (pre @ c # kw @ tok) = Some tok"
  using assms(1)
proof (induction pre)
  case Nil
  obtain k ks where kw: "kw = k # ks" using assms(3) by (cases kw) auto
  have "takeWhile (\<lambda>d. \<not> is_ws d) tok = tok" using assms(5) by (simp add: takeWhile_eq_all_conv)
  moreover have "\<not> prefix kw (c # kw @ tok)" using assms(2) kw by auto
  ultimately show ?case using assms(4) by (simp add: Let_def) (cases tok; simp add: kw Let_def)
next
  case (Cons d pre)
  have "\<not> prefix kw ((d # pre) @ c # kw @ tok)"
  proof
    assume "prefix kw ((d # pre) @ c # kw @ tok)"
    then have "prefix kw (d # pre) \<or> (\<exists>us. kw = (d # pre) @ us \<and> prefix us (c # kw @ tok))"
      by (simp only: prefix_append)
    moreover have "us = []" if "kw = (d # pre) @ us" "prefix us (c # kw @ tok)" for us
      using that assms(2) by (cases us) auto
    ultimately have "prefix kw (d # pre)" by auto
    then show False using Cons.prems by (simp add: prefix_imp_sublist)
  qed
  then show ?case using Cons by (simp add: Let_def sublist_Cons_right)
qed

end
