(* ===== verification/Cell_Directive.thy ===== *)
theory Cell_Directive
  imports JS_Strings
begin

section \<open>The cell-directive parser (\<open>parseCellDirective\<close> in \<open>extension/src/notebook/controller.ts\<close>)\<close>

text \<open>
  The parser of the two-tier magic vocabulary and its legacy aliases. Each regular
  expression of the source is a scanner on characters: the expressions are deterministic
  (no alternative of a repetition can succeed where the greedy one fails), so the greedy
  scan decides the match. The result type is \<open>CellDirective | null\<close>.
\<close>

subsection \<open>Directives and vocabulary\<close>

datatype cell_directive =
    Spawn (spawn_agent: string) (spawn_task: string) (spawn_endpoint: "string option")
  | Continue (continue_agent: string) (continue_text: string)
  | Cell_Magic (cm_magic: string) (cm_args: string) (cm_kind: string)
  | Line_Magic (lm_magic: string) (lm_args: string) (lm_set: "string list option") (lm_unset: "string list option")

text \<open>\<open>FLAG_LINE_MAGICS\<close>: the optional flag a line magic sets, and the one it unsets.\<close>

definition FLAG_LINE_MAGICS :: "(string \<times> string option \<times> string option) list" where
  "FLAG_LINE_MAGICS =
     [(''pin'', Some ''pinned'', None), (''unpin'', None, Some ''pinned''),
      (''exclude'', Some ''excluded'', None), (''include'', None, Some ''excluded'')]"

definition LINE_MAGIC_NAMES :: "string list" where
  "LINE_MAGIC_NAMES = map fst FLAG_LINE_MAGICS @
     [''mark'', ''affinity'', ''handoff'', ''status'', ''revert'', ''stop'', ''branch'']"

definition CELL_MAGIC_NAMES :: "string list" where
  "CELL_MAGIC_NAMES =
     [''agent'', ''spawn'', ''markdown'', ''scratch'', ''checkpoint'', ''endpoint'', ''compare'',
      ''section'', ''tool'', ''artifact'', ''native'']"

subsection \<open>The regular expressions\<close>

text \<open>\<open>/^@@([A-Za-z_][\w]*)\s*(.*)$/\<close>; the dot matches no line terminator.\<close>

definition cell_magic_match :: "string \<Rightarrow> (string \<times> string) option" where
  "cell_magic_match hd_line =
     (if prefix ''@@'' hd_line \<and> drop 2 hd_line \<noteq> [] \<and> is_name_start (hd (drop 2 hd_line))
      then (let r = drop 2 hd_line; args = dropWhile is_ws (dropWhile is_word r) in
        if CR \<in> set args \<or> LF \<in> set args then None else Some (takeWhile is_word r, args))
      else None)"

text \<open>\<open>/^@([A-Za-z_][\w]*)(?:\s+([\s\S]*))?$/\<close>.\<close>

definition line_magic_match :: "string \<Rightarrow> (string \<times> string) option" where
  "line_magic_match hd_line =
     (if prefix ''@'' hd_line \<and> drop 1 hd_line \<noteq> [] \<and> is_name_start (hd (drop 1 hd_line))
      then (let r = drop 1 hd_line; rest = dropWhile is_word r in
        if rest = [] \<or> is_ws (hd rest) then Some (takeWhile is_word r, dropWhile is_ws rest) else None)
      else None)"

text \<open>\<open>/^(\S+)/\<close>.\<close>

definition first_token :: "string \<Rightarrow> string option" where
  "first_token s = (let t = takeWhile (\<lambda>c. \<not> is_ws c) s in if t = [] then None else Some t)"

text \<open>\<open>/^\/spawn\s+(\S+)\s+task:"([^"]*)"\s*$/\<close>.\<close>

definition legacy_spawn_match :: "string \<Rightarrow> (string \<times> string) option" where
  "legacy_spawn_match s =
     (if prefix ''/spawn'' s \<and> drop 6 s \<noteq> [] \<and> is_ws (hd (drop 6 s))
      then (let a = dropWhile is_ws (drop 6 s);
                agent = takeWhile (\<lambda>c. \<not> is_ws c) a;
                b = dropWhile (\<lambda>c. \<not> is_ws c) a;
                t = dropWhile is_ws b;
                q = drop 6 t in
        if agent \<noteq> [] \<and> b \<noteq> [] \<and> prefix (''task:'' @ [QUOTE]) t \<and> QUOTE \<in> set q \<and>
           list_all is_ws (tl (dropWhile (\<lambda>c. c \<noteq> QUOTE) q))
        then Some (agent, takeWhile (\<lambda>c. c \<noteq> QUOTE) q) else None)
      else None)"

text \<open>\<open>/^@([^\s:]+)\s*:\s*([\s\S]+)$/\<close>, with the trim of the second group: the whole
  text after the colon, trimmed.\<close>

definition legacy_continue_match :: "string \<Rightarrow> (string \<times> string) option" where
  "legacy_continue_match s =
     (if prefix ''@'' s
      then (let r = drop 1 s;
                agent = takeWhile (\<lambda>c. \<not> is_ws c \<and> c \<noteq> CHR '':'') r;
                b = dropWhile is_ws (dropWhile (\<lambda>c. \<not> is_ws c \<and> c \<noteq> CHR '':'') r) in
        if agent \<noteq> [] \<and> prefix '':'' b \<and> tl b \<noteq> [] then Some (agent, trim (tl b)) else None)
      else None)"

subsection \<open>The parser\<close>

definition spawn_directive :: "string \<Rightarrow> cell_directive option" where
  "spawn_directive args =
     (case (first_token args, match_quoted (''task:'' @ [QUOTE]) args) of
        (Some a, Some t) \<Rightarrow> Some (Spawn a t (match_token ''endpoint:'' args))
      | _ \<Rightarrow> None)"

definition agent_directive :: "string \<Rightarrow> string list \<Rightarrow> cell_directive option" where
  "agent_directive args rest =
     (case first_token args of
        Some a \<Rightarrow> (let body = trim (join [LF] rest) in if body \<noteq> [] then Some (Continue a body) else None)
      | None \<Rightarrow> None)"

definition line_magic_directive :: "string \<Rightarrow> string \<Rightarrow> cell_directive" where
  "line_magic_directive magic args =
     (case map_of FLAG_LINE_MAGICS magic of
        Some (fset, funset) \<Rightarrow>
          Line_Magic magic (trim args) (map_option (\<lambda>f. [f]) fset) (map_option (\<lambda>f. [f]) funset)
      | None \<Rightarrow> Line_Magic magic (trim args) None None)"

definition legacy_directive :: "string \<Rightarrow> cell_directive option" where
  "legacy_directive head =
     (let trimmed = trim head in
      case legacy_spawn_match trimmed of
        Some (a, t) \<Rightarrow> Some (Spawn a t None)
      | None \<Rightarrow>
          (case legacy_continue_match trimmed of
             Some (a, body) \<Rightarrow> if a = [] \<or> body = [] then None else Some (Continue a body)
           | None \<Rightarrow> None))"

definition line_or_legacy :: "string \<Rightarrow> cell_directive option" where
  "line_or_legacy head =
     (case line_magic_match head of
        Some (magic, args) \<Rightarrow>
          if magic \<in> set LINE_MAGIC_NAMES \<and> \<not> str_includes head '':''
          then Some (line_magic_directive magic args) else legacy_directive head
      | None \<Rightarrow> legacy_directive head)"

definition parse_head :: "string \<Rightarrow> string list \<Rightarrow> cell_directive option" where
  "parse_head head rest =
     (if trim head = ''@@break'' then None
      else case cell_magic_match head of
        Some (magic, args) \<Rightarrow>
          if magic \<in> set CELL_MAGIC_NAMES
          then (if magic = ''spawn'' then spawn_directive (trim args)
                else if magic = ''agent'' then agent_directive (trim args) rest
                else Some (Cell_Magic magic (trim args) magic))
          else line_or_legacy head
      | None \<Rightarrow> line_or_legacy head)"

definition parseCellDirective :: "string \<Rightarrow> cell_directive option" where
  "parseCellDirective text =
     (if text = [] then None
      else case dropWhile (\<lambda>l. trim l = []) (split_lines text) of
        [] \<Rightarrow> None
      | head # rest \<Rightarrow> parse_head head rest)"

subsection \<open>Lemmas\<close>

lemmas char_class_defs = is_ws_def is_word_def is_name_start_def in_range_def

lemma sublist_append_sep:
  assumes "c \<notin> set kw"
  shows "sublist kw (xs @ c # ys) \<longleftrightarrow> sublist kw xs \<or> sublist kw ys"
proof
  assume "sublist kw (xs @ c # ys)"
  then consider "sublist kw xs" | "sublist kw (c # ys)"
    | k1 k2 where "kw = k1 @ k2" "suffix k1 xs" "prefix k2 (c # ys)"
    unfolding sublist_append by blast
  then show "sublist kw xs \<or> sublist kw ys"
  proof cases
    case 2
    with assms show ?thesis by (cases kw) (auto simp: sublist_Cons_right)
  next
    case 3
    with assms have "k2 = []" by (cases k2) auto
    with 3 show ?thesis by auto
  qed auto
next
  assume "sublist kw xs \<or> sublist kw ys"
  then show "sublist kw (xs @ c # ys)"
    by (auto simp: sublist_append sublist_Cons_right)
qed

text \<open>Only \<open>@@agent\<close> looks beyond the head line.\<close>

lemma parse_head_rest:
  "(\<And>args. cell_magic_match head \<noteq> Some (''agent'', args)) \<Longrightarrow> parse_head head rest = parse_head head rest'"
  by (auto simp: parse_head_def split: option.splits)

lemma parse_single_line:
  "LF \<notin> set l \<Longrightarrow> trim l \<noteq> [] \<Longrightarrow> parseCellDirective l = parse_head l []"
  by (auto simp: parseCellDirective_def split_lines_single)

lemma parse_first_line:
  assumes "LF \<notin> set l" "trim l \<noteq> []" "last l \<noteq> CR"
  shows "parseCellDirective (l @ LF # rest) = parse_head l (split_lines rest)"
  using assms by (auto simp: parseCellDirective_def split_lines_append_LF)

lemma parse_skip_blank:
  assumes "LF \<notin> set b" "trim b = []" "b = [] \<or> last b \<noteq> CR" "rest \<noteq> []"
  shows "parseCellDirective (b @ LF # rest) = parseCellDirective rest"
  using assms by (auto simp: parseCellDirective_def split_lines_append_LF)

text \<open>Agent ids and tasks as an operator types them.\<close>

definition agent_id_ok :: "string \<Rightarrow> bool" where
  "agent_id_ok a \<longleftrightarrow> a \<noteq> [] \<and> (\<forall>c \<in> set a. \<not> is_ws c \<and> c \<noteq> QUOTE) \<and> \<not> sublist ''endpoint:'' a"

definition task_ok :: "string \<Rightarrow> bool" where
  "task_ok t \<longleftrightarrow> QUOTE \<notin> set t \<and> CR \<notin> set t \<and> LF \<notin> set t \<and> \<not> sublist ''endpoint:'' t"

definition spawn_args :: "string \<Rightarrow> string \<Rightarrow> string" where
  "spawn_args a t = a @ '' '' @ ''task:'' @ QUOTE # t @ [QUOTE]"

lemma agent_id_okD:
  assumes "agent_id_ok a"
  shows "a \<noteq> []" "QUOTE \<notin> set a" "LF \<notin> set a" "CR \<notin> set a" "\<not> is_ws (hd a)"
    "takeWhile (\<lambda>c. \<not> is_ws c) (a @ CHR '' '' # r) = a"
    "dropWhile (\<lambda>c. \<not> is_ws c) (a @ CHR '' '' # r) = CHR '' '' # r"
    "dropWhile is_ws (a @ r) = a @ r"
  using assms
  by (auto simp: agent_id_ok_def is_ws_def takeWhile_append dropWhile_append neq_Nil_conv)

lemma spawn_args_no_endpoint:
  "agent_id_ok a \<Longrightarrow> task_ok t \<Longrightarrow> \<not> sublist ''endpoint:'' (spawn_args a t)"
proof -
  assume ok: "agent_id_ok a" "task_ok t"
  have "\<not> sublist ''endpoint:'' (t @ [QUOTE])"
    using ok sublist_append_sep [of QUOTE "''endpoint:''" t "[]"] by (simp add: task_ok_def)
  then have "\<not> sublist ''endpoint:'' (''task:'' @ QUOTE # t @ [QUOTE])"
    using sublist_append_sep [of QUOTE "''endpoint:''" "''task:''" "t @ [QUOTE]"]
    by (simp add: sublist_Cons_right)
  then show ?thesis
    using ok sublist_append_sep [of "CHR '' ''" "''endpoint:''" a "''task:'' @ QUOTE # t @ [QUOTE]"]
    by (simp add: spawn_args_def agent_id_ok_def)
qed

lemma trim_spawn_args: "agent_id_ok a \<Longrightarrow> trim (spawn_args a t) = spawn_args a t"
  by (rule trim_id) (auto simp: spawn_args_def agent_id_ok_def is_ws_def hd_append)

lemma spawn_directive_args:
  assumes "agent_id_ok a" "task_ok t"
  shows "spawn_directive (spawn_args a t) = Some (Spawn a t None)"
proof -
  have "first_token (spawn_args a t) = Some a"
    using assms(1) agent_id_okD(1,6) [OF assms(1)] by (simp add: first_token_def spawn_args_def)
  moreover have "match_quoted (''task:'' @ [QUOTE]) (spawn_args a t) = Some t"
    using match_quoted_first [of "''task:''" t "a @ '' ''" "[]"] assms agent_id_okD(2) [OF assms(1)]
    by (simp add: spawn_args_def task_ok_def)
  moreover have "match_token ''endpoint:'' (spawn_args a t) = None"
    by (rule match_token_None) (rule spawn_args_no_endpoint [OF assms])
  ultimately show ?thesis by (simp add: spawn_directive_def)
qed

lemma legacy_spawn_args:
  assumes "agent_id_ok a" "task_ok t"
  shows "legacy_spawn_match (''/spawn '' @ spawn_args a t) = Some (a, t)"
  using assms agent_id_okD [OF assms(1)]
  by (simp add: legacy_spawn_match_def spawn_args_def task_ok_def is_ws_def takeWhile_append dropWhile_append)


lemma cell_magic_match_word:
  assumes "w \<noteq> []" "list_all is_word w" "is_name_start (hd w)" "\<not> is_ws (hd args)"
    "CR \<notin> set args" "LF \<notin> set args" "args \<noteq> []"
  shows "cell_magic_match (''@@'' @ w @ CHR '' '' # args) = Some (w, args)"
proof -
  have sp: "\<not> is_word (CHR '' '')" "is_ws (CHR '' '')" by (simp_all add: char_class_defs)
  have "takeWhile is_word (w @ CHR '' '' # args) = w" "dropWhile is_word (w @ CHR '' '' # args) = CHR '' '' # args"
    using assms(2) sp by (simp_all add: list_all_iff takeWhile_append dropWhile_append)
  moreover have "dropWhile is_ws args = args" using assms(4,7) by (cases args) auto
  ultimately show ?thesis
    using assms sp by (cases w) (auto simp: cell_magic_match_def)
qed

subsection \<open>Properties\<close>

text \<open>A single-line canonical cell with arguments that begin and end with visible characters.\<close>

lemma parse_spawn_line:
  assumes "args \<noteq> []" "\<not> is_ws (hd args)" "\<not> is_ws (last args)" "LF \<notin> set args" "CR \<notin> set args"
  shows "parseCellDirective (''@@spawn '' @ args) = spawn_directive args"
    "parseCellDirective (LF # ''@@spawn '' @ args @ LF # more) = spawn_directive args"
proof -
  let ?c = "''@@spawn '' @ args"
  have tc: "trim ?c = ?c" "trim args = args" using assms by (auto intro!: trim_id simp: is_ws_def)
  have "cell_magic_match ?c = Some (''spawn'', args)"
    using cell_magic_match_word [of "''spawn''" args] assms by (simp add: char_class_defs)
  then have c: "parse_head ?c rest = spawn_directive args" for rest
    using tc by (simp add: parse_head_def CELL_MAGIC_NAMES_def)
  show "parseCellDirective ?c = spawn_directive args"
    using parse_single_line [of ?c] assms(4) tc c by simp
  have "last args \<noteq> CR" using assms(5) last_in_set [OF assms(1)] by metis
  then have "last ?c \<noteq> CR" using assms(1) by simp
  then have "parseCellDirective (?c @ LF # more) = spawn_directive args"
    using parse_first_line [of ?c more] assms(4) tc c by simp
  moreover have "parseCellDirective (LF # ?c @ LF # more) = parseCellDirective (?c @ LF # more)"
    using parse_skip_blank [of "[]" "?c @ LF # more"] by simp
  ultimately show "parseCellDirective (LF # ''@@spawn '' @ args @ LF # more) = spawn_directive args" by simp
qed

definition endpoint_ok :: "string \<Rightarrow> bool" where
  "endpoint_ok ep \<longleftrightarrow> ep \<noteq> [] \<and> (\<forall>c \<in> set ep. \<not> is_ws c)"

lemma endpoint_okD:
  assumes "endpoint_ok ep"
  shows "ep \<noteq> []" "\<not> is_ws (last ep)" "LF \<notin> set ep" "CR \<notin> set ep"
  using assms by (auto simp: endpoint_ok_def is_ws_def)

lemma spawn_directive_endpoint:
  assumes "agent_id_ok a" "task_ok t" "endpoint_ok ep"
  shows "spawn_directive (spawn_args a t @ '' endpoint:'' @ ep) = Some (Spawn a t (Some ep))"
proof -
  let ?args = "spawn_args a t @ '' endpoint:'' @ ep"
  have "first_token ?args = Some a"
    using assms(1) agent_id_okD(1,6) [OF assms(1)] by (simp add: first_token_def spawn_args_def)
  moreover have "match_quoted (''task:'' @ [QUOTE]) ?args = Some t"
    using match_quoted_first [of "''task:''" t "a @ '' ''" "'' endpoint:'' @ ep"] assms(2) agent_id_okD(2) [OF assms(1)]
    by (simp add: spawn_args_def task_ok_def)
  moreover have "match_token ''endpoint:'' ?args = Some ep"
    using match_token_first [OF spawn_args_no_endpoint [OF assms(1,2)], of "CHR '' ''" ep] assms(3)
    by (simp add: endpoint_ok_def)
  ultimately show ?thesis by (simp add: spawn_directive_def)
qed

lemma spawn_args_chars:
  assumes "agent_id_ok a" "task_ok t"
  shows "LF \<notin> set (spawn_args a t)" "CR \<notin> set (spawn_args a t)" "last (spawn_args a t) = QUOTE" "\<not> is_ws QUOTE"
    "spawn_args a t \<noteq> []" "hd (spawn_args a t @ r) = hd a" "\<not> is_ws (hd a)"
  using agent_id_okD [OF assms(1)] assms(2) by (auto simp: spawn_args_def task_ok_def is_ws_def)



text \<open>Text below the first non-blank line is never a directive: unless the head line is
  an \<open>@@agent\<close> magic, whose body the following lines are, the result of parsing a cell is
  the result of parsing its head line alone.\<close>

theorem directive_only_in_head_line:
  assumes "LF \<notin> set l" "trim l \<noteq> []" "last l \<noteq> CR"
    and "\<forall>args. cell_magic_match l \<noteq> Some (''agent'', args)"
  shows "parseCellDirective (l @ LF # rest) = parseCellDirective l"
  using assms parse_first_line [OF assms(1-3)] parse_single_line [OF assms(1,2)]
    parse_head_rest [of l "split_lines rest" "[]"] by simp

theorem directive_only_in_head_line_witness:
  "parseCellDirective (''notes'' @ LF # ''@@spawn x task:'' @ [QUOTE, QUOTE]) = parseCellDirective ''notes''"
  by (rule directive_only_in_head_line)
     (simp_all add: trim_eq_Nil is_ws_def cell_magic_match_def)

text \<open>Continuations: \<open>@@agent <id>\<close> sends the trimmed lines below it, joined by line
  feeds, to that agent, and is no directive when they are blank; the legacy form
  \<open>@<id>: <message>\<close> sends only the message on its own line, whatever lines follow.\<close>

theorem continuation_forms_parse:
  assumes "agent_id_ok a" "CHR '':'' \<notin> set a" "hd a \<noteq> CHR ''@''"
    and "msg \<noteq> []" "\<not> is_ws (hd msg)" "\<not> is_ws (last msg)" "LF \<notin> set msg" "CR \<notin> set msg"
  shows "parseCellDirective (''@@agent '' @ a @ LF # body) =
      (let b = trim (join [LF] (split_lines body)) in if b = [] then None else Some (Continue a b)) \<and>
    parseCellDirective (''@'' @ a @ '': '' @ msg @ LF # body) = Some (Continue a msg)"
proof -
  note a = agent_id_okD [OF assms(1)]
  let ?c = "''@@agent '' @ a" and ?l = "''@'' @ a @ '': '' @ msg"
  have la: "\<not> is_ws (last a)" using assms(1) by (auto simp: agent_id_ok_def)
  have tc: "trim ?c = ?c" and ta: "trim a = a" and tl: "trim ?l = ?l" and tm: "trim (CHR '' '' # msg) = msg"
  proof -
    show "trim ?c = ?c" using a la by (intro trim_id) (auto simp: is_ws_def)
    show "trim a = a" using a la by (intro trim_id) auto
    show "trim ?l = ?l" using assms by (intro trim_id) (auto simp: is_ws_def)
    have "trim msg = msg" using assms by (intro trim_id) auto
    then show "trim (CHR '' '' # msg) = msg" by (simp add: trim_def trimStart_def is_ws_def)
  qed
  have "takeWhile (\<lambda>c. \<not> is_ws c) a = a"
    using assms(1) by (simp add: agent_id_ok_def takeWhile_eq_all_conv)
  then have ft: "first_token a = Some a" using a(1) unfolding first_token_def Let_def by (simp only: if_False)
  have cm: "cell_magic_match ?c = Some (''agent'', a)"
    using cell_magic_match_word [of "''agent''" a] a by (simp add: char_class_defs)
  have c: "parse_head ?c rest = agent_directive a rest" for rest
    using cm tc ta by (simp add: parse_head_def CELL_MAGIC_NAMES_def)
  have one: "parseCellDirective (?c @ LF # body) = agent_directive a (split_lines body)"
    using parse_first_line [of ?c body] a tc c la by (auto simp: is_ws_def)
  have cont: "legacy_continue_match ?l = Some (a, msg)"
  proof -
    have "takeWhile (\<lambda>c. \<not> is_ws c \<and> c \<noteq> CHR '':'') (a @ CHR '':'' # CHR '' '' # msg) = a"
      "dropWhile (\<lambda>c. \<not> is_ws c \<and> c \<noteq> CHR '':'') (a @ CHR '':'' # CHR '' '' # msg) = CHR '':'' # CHR '' '' # msg"
      using assms(1,2) by (auto simp: agent_id_ok_def takeWhile_append dropWhile_append)
    then show ?thesis using a(1) tm by (simp add: legacy_continue_match_def is_ws_def)
  qed
  have "sublist '':'' ((''@'' @ a) @ '':'' @ ('' '' @ msg))" by (rule sublist_appendI)
  then have inc: "str_includes ?l '':''" by (simp add: str_includes_sublist)
  have ne: "\<not> prefix ''@@'' ?l" using assms(3) a(1) by (cases a) auto
  then have "trim ?l \<noteq> ''@@break''" using tl by auto
  with ne cont inc tl assms(4) a(1) have l: "parse_head ?l rest = Some (Continue a msg)" for rest
    by (auto simp: parse_head_def cell_magic_match_def line_or_legacy_def legacy_directive_def
        legacy_spawn_match_def split: option.splits)
  have "parseCellDirective (?l @ LF # body) = Some (Continue a msg)"
    using parse_first_line [of ?l body] a assms tl l by (auto simp: is_ws_def)
  with one ft show ?thesis by (auto simp: agent_directive_def Let_def)
qed

theorem continuation_forms_parse_witness:
  "parseCellDirective (''@@agent alpha'' @ LF # ''go on'') =
     (let b = trim (join [LF] (split_lines ''go on'')) in if b = [] then None else Some (Continue ''alpha'' b)) \<and>
   parseCellDirective (''@alpha: go on'' @ LF # ''second line'') = Some (Continue ''alpha'' ''go on'')"
  using continuation_forms_parse [of "''alpha''" "''go on''" "''go on''"]
    continuation_forms_parse [of "''alpha''" "''go on''" "''second line''"]
  by (simp add: agent_id_ok_def is_ws_def sublist_Cons_right)

end
