(* ===== verification/JSON_Text.thy ===== *)
theory JSON_Text
  imports JS_Strings Otel_Attrs
begin

section \<open>JSON text\<close>

text \<open>
  \<open>JSON.parse\<close> and \<open>JSON.stringify\<close>, which the kernel client and the serializer call on
  every frame and file. The parser follows the JSON grammar with a fuel argument that bounds
  the nesting of its calls (\<open>JSON_parse\<close> supplies the length of the text, which is enough);
  the printer covers the compact form and the two-blank indentation the serializer asks for.

  Restrictions: a \<open>\u\<close> escape of a code unit above 255 has no counterpart in the model's
  strings and is refused; numbers are exact, the rounding of a decimal to the nearest double
  is not modelled, and a number with a fractional part is printed by its exact decimal
  expansion.
\<close>

subsection \<open>Scanner\<close>

abbreviation BSL :: char where "BSL \<equiv> CHR 0x5C"

definition json_ws :: "char \<Rightarrow> bool" where
  "json_ws c \<longleftrightarrow> c \<in> {CHR 0x20, CHR 0x09, CHR 0x0A, CHR 0x0D}"

abbreviation skip :: "string \<Rightarrow> string" where
  "skip s \<equiv> dropWhile json_ws s"

definition hex_val :: "char \<Rightarrow> nat option" where
  "hex_val c =
     (if in_range CHR ''0'' CHR ''9'' c then Some (of_char c - 48)
      else if in_range CHR ''a'' CHR ''f'' c then Some (of_char c - 87)
      else if in_range CHR ''A'' CHR ''F'' c then Some (of_char c - 55)
      else None)"

definition hex4 :: "char \<Rightarrow> char \<Rightarrow> char \<Rightarrow> char \<Rightarrow> nat option" where
  "hex4 a b c d =
     (case (hex_val a, hex_val b, hex_val c, hex_val d) of
        (Some p, Some q, Some r, Some s) \<Rightarrow> Some (4096 * p + 256 * q + 16 * r + s)
      | _ \<Rightarrow> None)"

definition simple_escapes :: "(char \<times> char) list" where
  "simple_escapes =
     [(QUOTE, QUOTE), (BSL, BSL), (CHR ''/'', CHR ''/''), (CHR ''b'', CHR 0x08), (CHR ''f'', CHR 0x0C),
      (CHR ''n'', LF), (CHR ''r'', CR), (CHR ''t'', CHR 0x09)]"

definition cons_fst :: "'a \<Rightarrow> ('a list \<times> 'b) option \<Rightarrow> ('a list \<times> 'b) option" where
  "cons_fst x m = map_option (\<lambda>(xs, r). (x # xs, r)) m"

text \<open>The rest of a string literal after its opening quote, and of an escape after the
  backslash.\<close>

fun parse_str :: "string \<Rightarrow> (string \<times> string) option"
and parse_esc :: "string \<Rightarrow> (string \<times> string) option" where
  "parse_str [] = None"
| "parse_str (c # r) =
     (if c = QUOTE then Some ([], r)
      else if c = BSL then parse_esc r
      else if (of_char c :: nat) < 32 then None
      else cons_fst c (parse_str r))"
| "parse_esc [] = None"
| "parse_esc (e # r) =
     (if e = CHR ''u''
      then (case r of
          a # b # c # d # r' \<Rightarrow>
            (case hex4 a b c d of
               Some n \<Rightarrow> if n < 256 then cons_fst (char_of n) (parse_str r') else None
             | None \<Rightarrow> None)
        | _ \<Rightarrow> None)
      else (case map_of simple_escapes e of
          Some ch \<Rightarrow> cons_fst ch (parse_str r)
        | None \<Rightarrow> None))"

text \<open>Numbers: optional sign, integer part without leading zeros, optional fraction and
  exponent.\<close>

definition parse_digits :: "string \<Rightarrow> (string \<times> string) option" where
  "parse_digits s =
     (let ds = takeWhile is_digit s in if ds = [] then None else Some (ds, dropWhile is_digit s))"

definition parse_frac :: "string \<Rightarrow> (rat \<times> string) option" where
  "parse_frac s =
     (if prefix ''.'' s
      then (case parse_digits (tl s) of
          Some (ds, r) \<Rightarrow> Some (of_nat (nat_of_str ds) / 10 ^ length ds, r)
        | None \<Rightarrow> None)
      else Some (0, s))"

definition parse_exp :: "string \<Rightarrow> (rat \<times> string) option" where
  "parse_exp s =
     (if prefix ''e'' s \<or> prefix ''E'' s
      then (if prefix ''-'' (tl s)
            then (case parse_digits (tl (tl s)) of
                Some (ds, r) \<Rightarrow> Some (1 / 10 ^ nat_of_str ds, r) | None \<Rightarrow> None)
            else (case parse_digits (if prefix ''+'' (tl s) then tl (tl s) else tl s) of
                Some (ds, r) \<Rightarrow> Some (10 ^ nat_of_str ds, r) | None \<Rightarrow> None))
      else Some (1, s))"

definition parse_unsigned :: "string \<Rightarrow> (rat \<times> string) option" where
  "parse_unsigned s =
     (case parse_digits s of
        None \<Rightarrow> None
      | Some (ds, r) \<Rightarrow>
          if \<not> canonical_digits ds then None
          else (case parse_frac r of
              None \<Rightarrow> None
            | Some (fr, r1) \<Rightarrow>
                (case parse_exp r1 of
                   None \<Rightarrow> None
                 | Some (e, r2) \<Rightarrow> Some ((of_nat (nat_of_str ds) + fr) * e, r2))))"

definition parse_num :: "string \<Rightarrow> (jsv \<times> string) option" where
  "parse_num s =
     (if prefix ''-'' s
      then map_option (\<lambda>(x, r). (JNum (Fin (- x)), r)) (parse_unsigned (tl s))
      else map_option (\<lambda>(x, r). (JNum (Fin x), r)) (parse_unsigned s))"

subsection \<open>Parser\<close>

definition parse_atom :: "string \<Rightarrow> (jsv \<times> string) option" where
  "parse_atom s =
     (if prefix [QUOTE] s
      then (case parse_str (tl s) of Some (t, r) \<Rightarrow> Some (JStr t, r) | None \<Rightarrow> None)
      else if prefix ''true'' s then Some (JBool True, drop 4 s)
      else if prefix ''false'' s then Some (JBool False, drop 5 s)
      else if prefix ''null'' s then Some (JNull, drop 4 s)
      else parse_num s)"

fun parse_value :: "nat \<Rightarrow> string \<Rightarrow> (jsv \<times> string) option"
and parse_elems :: "nat \<Rightarrow> string \<Rightarrow> (jsv list \<times> string) option"
and parse_members :: "nat \<Rightarrow> string \<Rightarrow> (jsobj \<times> string) option" where
  "parse_value 0 s = None"
| "parse_value (Suc n) s =
     (if prefix ''{'' s
      then (if prefix ''}'' (skip (tl s)) then Some (JObj [], tl (skip (tl s)))
            else (case parse_members n (skip (tl s)) of
                Some (kvs, r) \<Rightarrow> Some (JObj (js_copy kvs), r) | None \<Rightarrow> None))
      else if prefix ''['' s
      then (if prefix '']'' (skip (tl s)) then Some (JArr [], tl (skip (tl s)))
            else (case parse_elems n (skip (tl s)) of
                Some (xs, r) \<Rightarrow> Some (JArr xs, r) | None \<Rightarrow> None))
      else parse_atom s)"
| "parse_elems 0 s = None"
| "parse_elems (Suc n) s =
     (case parse_value n s of
        None \<Rightarrow> None
      | Some (v, r) \<Rightarrow>
          if prefix '','' (skip r) then cons_fst v (parse_elems n (skip (tl (skip r))))
          else if prefix '']'' (skip r) then Some ([v], tl (skip r))
          else None)"
| "parse_members 0 s = None"
| "parse_members (Suc n) s =
     (if prefix [QUOTE] s
      then (case parse_str (tl s) of
          None \<Rightarrow> None
        | Some (k, r) \<Rightarrow>
            if prefix '':'' (skip r)
            then (case parse_value n (skip (tl (skip r))) of
                None \<Rightarrow> None
              | Some (v, r2) \<Rightarrow>
                  if prefix '','' (skip r2) then cons_fst (k, v) (parse_members n (skip (tl (skip r2))))
                  else if prefix ''}'' (skip r2) then Some ([(k, v)], tl (skip r2))
                  else None)
            else None)
      else None)"

definition JSON_parse :: "string \<Rightarrow> jsv option" where
  "JSON_parse s =
     (case parse_value (Suc (length s)) (skip s) of
        Some (v, r) \<Rightarrow> if skip r = [] then Some v else None
      | None \<Rightarrow> None)"

subsection \<open>Printer\<close>

definition hex_digit :: "nat \<Rightarrow> char" where
  "hex_digit n = (if n < 10 then char_of (48 + n) else char_of (87 + n))"

definition quote_char :: "char \<Rightarrow> string" where
  "quote_char c =
     (if c = QUOTE then [BSL, QUOTE] else if c = BSL then [BSL, BSL]
      else if c = CHR 0x08 then [BSL, CHR ''b''] else if c = CHR 0x0C then [BSL, CHR ''f'']
      else if c = LF then [BSL, CHR ''n''] else if c = CR then [BSL, CHR ''r'']
      else if c = CHR 0x09 then [BSL, CHR ''t'']
      else if (of_char c :: nat) < 32
      then [BSL, CHR ''u'', CHR ''0'', CHR ''0'', hex_digit (of_char c div 16), hex_digit (of_char c mod 16)]
      else [c])"

definition quote :: "string \<Rightarrow> string" where
  "quote s = QUOTE # concat (map quote_char s) @ [QUOTE]"

fun frac_digits :: "nat \<Rightarrow> rat \<Rightarrow> string" where
  "frac_digits 0 f = []"
| "frac_digits (Suc n) f =
     (if f = 0 then [] else digit_char (nat \<lfloor>10 * f\<rfloor>) # frac_digits n (10 * f - of_int \<lfloor>10 * f\<rfloor>))"

definition show_num :: "jsnum \<Rightarrow> string" where
  "show_num x =
     (case x of
        Fin r \<Rightarrow>
          if rat_is_int r then js_int_to_string \<lfloor>r\<rfloor>
          else (if r < 0 then ''-'' else []) @ show_nat (nat \<lfloor>\<bar>r\<bar>\<rfloor>) @ ''.'' @
               frac_digits 1100 (\<bar>r\<bar> - of_int \<lfloor>\<bar>r\<bar>\<rfloor>)
      | _ \<Rightarrow> ''null'')"

text \<open>The indentation argument is \<open>None\<close> for the compact form and \<open>Some n\<close> for a value that
  starts at column \<open>n\<close>.\<close>

definition newline :: "nat option \<Rightarrow> string" where
  "newline ind = (case ind of None \<Rightarrow> [] | Some n \<Rightarrow> LF # replicate n (CHR '' ''))"

definition deeper :: "nat option \<Rightarrow> nat option" where
  "deeper ind = map_option (\<lambda>n. n + 2) ind"

definition colon :: "nat option \<Rightarrow> string" where
  "colon ind = (case ind of None \<Rightarrow> '':'' | Some _ \<Rightarrow> '': '')"

definition wrap :: "nat option \<Rightarrow> char \<Rightarrow> char \<Rightarrow> string list \<Rightarrow> string" where
  "wrap ind l r parts =
     (if parts = [] then [l, r]
      else l # newline (deeper ind) @ join (CHR '','' # newline (deeper ind)) parts @ newline ind @ [r])"

fun ser :: "nat option \<Rightarrow> jsv \<Rightarrow> string" where
  "ser ind JUndef = ''null''"
| "ser ind JNull = ''null''"
| "ser ind (JBool b) = (if b then ''true'' else ''false'')"
| "ser ind (JNum x) = show_num x"
| "ser ind (JBigInt n) = []"
| "ser ind (JStr s) = quote s"
| "ser ind (JArr xs) = wrap ind (CHR ''['') (CHR '']'') (map (ser (deeper ind)) xs)"
| "ser ind (JObj kvs) =
     wrap ind (CHR ''{'') (CHR ''}'')
       (map (\<lambda>(k, v). quote k @ colon ind @ ser (deeper ind) v) (filter (\<lambda>(k, v). v \<noteq> JUndef) kvs))"

text \<open>A bigint anywhere in the value makes \<open>JSON.stringify\<close> throw.\<close>

fun has_bigint :: "jsv \<Rightarrow> bool" where
  "has_bigint (JBigInt n) = True"
| "has_bigint (JArr xs) = list_ex has_bigint xs"
| "has_bigint (JObj kvs) = list_ex (\<lambda>(k, v). has_bigint v) kvs"
| "has_bigint _ = False"

definition JSON_stringify :: "nat option \<Rightarrow> jsv \<Rightarrow> string option" where
  "JSON_stringify ind v = (if has_bigint v then None else Some (ser ind v))"

subsection \<open>Round trip\<close>

lemma cons_fst_simps [simp]:
  "cons_fst x None = None" "cons_fst x (Some (xs, r)) = Some (x # xs, r)"
  by (simp_all add: cons_fst_def)

lemma hex_val_digit: "k < 16 \<Longrightarrow> hex_val (hex_digit k) = Some k"
  by (auto simp: hex_digit_def hex_val_def in_range_def)

lemma hex4_control:
  "n < 32 \<Longrightarrow> hex4 (CHR ''0'') (CHR ''0'') (hex_digit (n div 16)) (hex_digit (n mod 16)) = Some n"
proof -
  assume n: "n < 32"
  have "hex_val (CHR ''0'') = Some 0" by (simp add: hex_val_def in_range_def)
  moreover have "n div 16 < 16" "n mod 16 < 16" using n by auto
  ultimately show ?thesis by (simp add: hex4_def hex_val_digit)
qed

lemma parse_quote_char: "parse_str (quote_char c @ t) = cons_fst c (parse_str t)"
proof -
  consider "c \<in> {QUOTE, BSL, CHR 0x08, CHR 0x0C, LF, CR, CHR 0x09}"
    | "c \<notin> {QUOTE, BSL, CHR 0x08, CHR 0x0C, LF, CR, CHR 0x09}" "(of_char c :: nat) < 32"
    | "c \<notin> {QUOTE, BSL, CHR 0x08, CHR 0x0C, LF, CR, CHR 0x09}" "\<not> (of_char c :: nat) < 32"
    by blast
  then show ?thesis
  proof cases
    case 1
    then show ?thesis by (elim insertE) (simp_all add: quote_char_def simple_escapes_def)
  next
    case 2
    then show ?thesis by (simp add: quote_char_def hex4_control)
  next
    case 3
    then show ?thesis by (simp add: quote_char_def)
  qed
qed

lemma parse_str_quoted: "parse_str (concat (map quote_char s) @ QUOTE # r) = Some (s, r)"
  by (induction s) (simp_all add: parse_quote_char)

text \<open>What may follow a number without becoming part of it.\<close>

definition num_stop :: "string \<Rightarrow> bool" where
  "num_stop r \<longleftrightarrow> r = [] \<or> \<not> is_digit (hd r) \<and> hd r \<notin> {CHR ''.'', CHR ''e'', CHR ''E''}"

lemma parse_unsigned_show_nat:
  assumes "num_stop r"
  shows "parse_unsigned (show_nat n @ r) = Some (of_nat n, r)"
proof -
  have "takeWhile is_digit (show_nat n @ r) = show_nat n" "dropWhile is_digit (show_nat n @ r) = r"
    using show_nat_digits [of n] assms
    by (cases r; auto simp: list_all_iff takeWhile_append dropWhile_append num_stop_def)+
  then have "parse_digits (show_nat n @ r) = Some (show_nat n, r)"
    by (simp add: parse_digits_def)
  moreover have "parse_frac r = Some (0, r)" "parse_exp r = Some (1, r)"
    using assms by (cases r; auto simp: parse_frac_def parse_exp_def num_stop_def)+
  ultimately show ?thesis by (simp add: parse_unsigned_def)
qed

lemma hd_show_nat_digit: "is_digit (hd (show_nat n))"
  using show_nat_digits [of n] show_nat_nonempty [of n] by (cases "show_nat n") auto

lemma parse_num_show_int:
  assumes "num_stop r"
  shows "parse_num (show_int n @ r) = Some (num n, r)"
proof (cases "n < 0")
  case True
  then show ?thesis
    by (simp add: parse_num_def show_int_def parse_unsigned_show_nat [OF assms] of_nat_nat)
next
  case False
  have "\<not> prefix ''-'' (show_nat (nat n) @ r)"
    using show_nat_no_minus [of "nat n"] show_nat_nonempty [of "nat n"] by (cases "show_nat (nat n)") auto
  with False show ?thesis
    by (simp add: parse_num_def show_int_def parse_unsigned_show_nat [OF assms] of_nat_nat)
qed

text \<open>The values JSON text carries without loss: no undefined, no bigint, safe integers.\<close>

fun json_ok :: "jsv \<Rightarrow> bool" where
  "json_ok JUndef = False"
| "json_ok JNull = True"
| "json_ok (JBool b) = True"
| "json_ok (JNum x) = (case x of Fin r \<Rightarrow> rat_is_int r \<and> safe_int \<lfloor>r\<rfloor> | _ \<Rightarrow> False)"
| "json_ok (JBigInt n) = False"
| "json_ok (JStr s) = True"
| "json_ok (JArr xs) = list_all json_ok xs"
| "json_ok (JObj kvs) = (canonical kvs \<and> list_all (\<lambda>(k, v). json_ok v) kvs)"

lemma json_ok_number: "json_ok (JNum x) \<Longrightarrow> \<exists>n. safe_int n \<and> JNum x = num n \<and> show_num x = show_int n"
  by (cases x) (auto simp: show_num_def rat_is_int_def)

lemma newline_ws: "list_all json_ws (newline ind)"
  by (auto simp: newline_def json_ws_def list_all_iff split: option.splits)

lemma skip_newline [simp]: "skip (newline ind @ t) = skip t"
  using newline_ws [of ind] by (simp add: list_all_iff dropWhile_append)

lemma ser_start:
  "json_ok v \<Longrightarrow> ser ind v \<noteq> [] \<and> \<not> json_ws (hd (ser ind v)) \<and> hd (ser ind v) \<notin> {CHR '']'', CHR ''}''}"
proof (cases v)
  case (JNum x)
  moreover assume "json_ok v"
  ultimately obtain n where "show_num x = show_int n" using json_ok_number by blast
  with JNum show ?thesis
    using hd_show_nat_digit [of "nat n"] by (auto simp: show_int_def json_ws_def is_digit_def)
qed (auto simp: wrap_def quote_def json_ws_def)

lemma skip_ser [simp]: "json_ok v \<Longrightarrow> skip (ser ind v @ t) = ser ind v @ t"
  using ser_start [of v ind] by (cases "ser ind v") auto

lemma skip_quote [simp]: "skip (quote k @ t) = quote k @ t"
  by (simp add: quote_def json_ws_def)

lemma num_stop_newline: "num_stop (newline ind @ c # t) \<longleftrightarrow> (ind = None \<longrightarrow> num_stop (c # t))"
  by (cases ind) (auto simp: newline_def num_stop_def is_digit_def)

lemma num_stop_chars [simp]:
  "num_stop []" "num_stop (CHR '']'' # t)" "num_stop (CHR ''}'' # t)" "num_stop (CHR '','' # t)"
  "num_stop (newline ind @ CHR '']'' # t)" "num_stop (newline ind @ CHR ''}'' # t)"
  by (simp_all add: num_stop_newline) (simp_all add: num_stop_def is_digit_def)

lemma parse_elems_join:
  assumes "xs \<noteq> []" "\<forall>x \<in> set xs. json_ok x"
    and "\<And>x n r. x \<in> set xs \<Longrightarrow> length (ser d x) < n \<Longrightarrow> num_stop r \<Longrightarrow>
           parse_value n (ser d x @ r) = Some (x, r)"
    and "length (join (CHR '','' # newline d) (map (ser d) xs)) + 1 < n"
  shows "parse_elems n (join (CHR '','' # newline d) (map (ser d) xs) @ newline e @ CHR '']'' # r) = Some (xs, r)"
  using assms
proof (induction xs arbitrary: n)
  case Nil
  then show ?case by simp
next
  case (Cons x xs)
  from Cons.prems(4) obtain m where n: "n = Suc m" by (cases n) auto
  have skip_br: "skip (newline e @ CHR '']'' # r) = CHR '']'' # r" by (simp add: json_ws_def)
  show ?case
  proof (cases xs)
    case Nil
    then have "parse_value m (ser d x @ newline e @ CHR '']'' # r) = Some (x, newline e @ CHR '']'' # r)"
      using Cons.prems n by (intro Cons.prems(3)) auto
    with Nil n skip_br show ?thesis by simp
  next
    case (Cons y ys)
    let ?tail = "join (CHR '','' # newline d) (map (ser d) xs)"
    have j: "join (CHR '','' # newline d) (map (ser d) (x # xs)) = ser d x @ CHR '','' # newline d @ ?tail"
      using Cons by simp
    have "parse_value m (ser d x @ CHR '','' # newline d @ ?tail @ newline e @ CHR '']'' # r)
        = Some (x, CHR '','' # newline d @ ?tail @ newline e @ CHR '']'' # r)"
      using Cons.prems(4) n j by (intro Cons.prems(3)) auto
    moreover have "parse_elems m (?tail @ newline e @ CHR '']'' # r) = Some (xs, r)"
      using Cons.prems Cons n j by (intro Cons.IH) auto
    moreover have "skip (?tail @ newline e @ CHR '']'' # r) = ?tail @ newline e @ CHR '']'' # r"
      using Cons Cons.prems(2) by (cases ys) auto
    ultimately show ?thesis using n j by (simp add: json_ws_def)
  qed
qed


definition member_text :: "nat option \<Rightarrow> nat option \<Rightarrow> string \<times> jsv \<Rightarrow> string" where
  "member_text ind d = (\<lambda>(k, v). quote k @ colon ind @ ser d v)"

lemma skip_colon: "json_ok v \<Longrightarrow> prefix '':'' (colon ind) \<and> skip (tl (colon ind) @ ser d v @ t) = ser d v @ t"
  by (cases ind) (auto simp: colon_def json_ws_def)

lemma parse_member_head:
  assumes "json_ok v" "length (ser d v) < m" "num_stop r"
    and "\<And>n r. length (ser d v) < n \<Longrightarrow> num_stop r \<Longrightarrow> parse_value n (ser d v @ r) = Some (v, r)"
  shows "parse_members (Suc m) (member_text ind d (k, v) @ r) =
    (if prefix '','' (skip r) then cons_fst (k, v) (parse_members m (skip (tl (skip r))))
     else if prefix ''}'' (skip r) then Some ([(k, v)], tl (skip r)) else None)"
proof -
  have c: "skip (colon ind @ t) = colon ind @ t" for t
    by (cases ind) (auto simp: colon_def json_ws_def)
  have tl_colon: "tl (colon ind @ t) = tl (colon ind) @ t" for t
    by (cases ind) (auto simp: colon_def)
  have "parse_str (tl (quote k @ t)) = Some (k, t)" for t
    using parse_str_quoted [of k t] by (simp add: quote_def)
  moreover have "prefix [QUOTE] (quote k @ t)" for t by (simp add: quote_def)
  ultimately show ?thesis
    using assms skip_colon [OF assms(1), of ind d r]
    by (simp add: member_text_def c tl_colon prefix_prefix)
qed

lemma parse_members_join:
  assumes "kvs \<noteq> []" "\<forall>(k, v) \<in> set kvs. json_ok v"
    and "\<And>k v n r. (k, v) \<in> set kvs \<Longrightarrow> length (ser d v) < n \<Longrightarrow> num_stop r \<Longrightarrow>
           parse_value n (ser d v @ r) = Some (v, r)"
    and "length (join (CHR '','' # newline d) (map (member_text ind d) kvs)) + 1 < n"
  shows "parse_members n (join (CHR '','' # newline d) (map (member_text ind d) kvs) @ newline e @ CHR ''}'' # r)
    = Some (kvs, r)"
  using assms
proof (induction kvs arbitrary: n)
  case Nil
  then show ?case by simp
next
  case (Cons kv kvs)
  obtain k v where kv: "kv = (k, v)" by (cases kv)
  from Cons.prems(4) obtain m where n: "n = Suc m" by (cases n) auto
  have ok: "json_ok v" using Cons.prems(2) kv by simp
  have skip_br: "skip (newline e @ CHR ''}'' # r) = CHR ''}'' # r" by (simp add: json_ws_def)
  have len: "length (ser d v) \<le> length (member_text ind d (k, v))" by (simp add: member_text_def)
  have pv: "\<And>n r. length (ser d v) < n \<Longrightarrow> num_stop r \<Longrightarrow> parse_value n (ser d v @ r) = Some (v, r)"
    by (rule Cons.prems(3) [of k]) (simp_all add: kv)
  show ?case
  proof (cases "kvs = []")
    case True
    then have "length (ser d v) < m" using Cons.prems(4) n kv len by simp
    from parse_member_head [OF ok this _ pv, of "newline e @ CHR ''}'' # r" ind k] True n kv skip_br
    show ?thesis by simp
  next
    case False
    let ?tail = "join (CHR '','' # newline d) (map (member_text ind d) kvs)"
    have j: "join (CHR '','' # newline d) (map (member_text ind d) (kv # kvs)) =
        member_text ind d (k, v) @ CHR '','' # newline d @ ?tail"
      using False kv by (cases kvs) auto
    have "length (ser d v) < m" using Cons.prems(4) n j len by simp
    note hd = parse_member_head [OF ok this _ pv, of "CHR '','' # newline d @ ?tail @ newline e @ CHR ''}'' # r" ind k]
    have IH: "parse_members m (?tail @ newline e @ CHR ''}'' # r) = Some (kvs, r)"
      using Cons.prems False n j by (intro Cons.IH) auto
    have "skip (?tail @ newline e @ CHR ''}'' # r) = ?tail @ newline e @ CHR ''}'' # r"
    proof -
      obtain kv' kvs' where c: "kvs = kv' # kvs'" using False by (cases kvs) auto
      show ?thesis by (cases kvs'; cases kv') (simp_all add: c member_text_def)
    qed
    with hd IH n j kv show ?thesis by (simp add: json_ws_def)
  qed
qed

lemma show_int_start: "prefix s (show_int n @ r) \<Longrightarrow> s \<noteq> [] \<Longrightarrow> hd s = CHR ''-'' \<or> is_digit (hd s)"
  using hd_show_nat_digit [of "nat n"] show_nat_nonempty [of "nat n"]
  by (cases s; cases "show_nat (nat n)") (auto simp: show_int_def split: if_splits)

lemma parse_value_ser:
  "json_ok v \<Longrightarrow> length (ser ind v) < n \<Longrightarrow> num_stop r \<Longrightarrow> parse_value n (ser ind v @ r) = Some (v, r)"
proof (induction v arbitrary: ind n r)
  case (JNum x)
  then obtain k where k: "JNum x = num k" "show_num x = show_int k" using json_ok_number by blast
  obtain m where n: "n = Suc m" using JNum.prems(2) by (cases n) auto
  have no: "\<not> prefix s (show_int k @ r)" if "s \<noteq> []" "hd s \<noteq> CHR ''-''" "\<not> is_digit (hd s)" for s
    using show_int_start that by blast
  show ?case
    using parse_num_show_int [OF JNum.prems(3), of k] k n
    by (simp add: parse_atom_def no is_digit_def)
next
  case (JStr s)
  then obtain m where "n = Suc m" by (cases n) auto
  then show ?case using parse_str_quoted [of s r] by (simp add: parse_atom_def quote_def)
next
  case (JArr xs)
  then obtain m where n: "n = Suc m" by (cases n) auto
  show ?case
  proof (cases "xs = []")
    case True
    then show ?thesis using n by (simp add: wrap_def json_ws_def)
  next
    case False
    let ?els = "join (CHR '','' # newline (deeper ind)) (map (ser (deeper ind)) xs)"
    have t: "ser ind (JArr xs) @ r = CHR ''['' # newline (deeper ind) @ ?els @ newline ind @ CHR '']'' # r"
      using False by (simp add: wrap_def)
    have s: "skip (?els @ newline ind @ CHR '']'' # r) = ?els @ newline ind @ CHR '']'' # r"
    proof -
      obtain y ys where c: "xs = y # ys" using False by (cases xs) auto
      with JArr.prems(1) show ?thesis by (cases ys) auto
    qed
    have b: "\<not> prefix '']'' (?els @ newline ind @ CHR '']'' # r)"
    proof -
      obtain y ys where c: "xs = y # ys" using False by (cases xs) auto
      with JArr.prems(1) ser_start [of y "deeper ind"] show ?thesis
        by (cases ys; cases "ser (deeper ind) y") auto
    qed
    have "parse_elems m (?els @ newline ind @ CHR '']'' # r) = Some (xs, r)"
      using JArr False n by (intro parse_elems_join) (auto simp: list_all_iff wrap_def)
    with n t s b show ?thesis by simp
  qed
next
  case (JObj kvs)
  then obtain m where n: "n = Suc m" by (cases n) auto
  have nou: "filter (\<lambda>(k, v). v \<noteq> JUndef) kvs = kvs"
    using JObj.prems(1) by (auto simp: filter_id_conv list_all_iff)
  have ser: "ser ind (JObj kvs) = wrap ind (CHR ''{'') (CHR ''}'') (map (member_text ind (deeper ind)) kvs)"
    by (simp add: nou member_text_def)
  show ?case
  proof (cases "kvs = []")
    case True
    then show ?thesis using n by (simp add: wrap_def json_ws_def)
  next
    case False
    let ?els = "join (CHR '','' # newline (deeper ind)) (map (member_text ind (deeper ind)) kvs)"
    have t: "ser ind (JObj kvs) @ r = CHR ''{'' # newline (deeper ind) @ ?els @ newline ind @ CHR ''}'' # r"
      unfolding ser using False by (simp add: wrap_def)
    obtain kv kvs' where c: "kvs = kv # kvs'" using False by (cases kvs) auto
    have q: "\<exists>t. ?els @ newline ind @ CHR ''}'' # r = QUOTE # t"
      by (cases kv; cases kvs') (simp_all add: c member_text_def quote_def)
    then have s: "skip (?els @ newline ind @ CHR ''}'' # r) = ?els @ newline ind @ CHR ''}'' # r"
      and b: "\<not> prefix ''}'' (?els @ newline ind @ CHR ''}'' # r)"
      by (auto simp: json_ws_def)
    have len: "length ?els + 1 < m"
      using JObj.prems(2) n False unfolding ser by (simp add: wrap_def)
    have "parse_members m (?els @ newline ind @ CHR ''}'' # r) = Some (kvs, r)"
      by (rule parse_members_join [OF False _ _ len]) (use JObj in \<open>force simp: list_all_iff\<close>)+
    with n t s b JObj.prems(1) show ?thesis by simp
  qed
next
  case JNull
  then obtain m where "n = Suc m" by (cases n) auto
  then show ?case by (simp add: parse_atom_def)
next
  case (JBool b)
  then obtain m where "n = Suc m" by (cases n) auto
  then show ?case by (cases b) (simp_all add: parse_atom_def)
qed simp_all

lemma JSON_parse_ser:
  assumes "json_ok v"
  shows "JSON_parse (ser ind v) = Some v"
  using parse_value_ser [OF assms, of ind "Suc (length (ser ind v))" "[]"] skip_ser [OF assms, of ind "[]"]
  by (simp add: JSON_parse_def)

lemma json_ok_no_bigint: "json_ok v \<Longrightarrow> \<not> has_bigint v"
  by (induction v) (fastforce simp: list_all_iff list_ex_iff)+

text \<open>Parsing undoes printing, compact or indented.\<close>

lemma JSON_roundtrip: "json_ok v \<Longrightarrow> \<exists>s. JSON_stringify ind v = Some s \<and> JSON_parse s = Some v"
  by (simp add: JSON_stringify_def json_ok_no_bigint JSON_parse_ser)

text \<open>The compact text of a value is one line.\<close>

lemma LF_quote_char: "LF \<notin> set (quote_char c) \<and> CR \<notin> set (quote_char c)"
proof (cases "(of_char c :: nat) < 32")
  case True
  have h: "LF \<noteq> hex_digit k \<and> CR \<noteq> hex_digit k" if "k < 16" for k
  proof -
    have "hex_val LF = None" "hex_val CR = None" by (simp_all add: hex_val_def in_range_def)
    with hex_val_digit [OF that] show ?thesis by (metis option.distinct(1))
  qed
  have d: "of_char c div 16 < (16::nat)" "of_char c mod 16 < (16::nat)" using True by auto
  show ?thesis by (simp add: quote_char_def h [OF d(1)] h [OF d(2)])
next
  case False
  then have "c \<noteq> LF" "c \<noteq> CR" by auto
  with False show ?thesis by (simp add: quote_char_def)
qed

lemma LF_quote: "LF \<notin> set (quote s) \<and> CR \<notin> set (quote s)"
  using LF_quote_char by (auto simp: quote_def)

lemma set_join: "set (join sep xs) \<subseteq> set sep \<union> (\<Union>x \<in> set xs. set x)"
  by (induction sep xs rule: join.induct) auto

lemma set_wrap_None: "set (wrap None l r parts) \<subseteq> {l, r, CHR '',''} \<union> (\<Union>x \<in> set parts. set x)"
  using set_join [of "'',''" parts] by (auto simp: wrap_def newline_def deeper_def)

lemma ser_None_one_line: "json_ok v \<Longrightarrow> LF \<notin> set (ser None v) \<and> CR \<notin> set (ser None v)"
proof (induction v)
  case (JNum x)
  then obtain k where k: "show_num x = show_int k" using json_ok_number by blast
  have "LF \<notin> set (show_nat m) \<and> CR \<notin> set (show_nat m)" for m
    using show_nat_digits [of m] by (auto simp: list_all_iff is_digit_def dest: bspec)
  with k show ?case by (simp add: show_int_def)
next
  case (JArr xs)
  then show ?case
    using set_wrap_None [of "CHR ''[''" "CHR '']''" "map (ser None) xs"]
    by (fastforce simp: list_all_iff deeper_def)
next
  case (JObj kvs)
  have "LF \<notin> set (quote k @ colon None @ ser None v) \<and> CR \<notin> set (quote k @ colon None @ ser None v)"
    if "(k, v) \<in> set kvs" for k v
    using JObj that LF_quote [of k] by (fastforce simp: list_all_iff colon_def)
  then show ?case
    using set_wrap_None [of "CHR ''{''" "CHR ''}''"
        "map (\<lambda>(k, v). quote k @ colon None @ ser None v) (filter (\<lambda>(k, v). v \<noteq> JUndef) kvs)"]
    by (fastforce simp: deeper_def)
qed (auto simp: LF_quote)

subsection \<open>Enough fuel\<close>

lemma length_skip: "length (skip s) \<le> length s"
  by (rule length_dropWhile_le)

lemma parse_str_shorter:
  "parse_str s = Some (t, r) \<Longrightarrow> length r < length s"
  "parse_esc s = Some (t, r) \<Longrightarrow> length r < length s"
proof (induction s and s arbitrary: t and t rule: parse_str_parse_esc.induct)
  case (2 c r)
  then show ?case by (fastforce simp: cons_fst_def split: if_splits)
next
  case (4 e r)
  then show ?case
    by (fastforce simp: cons_fst_def split: if_splits option.splits list.splits)
qed auto

lemma parse_digits_shorter: "parse_digits s = Some (ds, r) \<Longrightarrow> length r < length s"
proof -
  assume "parse_digits s = Some (ds, r)"
  then have "takeWhile is_digit s \<noteq> []" "r = dropWhile is_digit s"
    by (auto simp: parse_digits_def Let_def split: if_splits)
  moreover have "length s = length (takeWhile is_digit s) + length (dropWhile is_digit s)"
    by (metis length_append takeWhile_dropWhile_id)
  ultimately show ?thesis by simp
qed

lemma parse_frac_exp_shorter:
  "parse_frac s = Some (x, r) \<Longrightarrow> length r \<le> length s"
  "parse_exp s = Some (x, r) \<Longrightarrow> length r \<le> length s"
  by (fastforce simp: parse_frac_def parse_exp_def split: if_splits option.splits
      dest!: parse_digits_shorter)+

lemma parse_num_shorter: "parse_num s = Some (v, r) \<Longrightarrow> length r < length s"
  by (fastforce simp: parse_num_def parse_unsigned_def split: if_splits option.splits
      dest!: parse_digits_shorter parse_frac_exp_shorter)


lemma tl_skip_shorter: "prefix [c] (skip s) \<Longrightarrow> length (tl (skip s)) < length s"
  using length_skip [of s] by (cases "skip s") auto

lemma skip_tl_shorter: "prefix [c] s \<Longrightarrow> length (skip (tl s)) < length s"
  using length_skip [of "tl s"] by (cases s) auto

lemma skip_tl_skip_shorter: "prefix [c] (skip s) \<Longrightarrow> length (skip (tl (skip s))) < length s"
  using tl_skip_shorter [of c s] length_skip [of "tl (skip s)"] by simp

lemma parse_atom_shorter: "parse_atom s = Some (v, r) \<Longrightarrow> length r < length s"
proof -
  assume p: "parse_atom s = Some (v, r)"
  consider (str) t where "prefix [QUOTE] s" "parse_str (tl s) = Some (t, r)"
    | (lit) "prefix ''true'' s \<or> prefix ''null'' s \<or> prefix ''false'' s" "r = drop 4 s \<or> r = drop 5 s"
    | (num) "parse_num s = Some (v, r)"
    using p by (auto simp: parse_atom_def split: if_splits option.splits)
  then show ?thesis
  proof cases
    case str
    then show ?thesis using parse_str_shorter(1) by (cases s) fastforce+
  next
    case lit
    then have "s \<noteq> []" by auto
    with lit(2) show ?thesis by auto
  next
    case num
    then show ?thesis by (rule parse_num_shorter)
  qed
qed

text \<open>A parse that some fuel completes consumes input, and every fuel that is at least the
  number of characters consumed completes it with the same result.\<close>

definition fuel_ok :: "(nat \<Rightarrow> string \<Rightarrow> ('a \<times> string) option) \<Rightarrow> string \<Rightarrow> 'a \<Rightarrow> string \<Rightarrow> bool" where
  "fuel_ok p s v r \<longleftrightarrow> length r < length s \<and> (\<forall>m. length s \<le> m + length r \<longrightarrow> p m s = Some (v, r))"

lemma fuel_okI:
  assumes "length r < length s" "\<And>m. length s \<le> Suc m + length r \<Longrightarrow> p (Suc m) s = Some (v, r)"
  shows "fuel_ok p s v r"
  unfolding fuel_ok_def
proof (intro conjI allI impI)
  fix m assume "length s \<le> m + length r"
  with assms show "p m s = Some (v, r)" by (cases m) auto
qed (rule assms(1))

lemma parse_fuel:
  "parse_value n s = Some (v, r) \<Longrightarrow> fuel_ok parse_value s v r"
  "parse_elems n s = Some (xs, r) \<Longrightarrow> fuel_ok parse_elems s xs r"
  "parse_members n s = Some (kvs, r) \<Longrightarrow> fuel_ok parse_members s kvs r"
proof (induction n s and n s and n s arbitrary: v r and xs r and kvs r
    rule: parse_value_parse_elems_parse_members.induct)
  case (2 n s)
  consider (obj) "prefix ''{'' s" "\<not> prefix ''}'' (skip (tl s))"
    | (arr) "\<not> prefix ''{'' s" "prefix ''['' s" "\<not> prefix '']'' (skip (tl s))"
    | (atom) "(prefix ''{'' s \<longrightarrow> prefix ''}'' (skip (tl s)))" "(\<not> prefix ''{'' s \<longrightarrow> prefix ''['' s \<longrightarrow> prefix '']'' (skip (tl s)))"
    by blast
  then show ?case
  proof cases
    case obj
    then obtain kvs where k: "parse_members n (skip (tl s)) = Some (kvs, r)" "v = JObj (js_copy kvs)"
      using "2.prems" by (auto split: option.splits)
    have l: "length (skip (tl s)) < length s" using skip_tl_shorter obj by blast
    have IH: "fuel_ok parse_members (skip (tl s)) kvs r" using "2.IH"(1) obj k by blast
    show ?thesis
      by (rule fuel_okI) (use IH l obj k in \<open>auto simp: fuel_ok_def\<close>)
  next
    case arr
    then obtain xs where k: "parse_elems n (skip (tl s)) = Some (xs, r)" "v = JArr xs"
      using "2.prems" by (auto split: option.splits)
    have l: "length (skip (tl s)) < length s" using skip_tl_shorter arr by blast
    have IH: "fuel_ok parse_elems (skip (tl s)) xs r" using "2.IH"(2) arr k by blast
    show ?thesis
      by (rule fuel_okI) (use IH l arr k in \<open>auto simp: fuel_ok_def\<close>)
  next
    case atom
    have "length r < length s"
    proof (cases "prefix ''{'' s \<or> prefix ''['' s")
      case True
      then have "r = tl (skip (tl s))" "prefix ''}'' (skip (tl s)) \<or> prefix '']'' (skip (tl s))"
        using "2.prems" atom by (auto split: if_splits)
      then show ?thesis using tl_skip_shorter [of _ "tl s"] by fastforce
    next
      case False
      with "2.prems" show ?thesis by (simp add: parse_atom_shorter)
    qed
    moreover have "parse_value (Suc m) s = Some (v, r)" for m
      using "2.prems" atom by (simp split: if_splits)
    ultimately show ?thesis by (rule fuel_okI)
  qed
next
  case (4 n s)
  then obtain x r1 where x: "parse_value n s = Some (x, r1)" by (auto split: option.splits)
  have IHv: "fuel_ok parse_value s x r1" using "4.IH"(1) x by blast
  show ?case
  proof (cases "prefix '','' (skip r1)")
    case True
    with "4.prems" x obtain ys where ys: "parse_elems n (skip (tl (skip r1))) = Some (ys, r)" "xs = x # ys"
      by (auto simp: cons_fst_def)
    have l: "length (skip (tl (skip r1))) < length r1" using skip_tl_skip_shorter True by blast
    have IH: "fuel_ok parse_elems (skip (tl (skip r1))) ys r" using "4.IH"(2) x True ys by auto
    show ?thesis
      by (rule fuel_okI) (use IHv IH l x True ys in \<open>auto simp: fuel_ok_def\<close>)
  next
    case False
    with "4.prems" x have b: "prefix '']'' (skip r1)" "xs = [x]" "r = tl (skip r1)"
      by (auto split: if_splits)
    have l: "length r < length r1" using tl_skip_shorter b by blast
    show ?thesis
      by (rule fuel_okI) (use IHv l b False in \<open>auto simp: fuel_ok_def\<close>)
  qed
next
  case (6 n s)
  then obtain k r0 x r1 where q: "prefix [QUOTE] s" "parse_str (tl s) = Some (k, r0)" "prefix '':'' (skip r0)"
      and x: "parse_value n (skip (tl (skip r0))) = Some (x, r1)"
    by (auto split: option.splits if_splits)
  have IHv: "fuel_ok parse_value (skip (tl (skip r0))) x r1" using "6.IH"(1) q x by auto
  have l0: "length (skip (tl (skip r0))) + 2 < length s"
    using parse_str_shorter(1) [OF q(2)] skip_tl_skip_shorter [OF q(3)] q(1) by (cases s) auto
  show ?case
  proof (cases "prefix '','' (skip r1)")
    case True
    with "6.prems" q x obtain ys where ys: "parse_members n (skip (tl (skip r1))) = Some (ys, r)" "kvs = (k, x) # ys"
      by (auto simp: cons_fst_def)
    have l: "length (skip (tl (skip r1))) < length r1" using skip_tl_skip_shorter True by blast
    have IH: "fuel_ok parse_members (skip (tl (skip r1))) ys r" using "6.IH"(2) q x True ys by auto
    show ?thesis
      by (rule fuel_okI) (use IHv IH l l0 q True ys in \<open>auto simp: fuel_ok_def\<close>)
  next
    case False
    with "6.prems" q x have b: "prefix ''}'' (skip r1)" "kvs = [(k, x)]" "r = tl (skip r1)"
      by (auto split: if_splits)
    have l: "length r < length r1" using tl_skip_shorter b by blast
    show ?thesis
      by (rule fuel_okI) (use IHv l l0 q b False in \<open>auto simp: fuel_ok_def\<close>)
  qed
qed simp_all

lemma JSON_parse_enough_fuel:
  assumes "parse_value n (skip s) = Some (v, r)" "skip r = []"
  shows "JSON_parse s = Some v"
proof -
  have "length (skip s) \<le> Suc (length s) + length r" using length_skip [of s] by simp
  with parse_fuel(1) [OF assms(1)] have "parse_value (Suc (length s)) (skip s) = Some (v, r)"
    unfolding fuel_ok_def by blast
  with assms(2) show ?thesis by (simp add: JSON_parse_def del: parse_value.simps)
qed

subsection \<open>Objects that JSON carries\<close>

lemma json_ok_values_put:
  "list_all (\<lambda>(k, v). json_ok v) kvs \<Longrightarrow> json_ok w \<Longrightarrow> list_all (\<lambda>(k, v). json_ok v) (js_put f w kvs)"
  by (induction kvs) auto

lemma json_ok_put: "json_ok (JObj kvs) \<Longrightarrow> json_ok v \<Longrightarrow> json_ok (JObj (js_put k v kvs))"
  by (simp add: canonical_js_put json_ok_values_put)

lemma json_ok_assign: "json_ok (JObj kvs) \<Longrightarrow> json_ok v \<Longrightarrow> json_ok (JObj (js_assign k v kvs))"
  using json_ok_put [of kvs v k] by (simp add: js_assign_def)

lemma json_ok_delete: "json_ok (JObj kvs) \<Longrightarrow> json_ok (JObj (js_delete k kvs))"
  by (auto simp: canonical_js_delete list_all_iff) (auto simp: js_delete_def)

lemma json_ok_get: "json_ok (JObj kvs) \<Longrightarrow> js_get kvs k \<noteq> JUndef \<Longrightarrow> json_ok (js_get kvs k)"
  by (auto simp: js_get_def list_all_iff dest!: map_of_SomeD split: option.splits)

end
