(* ===== verification/Section_Ops.thy ===== *)
theory Section_Ops
  imports Cell_Directive Router JSON_Text
begin

section \<open>Section commands (\<open>extension/src/notebook/commands/section-ops.ts\<close>)\<close>

text \<open>
  The four operator commands that ship overlay commits, their envelope builders, the
  argument parser of the \<open>@@section\<close> magic and the minting of section ids. Random text
  (\<open>crypto.randomUUID\<close>, or the clock and \<open>Math.random\<close>) is an argument: \<open>rnd\<close> is what
  the minting functions append. What the operator answers to a prompt is an argument too
  (\<open>None\<close> for a cancelled one). Command arguments are arbitrary values.
\<close>

definition SECTION_STATUSES :: "string list" where
  "SECTION_STATUSES = [''open'', ''in_progress'', ''complete'', ''frozen'']"

definition mintIntentId :: "string \<Rightarrow> string \<Rightarrow> string" where
  "mintIntentId rnd pre = pre @ ''-'' @ rnd"

subsection \<open>Envelopes\<close>

definition buildOverlayCommitEnvelope :: "string \<Rightarrow> jsv list \<Rightarrow> string \<Rightarrow> string \<Rightarrow> jsv" where
  "buildOverlayCommitEnvelope rnd operations message intentPrefix =
     JObj [(''type'', JStr ''operator.action''),
           (''payload'', JObj
             [(''action_type'', JStr ''zone_mutate''),
              (''intent_kind'', JStr ''apply_overlay_commit''),
              (''parameters'', JObj [(''operations'', JArr operations), (''message'', JStr message)]),
              (''intent_id'', JStr (mintIntentId rnd intentPrefix))])]"

definition buildCreateSectionEnvelope :: "string \<Rightarrow> string \<Rightarrow> string \<Rightarrow> jsv \<Rightarrow> jsv" where
  "buildCreateSectionEnvelope rnd section_id title cell_range =
     (let create = JObj [(''kind'', JStr ''create_section''), (''section_id'', JStr section_id), (''title'', JStr title)];
          move = (case cell_range of
              JArr cells \<Rightarrow>
                if cells = [] then []
                else [JObj [(''kind'', JStr ''move_cells_into_section''), (''target_section_id'', JStr section_id),
                            (''cell_ids'', JArr cells), (''position'', num 0)]]
            | _ \<Rightarrow> [])
      in buildOverlayCommitEnvelope rnd (create # move) (''create section '' @ section_id)
           (''sec-create-'' @ take 12 section_id))"

definition buildRenameSectionEnvelope :: "string \<Rightarrow> string \<Rightarrow> string \<Rightarrow> jsv" where
  "buildRenameSectionEnvelope rnd section_id title =
     buildOverlayCommitEnvelope rnd
       [JObj [(''kind'', JStr ''rename_section''), (''section_id'', JStr section_id), (''title'', JStr title)]]
       (''rename section '' @ section_id) (''sec-rename-'' @ take 12 section_id)"

definition buildDeleteSectionEnvelope :: "string \<Rightarrow> string \<Rightarrow> jsv" where
  "buildDeleteSectionEnvelope rnd section_id =
     buildOverlayCommitEnvelope rnd
       [JObj [(''kind'', JStr ''delete_section''), (''section_id'', JStr section_id)]]
       (''delete section '' @ section_id) (''sec-delete-'' @ take 12 section_id)"

text \<open>The commit message of a status change has an arrow (U+2192); it is written here as the
  three characters \<open>-->\<close>.\<close>

definition buildSetSectionStatusEnvelope :: "string \<Rightarrow> string \<Rightarrow> string \<Rightarrow> jsv" where
  "buildSetSectionStatusEnvelope rnd section_id new_status =
     buildOverlayCommitEnvelope rnd
       [JObj [(''kind'', JStr ''set_section_status''), (''section_id'', JStr section_id), (''new_status'', JStr new_status)]]
       (''set section '' @ section_id @ '' status --> '' @ new_status) (''sec-status-'' @ take 12 section_id)"

subsection \<open>The \<open>@@section\<close> magic\<close>

text \<open>The first match of \<open>/kw([^"]+)"/\<close>: as \<open>match_quoted\<close>, with a non-empty body.\<close>

fun match_quoted1 :: "string \<Rightarrow> string \<Rightarrow> string option" where
  "match_quoted1 kw [] = None"
| "match_quoted1 kw (c # cs) =
     (let r = drop (length kw) (c # cs); body = takeWhile (\<lambda>d. d \<noteq> QUOTE) r in
      if prefix kw (c # cs) \<and> QUOTE \<in> set r \<and> body \<noteq> [] then Some body else match_quoted1 kw cs)"

record section_args =
  sa_title :: "string option"
  sa_section_id :: "string option"

definition parseSectionMagicArgs :: "string \<Rightarrow> section_args" where
  "parseSectionMagicArgs argsStr =
     (let sid = match_quoted1 (''id:'' @ [QUOTE]) argsStr; trimmed = trim argsStr in
      case match_quoted1 (''title:'' @ [QUOTE]) argsStr of
        Some t \<Rightarrow> \<lparr>sa_title = Some t, sa_section_id = sid\<rparr>
      | None \<Rightarrow>
          (let quoted = (if prefix [QUOTE] trimmed \<and> QUOTE \<in> set (tl trimmed) \<and>
                            takeWhile (\<lambda>d. d \<noteq> QUOTE) (tl trimmed) \<noteq> []
                         then Some (takeWhile (\<lambda>d. d \<noteq> QUOTE) (tl trimmed)) else None)
           in case quoted of
                Some t \<Rightarrow> \<lparr>sa_title = Some t, sa_section_id = sid\<rparr>
              | None \<Rightarrow>
                  \<lparr>sa_title = (case first_token trimmed of
                       Some t \<Rightarrow> if t \<noteq> ''id:'' \<and> \<not> startsWith t ''id:'' then Some t else None
                     | None \<Rightarrow> None),
                   sa_section_id = sid\<rparr>))"

text \<open>\<open>replace(/[^a-z0-9]+/g, '_')\<close>: every maximal run of other characters becomes one
  underscore.\<close>

definition slug_char :: "char \<Rightarrow> bool" where
  "slug_char c \<longleftrightarrow> in_range CHR ''a'' CHR ''z'' c \<or> in_range CHR ''0'' CHR ''9'' c"

fun replace_runs :: "bool \<Rightarrow> string \<Rightarrow> string" where
  "replace_runs in_run [] = []"
| "replace_runs in_run (c # cs) =
     (if slug_char c then c # replace_runs False cs
      else if in_run then replace_runs True cs
      else CHR ''_'' # replace_runs True cs)"

text \<open>\<open>replace(/^_+|_+$/g, '')\<close>.\<close>

definition strip_underscores :: "string \<Rightarrow> string" where
  "strip_underscores s =
     rev (dropWhile (\<lambda>c. c = CHR ''_'') (rev (dropWhile (\<lambda>c. c = CHR ''_'') s)))"

definition mintSectionIdFromTitle :: "string \<Rightarrow> string \<Rightarrow> string" where
  "mintSectionIdFromTitle rnd title =
     (let slug = take 24 (strip_underscores (replace_runs False (toLowerCase title))) in
      ''sec_'' @ (if slug \<noteq> [] then slug @ ''_'' else []) @ rnd)"

subsection \<open>Command runners\<close>

text \<open>What the prompt sink makes of the value the input box returns.\<close>

definition inputBox :: "jsv \<Rightarrow> string option" where
  "inputBox v = (case v of JStr s \<Rightarrow> (if trim s \<noteq> [] then Some (trim s) else None) | _ \<Rightarrow> None)"

text \<open>Each runner returns whether an envelope was enqueued, and what the router did with it.
  \<open>rnd1\<close> and \<open>rnd2\<close> are the random texts of the section id and of the intent id.\<close>

definition nonempty_arg :: "jsv \<Rightarrow> string \<Rightarrow> string" where
  "nonempty_arg args key = (case jprop args key of JStr s \<Rightarrow> s | _ \<Rightarrow> [])"

definition runSectionCreateCommand ::
  "router \<Rightarrow> behaviour \<Rightarrow> string \<Rightarrow> string \<Rightarrow> jsv \<Rightarrow> string option \<Rightarrow> bool \<times> event list" where
  "runSectionCreateCommand r beh rnd1 rnd2 args answer =
     (case answer of
        None \<Rightarrow> (False, [])
      | Some title \<Rightarrow>
          if title = [] then (False, [])
          else (True, enqueueOutbound r beh
                  (buildCreateSectionEnvelope rnd2 (mintSectionIdFromTitle rnd1 title) title (jprop args ''cell_ids''))))"

definition runSectionRenameCommand ::
  "router \<Rightarrow> behaviour \<Rightarrow> string \<Rightarrow> jsv \<Rightarrow> string option \<Rightarrow> bool \<times> event list" where
  "runSectionRenameCommand r beh rnd args answer =
     (let sid = nonempty_arg args ''section_id'' in
      if sid = [] then (False, [])
      else case answer of
        None \<Rightarrow> (False, [])
      | Some title \<Rightarrow>
          if title = [] then (False, []) else (True, enqueueOutbound r beh (buildRenameSectionEnvelope rnd sid title)))"

definition runSectionDeleteCommand ::
  "router \<Rightarrow> behaviour \<Rightarrow> string \<Rightarrow> jsv \<Rightarrow> string option \<Rightarrow> bool \<times> event list" where
  "runSectionDeleteCommand r beh rnd args choice =
     (let sid = nonempty_arg args ''section_id'' in
      if sid = [] then (False, [])
      else if choice \<noteq> Some ''Delete'' then (False, [])
      else (True, enqueueOutbound r beh (buildDeleteSectionEnvelope rnd sid)))"

definition runSectionSetStatusCommand ::
  "router \<Rightarrow> behaviour \<Rightarrow> string \<Rightarrow> jsv \<Rightarrow> string option \<Rightarrow> bool \<times> event list" where
  "runSectionSetStatusCommand r beh rnd args picked =
     (let sid = nonempty_arg args ''section_id'' in
      if sid = [] then (False, [])
      else (let status = (case jprop args ''new_status'' of
                JStr s \<Rightarrow> if s \<in> set SECTION_STATUSES then Some s else None
              | _ \<Rightarrow> None);
                chosen = (case status of
                Some s \<Rightarrow> Some s
              | None \<Rightarrow> (case picked of
                    None \<Rightarrow> None
                  | Some pk \<Rightarrow> if pk \<in> set SECTION_STATUSES then Some pk else None))
            in case chosen of
                 None \<Rightarrow> (False, [])
               | Some s \<Rightarrow> (True, enqueueOutbound r beh (buildSetSectionStatusEnvelope rnd sid s))))"

subsection \<open>Lemmas\<close>

definition id_char :: "char \<Rightarrow> bool" where
  "id_char c \<longleftrightarrow> slug_char c \<or> c = CHR ''_''"

lemma replace_runs_chars: "list_all id_char (replace_runs b s)"
  by (induction b s rule: replace_runs.induct) (auto simp: id_char_def)

lemma dropWhile_suffix: "suffix (dropWhile P s) s"
  by (induction s) (auto simp: suffix_Cons)

lemma strip_underscores_sublist: "sublist (strip_underscores s) s"
proof -
  have "prefix (strip_underscores s) (dropWhile (\<lambda>c. c = CHR ''_'') s)"
    unfolding strip_underscores_def using dropWhile_suffix [of _ "rev (dropWhile (\<lambda>c. c = CHR ''_'') s)"]
    by (simp add: suffix_to_prefix)
  then show ?thesis
    using dropWhile_suffix [of "\<lambda>c. c = CHR ''_''" s] by (meson prefix_imp_sublist suffix_imp_sublist sublist_order.order_trans)
qed

lemma strip_underscores_subset: "set (strip_underscores s) \<subseteq> set s"
  by (rule set_mono_sublist [OF strip_underscores_sublist])

lemma mint_chars:
  assumes "list_all id_char rnd"
  shows "list_all id_char (mintSectionIdFromTitle rnd title)"
proof -
  let ?r = "replace_runs False (toLowerCase title)"
  have "set (take 24 (strip_underscores ?r)) \<subseteq> set ?r"
    using set_take_subset strip_underscores_subset by (rule subset_trans)
  with replace_runs_chars [of False "toLowerCase title"]
  have "list_all id_char (take 24 (strip_underscores ?r))"
    by (auto simp: list_all_iff)
  then show ?thesis
    using assms by (simp add: mintSectionIdFromTitle_def Let_def id_char_def slug_char_def in_range_def)
qed

text \<open>A command either enqueues one operator action or does nothing.\<close>

lemmas run_section_defs = runSectionCreateCommand_def runSectionRenameCommand_def
  runSectionDeleteCommand_def runSectionSetStatusCommand_def

lemma overlay_envelope_valid:
  "snd (validateEnvelope (buildOverlayCommitEnvelope rnd ops msg pre)) \<and>
   jprop (buildOverlayCommitEnvelope rnd ops msg pre) ''type'' = JStr ''operator.action''"
  by (simp add: buildOverlayCommitEnvelope_def validateEnvelope_def js_get_def)

lemma mint_length: "length (mintSectionIdFromTitle rnd title) \<le> 29 + length rnd"
  by (simp add: mintSectionIdFromTitle_def Let_def)

lemma mint_prefix: "prefix ''sec_'' (mintSectionIdFromTitle rnd title)"
  by (simp add: mintSectionIdFromTitle_def Let_def)

lemma match_quoted1_eq:
  assumes "match_quoted kw s = Some t" "t \<noteq> []"
  shows "match_quoted1 kw s = Some t"
  using assms by (induction kw s rule: match_quoted1.induct) (auto simp: Let_def split: if_splits)

lemma first_token_split:
  assumes "t \<noteq> []" "list_all (\<lambda>c. \<not> is_ws c) t" "rest = [] \<or> is_ws (hd rest)"
  shows "first_token (t @ rest) = Some t"
  using assms by (cases rest) (auto simp: first_token_def takeWhile_append list_all_iff Let_def takeWhile_eq_all_conv [THEN iffD2])

lemma match_quoted1_None: "\<not> sublist kw s \<Longrightarrow> match_quoted1 kw s = None"
  by (induction s) (auto simp: Let_def sublist_Cons_right)

lemma mint_ends_in_tail: "\<exists>p. mintSectionIdFromTitle rnd t = p @ rnd"
  unfolding mintSectionIdFromTitle_def Let_def by (metis append_assoc)

lemma mint_tail_inj:
  assumes "length rnd = length rnd'" "mintSectionIdFromTitle rnd t = mintSectionIdFromTitle rnd' t'"
  shows "rnd = rnd'"
  using assms mint_ends_in_tail [of rnd t] mint_ends_in_tail [of rnd' t'] by (metis append_eq_append_conv)

lemma sublist_colon:
  assumes "CHR '':'' \<notin> set t" "sublist (k @ '':'' @ k') t"
  shows False
  using set_mono_sublist [OF assms(2)] assms(1) by auto

lemma sublist_last_colon:
  assumes "sublist (k @ [c, CHR '':'']) (t @ [d, CHR '':''] @ u)" "CHR '':'' \<notin> set t \<union> set u" "d \<noteq> CHR '':''"
  shows "c = d"
proof -
  obtain p q where e: "t @ [d, CHR '':''] @ u = p @ (k @ [c, CHR '':'']) @ q"
    using assms(1) by (auto simp: sublist_def)
  then have "(t @ [d]) @ CHR '':'' # u = (p @ k @ [c]) @ CHR '':'' # q" by simp
  moreover have "CHR '':'' \<notin> set (t @ [d])" "CHR '':'' \<notin> set u" using assms by auto
  ultimately have "t @ [d] = p @ k @ [c]"
    by (metis append_Cons_eq_iff)
  then show ?thesis by (metis append_assoc last_snoc)
qed

subsection \<open>Properties\<close>

text \<open>The ids minted for new sections. Whatever the title, the id begins with
  \<open>sec_\<close>, consists of lower-case letters, digits and underscores only (given that the
  random tail does, as hexadecimal and base-36 tails do), is at most 29 characters longer
  than the tail, and two ids are equal only if their tails are.\<close>

theorem section_id_shape:
  assumes "list_all slug_char rnd" "list_all slug_char rnd'" "length rnd = length rnd'"
  shows "prefix ''sec_'' (mintSectionIdFromTitle rnd title) \<and>
         list_all id_char (mintSectionIdFromTitle rnd title) \<and>
         length (mintSectionIdFromTitle rnd title) \<le> 29 + length rnd \<and>
         (mintSectionIdFromTitle rnd title = mintSectionIdFromTitle rnd' title' \<longrightarrow> rnd = rnd')"
proof -
  have "list_all id_char rnd" using assms(1) by (auto simp: list_all_iff id_char_def)
  then show ?thesis using mint_prefix mint_chars mint_length mint_tail_inj [OF assms(3)] by blast
qed

theorem section_id_shape_witness:
  "list_all id_char (mintSectionIdFromTitle ''ab12cd'' ''My -- Title!'') \<and>
   mintSectionIdFromTitle ''ab12cd'' ''My -- Title!'' = ''sec_my_title_ab12cd''"
proof -
  have "mintSectionIdFromTitle ''ab12cd'' ''My -- Title!'' = ''sec_my_title_ab12cd''"
    by code_simp
  moreover have "list_all slug_char ''ab12cd''" by (simp add: slug_char_def in_range_def)
  ultimately show ?thesis
    using section_id_shape [of "''ab12cd''" "''ab12cd''" "''My -- Title!''"] by blast
qed

text \<open>What the overlay-commit protocol accepts as an operation on sections.\<close>

definition nonempty_str :: "jsv \<Rightarrow> bool" where
  "nonempty_str v = (case v of JStr s \<Rightarrow> s \<noteq> [] | _ \<Rightarrow> False)"

definition valid_section_op :: "jsv \<Rightarrow> bool" where
  "valid_section_op op1 =
     (let k = str_of (jprop op1 ''kind''); sid = jprop op1 ''section_id'' in
      k = ''create_section'' \<and> nonempty_str sid \<and> nonempty_str (jprop op1 ''title'') \<or>
      k = ''rename_section'' \<and> nonempty_str sid \<and> nonempty_str (jprop op1 ''title'') \<or>
      k = ''delete_section'' \<and> nonempty_str sid \<or>
      k = ''set_section_status'' \<and> nonempty_str sid \<and>
        str_of (jprop op1 ''new_status'') \<in> set SECTION_STATUSES \<or>
      k = ''move_cells_into_section'' \<and> nonempty_str (jprop op1 ''target_section_id'') \<and>
        (case jprop op1 ''cell_ids'' of JArr (_ # _) \<Rightarrow> True | _ \<Rightarrow> False))"

definition shipped_ok :: "router \<Rightarrow> bool \<times> event list \<Rightarrow> bool" where
  "shipped_ok r res =
     (if fst res
      then (\<exists>rnd ops msg pre. ops \<noteq> [] \<and> list_all valid_section_op ops \<and>
              calls (snd res) =
                map (\<lambda>x. OutboundSend x (buildOverlayCommitEnvelope rnd ops msg pre)) (outboundSubscribers r))
      else snd res = [])"

lemma shipped_okI:
  assumes "ops \<noteq> []" "list_all valid_section_op ops"
  shows "shipped_ok r (True, enqueueOutbound r beh (buildOverlayCommitEnvelope rnd ops msg pre))"
  using assms unfolding shipped_ok_def by auto

lemmas build_section_defs = buildCreateSectionEnvelope_def buildRenameSectionEnvelope_def
  buildDeleteSectionEnvelope_def buildSetSectionStatusEnvelope_def

lemma mint_nonempty [simp]: "mintSectionIdFromTitle rnd title \<noteq> []"
  by (simp add: mintSectionIdFromTitle_def Let_def)

lemmas section_op_simps = valid_section_op_def nonempty_str_def str_of_def js_get_def Let_def

lemma shipped_create: "title \<noteq> [] \<Longrightarrow> sid \<noteq> [] \<Longrightarrow>
    shipped_ok r (True, enqueueOutbound r beh (buildCreateSectionEnvelope rnd sid title cells))"
  unfolding build_section_defs Let_def
  by (rule shipped_okI) (auto simp: section_op_simps split: jsv.splits list.splits)

lemma shipped_rename: "title \<noteq> [] \<Longrightarrow> sid \<noteq> [] \<Longrightarrow>
    shipped_ok r (True, enqueueOutbound r beh (buildRenameSectionEnvelope rnd sid title))"
  unfolding build_section_defs by (rule shipped_okI) (simp_all add: section_op_simps)

lemma shipped_delete: "sid \<noteq> [] \<Longrightarrow>
    shipped_ok r (True, enqueueOutbound r beh (buildDeleteSectionEnvelope rnd sid))"
  unfolding build_section_defs by (rule shipped_okI) (simp_all add: section_op_simps)

lemma shipped_status: "sid \<noteq> [] \<Longrightarrow> s \<in> set SECTION_STATUSES \<Longrightarrow>
    shipped_ok r (True, enqueueOutbound r beh (buildSetSectionStatusEnvelope rnd sid s))"
  unfolding build_section_defs by (rule shipped_okI) (simp_all add: section_op_simps)

lemma shipped_nothing: "shipped_ok r (False, [])"
  by (simp add: shipped_ok_def)

lemmas shipped_rules = shipped_create shipped_rename shipped_delete shipped_status shipped_nothing

text \<open>C28. Section commands, for every command argument and every answer of the operator
  (cancelled prompts included): each command either reports false and calls nobody, or
  reports true and hands every outbound subscriber the same single overlay commit, whose
  operations are all well formed: they name a section, titles are not empty, and a new
  status is one of the four the notebook knows.\<close>

theorem section_commands_ship_valid_commits:
  "shipped_ok r (runSectionCreateCommand r beh rnd1 rnd2 args answer) \<and>
   shipped_ok r (runSectionRenameCommand r beh rnd2 args answer) \<and>
   shipped_ok r (runSectionDeleteCommand r beh rnd2 args answer) \<and>
   shipped_ok r (runSectionSetStatusCommand r beh rnd2 args answer)"
  unfolding run_section_defs Let_def
  by (auto intro!: shipped_rules split: option.splits if_splits jsv.splits)

lemma no_colon_no_args:
  assumes "CHR '':'' \<notin> set s"
  shows "match_quoted1 (''id:'' @ [QUOTE]) s = None" "match_quoted1 (''title:'' @ [QUOTE]) s = None"
  using sublist_colon [OF assms, of "''id''"] sublist_colon [OF assms, of "''title''"]
  by (auto intro!: match_quoted1_None)

lemma parse_bare:
  assumes "list_all (\<lambda>c. \<not> is_ws c) w" "w \<noteq> []" "QUOTE \<notin> set w" "CHR '':'' \<notin> set w"
  shows "parseSectionMagicArgs w = \<lparr>sa_title = Some w, sa_section_id = None\<rparr>"
proof -
  have "trim w = w" using assms by (intro trim_id) (auto simp: list_all_iff)
  moreover have "\<not> prefix [QUOTE] w" "\<not> prefix ''id:'' w" using assms by (auto simp: prefix_def)
  moreover have "w \<noteq> ''id:''" using assms by auto
  ultimately show ?thesis
    using no_colon_no_args [OF assms(4)] first_token_split [OF assms(2,1), of "[]"]
    by (simp add: parseSectionMagicArgs_def startsWith_def)
qed

lemma quoted_trim: "trim (QUOTE # t @ [QUOTE]) = QUOTE # t @ [QUOTE]"
  by (rule trim_id) (simp add: is_ws_def)

lemma parse_quoted:
  assumes "t \<noteq> []" "QUOTE \<notin> set t" "CHR '':'' \<notin> set t"
  shows "parseSectionMagicArgs (QUOTE # t @ [QUOTE]) = \<lparr>sa_title = Some t, sa_section_id = None\<rparr>"
proof -
  have "CHR '':'' \<notin> set (QUOTE # t @ [QUOTE])" using assms by simp
  note no_colon_no_args [OF this]
  moreover have "takeWhile (\<lambda>d. d \<noteq> QUOTE) (t @ [QUOTE]) = t" using assms by (auto simp: takeWhile_append)
  ultimately show ?thesis
    using assms by (simp add: parseSectionMagicArgs_def quoted_trim)
qed

lemma parse_named:
  assumes "t \<noteq> []" "QUOTE \<notin> set t" "CHR '':'' \<notin> set t"
  shows "parseSectionMagicArgs (''title:'' @ QUOTE # t @ [QUOTE]) = \<lparr>sa_title = Some t, sa_section_id = None\<rparr>"
proof -
  have "match_quoted1 (''title:'' @ [QUOTE]) (''title:'' @ QUOTE # t @ [QUOTE]) = Some t"
    using match_quoted_first [of "''title:''" t "[]" "[]"] assms by (intro match_quoted1_eq) simp_all
  moreover have "match_quoted1 (''id:'' @ [QUOTE]) (''title:'' @ QUOTE # t @ [QUOTE]) = None"
    using no_colon_no_args(1) [of "QUOTE # t @ [QUOTE]"] assms by simp
  ultimately show ?thesis by (simp add: parseSectionMagicArgs_def)
qed

lemma parse_with_id:
  assumes "list_all (\<lambda>c. \<not> is_ws c) w" "w \<noteq> []" "QUOTE \<notin> set w" "CHR '':'' \<notin> set w"
    and "i \<noteq> []" "QUOTE \<notin> set i" "CHR '':'' \<notin> set i"
  shows "parseSectionMagicArgs (w @ '' id:'' @ QUOTE # i @ [QUOTE]) = \<lparr>sa_title = Some w, sa_section_id = Some i\<rparr>"
proof -
  let ?s = "w @ '' id:'' @ QUOTE # i @ [QUOTE]"
  have "match_quoted1 (''id:'' @ [QUOTE]) ?s = Some i"
    using match_quoted_first [of "''id:''" i "w @ '' ''" "[]"] assms by (intro match_quoted1_eq) simp_all
  moreover have "match_quoted1 (''title:'' @ [QUOTE]) ?s = None"
  proof (rule match_quoted1_None, rule notI)
    assume "sublist (''title:'' @ [QUOTE]) ?s"
    then have "sublist (''titl'' @ [CHR ''e'', CHR '':'']) ((w @ '' i'') @ [CHR ''d'', CHR '':''] @ (QUOTE # i @ [QUOTE]))"
      using sublist_order.order_trans [of "''title:''" "''title:'' @ [QUOTE]" ?s] by (simp add: sublist_append)
    from sublist_last_colon [OF this] assms show False by simp
  qed
  moreover have "trim ?s = ?s"
    using assms by (intro trim_id) (cases w; auto simp: list_all_iff is_ws_def)
  moreover have "first_token ?s = Some w"
    using first_token_split [OF assms(2,1), of "'' id:'' @ QUOTE # i @ [QUOTE]"] by (simp add: is_ws_def)
  moreover have "\<not> prefix [QUOTE] ?s" "\<not> prefix ''id:'' w" "w \<noteq> ''id:''"
    using assms by (cases w; auto simp: prefix_def)+
  ultimately show ?thesis by (simp add: parseSectionMagicArgs_def startsWith_def)
qed

text \<open>The four documented forms of \<open>@@section\<close> arguments parse to their title and
  id: a bare word, a quoted title, \<open>title:"\<dots>"\<close>, and a bare word followed by
  \<open>id:"\<dots>"\<close> (titles and ids without quotes and colons; a bare word without white space).\<close>

theorem section_magic_forms:
  assumes "t \<noteq> []" "QUOTE \<notin> set t" "CHR '':'' \<notin> set t"
    and "list_all (\<lambda>c. \<not> is_ws c) w" "w \<noteq> []" "QUOTE \<notin> set w" "CHR '':'' \<notin> set w"
    and "i \<noteq> []" "QUOTE \<notin> set i" "CHR '':'' \<notin> set i"
  shows "parseSectionMagicArgs w = \<lparr>sa_title = Some w, sa_section_id = None\<rparr> \<and>
         parseSectionMagicArgs (QUOTE # t @ [QUOTE]) = \<lparr>sa_title = Some t, sa_section_id = None\<rparr> \<and>
         parseSectionMagicArgs (''title:'' @ QUOTE # t @ [QUOTE]) = \<lparr>sa_title = Some t, sa_section_id = None\<rparr> \<and>
         parseSectionMagicArgs (w @ '' id:'' @ QUOTE # i @ [QUOTE]) = \<lparr>sa_title = Some w, sa_section_id = Some i\<rparr>"
  using parse_bare [OF assms(4-7)] parse_quoted [OF assms(1-3)] parse_named [OF assms(1-3)]
    parse_with_id [OF assms(4-10)] by blast

theorem section_magic_forms_witness:
  "parseSectionMagicArgs (''Intro id:'' @ QUOTE # ''sec_1'' @ [QUOTE]) =
     \<lparr>sa_title = Some ''Intro'', sa_section_id = Some ''sec_1''\<rparr>"
  using section_magic_forms [of "''My Title''" "''Intro''" "''sec_1''"] by (simp add: is_ws_def)

end
