(* ===== verification/Pty_Client.thy ===== *)
theory Pty_Client
  imports Section_Ops
begin

section \<open>The kernel client (\<open>extension/src/notebook/pty-kernel-client.ts\<close>)\<close>

text \<open>
  \<open>PtyKernelClient\<close> spawns the kernel, listens on a socket, frames the incoming bytes into
  lines of JSON, dispatches them, waits for the ready handshake and writes outbound
  envelopes. The state is a record with the fields of the class. Every operation returns
  the new state, the effects it has in order (log lines, writes, signals, calls of the
  callbacks) and, where the source lets one escape, an exception.

  The world outside is the record \<open>kenv\<close>: the configuration, the router, and what each
  callback does when it is called (it returns, or throws a text). Callbacks do not call the
  client back. \<open>json_error\<close> is the engine's text for a syntax error. An \<open>async\<close> method is
  split where it awaits; the part after the await is a step of its own.
\<close>

subsection \<open>State and effects\<close>

datatype drift_severity = Major_mismatch | Minor_mismatch | Unknown

record drift_event =
  attribute :: string
  expected :: string
  observed :: string
  severity :: drift_severity

datatype frame_kind = Span | Log_record | Envelope | Malformed

datatype promise = Pending | Resolved | Rejected string

datatype effect =
    Log log_level string
  | Rt event
  | Frame_listener nat jsv
  | Sink_emit nat jsv
  | Terminal nat
  | Comm_emit jsv
  | Fire drift_event
  | Wire string
  | Signal string
  | Spawn_process string "string list" string string
  | Reject_second
  | Pty_listener nat string
  | Close_socket
  | Close_server

record pty_config =
  sessionId :: string
  pythonPath :: string
  cfg_cwd :: "string option"
  cfg_socketAddress :: "string option"
  cfg_argv :: "string list option"
  cfg_readyTimeoutMs :: "nat option"
  cfg_shutdownGraceMs :: "nat option"

record kenv =
  config :: pty_config
  krouter :: router
  beh :: behaviour
  listener_beh :: "nat \<Rightarrow> jsv \<Rightarrow> string option"
  sink_beh :: "nat \<Rightarrow> jsv \<Rightarrow> string option"
  comm_beh :: "jsv \<Rightarrow> string option"
  pty_listener_beh :: "nat \<Rightarrow> string \<Rightarrow> string option"
  json_error :: "string \<Rightarrow> string"
  workspace_folder :: "string option"
  process_cwd :: string

record client =
  ptyProcess :: bool
  server :: bool
  listening :: bool
  socket :: bool
  incomingBuffer :: string
  readyPromise :: "promise option"
  readyResolve :: bool
  readyReject :: bool
  readyTimer :: bool
  outboundBuffer :: "jsv list"
  ptyDataListeners :: "nat list"
  frameListeners :: "nat list"
  driftEvents :: "drift_event list"
  commSink :: bool
  activeRunSink :: "nat option"
  lastTraceId :: "string option"
  disposed :: bool
  isReady :: bool
  socketAddress :: string

type_synonym 'c outcome = "'c \<times> effect list \<times> string option"

definition EXTENSION_RFC_VERSIONS :: "(string \<times> string) list" where
  "EXTENSION_RFC_VERSIONS = [(''rfc_005_version'', ''1.0.0''), (''rfc_006_version'', ''2.0.0''),
     (''rfc_007_version'', ''1.0.0''), (''rfc_008_version'', ''1.0.0'')]"

definition readyTimeoutMs :: "pty_config \<Rightarrow> nat" where
  "readyTimeoutMs cfg = (case cfg_readyTimeoutMs cfg of Some n \<Rightarrow> n | None \<Rightarrow> 30000)"

definition shutdownGraceMs :: "pty_config \<Rightarrow> nat" where
  "shutdownGraceMs cfg = (case cfg_shutdownGraceMs cfg of Some n \<Rightarrow> n | None \<Rightarrow> 5000)"

text \<open>\<open>path.join(dir, name)\<close> and the directory are the platform's: \<open>dir_join\<close>.\<close>

definition allocateSocketAddress :: "bool \<Rightarrow> (string \<Rightarrow> string) \<Rightarrow> pty_config \<Rightarrow> string" where
  "allocateSocketAddress win32 dir_join cfg =
     (if win32 then ''tcp:127.0.0.1:0'' else dir_join (''llmnb-'' @ sessionId cfg @ ''.sock''))"

definition new_client :: "bool \<Rightarrow> (string \<Rightarrow> string) \<Rightarrow> pty_config \<Rightarrow> client" where
  "new_client win32 dir_join cfg =
     \<lparr>ptyProcess = False, server = False, listening = False, socket = False, incomingBuffer = [],
      readyPromise = None, readyResolve = False, readyReject = False, readyTimer = False,
      outboundBuffer = [], ptyDataListeners = [], frameListeners = [], driftEvents = [],
      commSink = False, activeRunSink = None, lastTraceId = None, disposed = False, isReady = False,
      socketAddress = (case cfg_socketAddress cfg of Some a \<Rightarrow> a | None \<Rightarrow> allocateSocketAddress win32 dir_join cfg)\<rparr>"

definition setCommSink :: "client \<Rightarrow> client" where
  "setCommSink c = c\<lparr>commSink := True\<rparr>"

definition onFrame :: "nat \<Rightarrow> client \<Rightarrow> client" where
  "onFrame l c = c\<lparr>frameListeners := frameListeners c @ [l]\<rparr>"

definition disposeFrameListener :: "nat \<Rightarrow> client \<Rightarrow> client" where
  "disposeFrameListener l c = c\<lparr>frameListeners := splice_out l (frameListeners c)\<rparr>"

definition onPtyData :: "nat \<Rightarrow> client \<Rightarrow> client" where
  "onPtyData l c = c\<lparr>ptyDataListeners := ptyDataListeners c @ [l]\<rparr>"

definition disposePtyListener :: "nat \<Rightarrow> client \<Rightarrow> client" where
  "disposePtyListener l c = c\<lparr>ptyDataListeners := splice_out l (ptyDataListeners c)\<rparr>"

interpretation frame_listeners: observer_registry frameListeners onFrame disposeFrameListener
  by unfold_locales (simp_all add: onFrame_def disposeFrameListener_def splice_out_remove1)

interpretation pty_listeners: observer_registry ptyDataListeners onPtyData disposePtyListener
  by unfold_locales (simp_all add: onPtyData_def disposePtyListener_def splice_out_remove1)

subsection \<open>The ready promise\<close>

text \<open>A promise is settled by the first call of its resolver or rejecter.\<close>

definition settle :: "promise \<Rightarrow> client \<Rightarrow> client" where
  "settle p c = (if readyPromise c = Some Pending then c\<lparr>readyPromise := Some p\<rparr> else c)"

definition cancelReadyTimeout :: "client \<Rightarrow> client" where
  "cancelReadyTimeout c = (if readyTimer c then c\<lparr>readyTimer := False\<rparr> else c)"

definition completeReady :: "client \<Rightarrow> client" where
  "completeReady c0 =
     (let c = (cancelReadyTimeout c0)\<lparr>isReady := True\<rparr> in
      if readyResolve c then settle Resolved (c\<lparr>readyResolve := False, readyReject := False\<rparr>) else c)"

definition failReady :: "string \<Rightarrow> client \<Rightarrow> client" where
  "failReady err c0 =
     (let c = cancelReadyTimeout c0 in
      if readyReject c then settle (Rejected err) (c\<lparr>readyResolve := False, readyReject := False\<rparr>) else c)"

subsection \<open>Reading attributes and versions\<close>

text \<open>One attribute of a log record: \<open>for (const a of attrs)\<close> over an array finds the
  first entry with the key and a string or integer value; over a non-empty string it visits
  characters, which are not objects; over any other truthy value it throws.\<close>

definition attr_value :: "string \<Rightarrow> jsv \<Rightarrow> string option" where
  "attr_value key a =
     (if is_objectlike a \<and> jprop a ''key'' = JStr key
      then (let v = jprop a ''value'' in
            case jprop v ''stringValue'' of JStr s \<Rightarrow> Some s
          | _ \<Rightarrow> (case jprop v ''intValue'' of JStr s \<Rightarrow> Some s | _ \<Rightarrow> None))
      else None)"

fun first_attr :: "string \<Rightarrow> jsv list \<Rightarrow> string option" where
  "first_attr key [] = None"
| "first_attr key (a # as) = (case attr_value key a of Some s \<Rightarrow> Some s | None \<Rightarrow> first_attr key as)"

definition readAttr :: "jsv \<Rightarrow> string \<Rightarrow> string + string option" where
  "readAttr attrs key =
     (if \<not> truthy attrs then Inr None
      else case attrs of
        JArr as \<Rightarrow> Inr (first_attr key as)
      | JStr _ \<Rightarrow> Inr None
      | _ \<Rightarrow> Inl ''TypeError: attrs is not iterable'')"

definition compareVersions :: "string \<Rightarrow> string \<Rightarrow> drift_severity option" where
  "compareVersions e o1 =
     (if e = o1 then None
      else (let es = split_char CHR ''.'' e; os = split_char CHR ''.'' o1;
                minor = (\<lambda>xs. case xs of _ # m # _ \<Rightarrow> Some m | _ \<Rightarrow> None) in
            if hd es = [] \<or> hd os = [] then Some Unknown
            else if hd es \<noteq> hd os then Some Major_mismatch
            else if minor es \<noteq> minor os then Some Minor_mismatch
            else Some Unknown))"

definition severity_text :: "drift_severity \<Rightarrow> string" where
  "severity_text s = (case s of Major_mismatch \<Rightarrow> ''major_mismatch'' | Minor_mismatch \<Rightarrow> ''minor_mismatch'' | Unknown \<Rightarrow> ''unknown'')"

text \<open>The drift events of a record whose attributes are iterable, in the order of the
  version table.\<close>

definition drift_of :: "(string \<Rightarrow> string option) \<Rightarrow> string \<times> string \<Rightarrow> drift_event list" where
  "drift_of rd kv =
     (let fullKey = ''llmnb.kernel.'' @ fst kv in
      case rd fullKey of
        None \<Rightarrow> []
      | Some obs \<Rightarrow>
          if obs = [] then []
          else case compareVersions (snd kv) obs of
            None \<Rightarrow> []
          | Some d \<Rightarrow> [\<lparr>attribute = fullKey, expected = snd kv, observed = obs, severity = d\<rparr>])"

definition drift_effects :: "drift_event \<Rightarrow> effect list" where
  "drift_effects ev =
     [Fire ev,
      Log (if severity ev = Major_mismatch then LError else LWarn)
        (''[pty-kernel] drift on '' @ attribute ev @ '': expected='' @ expected ev @
         '' observed='' @ observed ev @ '' severity='' @ severity_text (severity ev))]"

definition handleReadyRecord :: "kenv \<Rightarrow> (string \<Rightarrow> string option) \<Rightarrow> client \<Rightarrow> client \<times> effect list" where
  "handleReadyRecord E rd c =
     (let session = (case rd ''llmnb.kernel.session_id'' of
            Some s \<Rightarrow> if s \<noteq> [] \<and> s \<noteq> sessionId (config E)
                      then [Log LWarn (''[pty-kernel] K4 ready session_id mismatch: observed='' @ [QUOTE] @ s @
                              [QUOTE] @ '' expected='' @ [QUOTE] @ sessionId (config E) @ [QUOTE])] else []
          | None \<Rightarrow> []);
          drifts = concat (map (drift_of rd) EXTENSION_RFC_VERSIONS)
      in (completeReady (c\<lparr>driftEvents := driftEvents c @ drifts\<rparr>),
          session @ concat (map drift_effects drifts)))"

subsection \<open>Dispatch of one frame\<close>

definition terminal_payload :: "jsv \<Rightarrow> bool" where
  "terminal_payload p \<longleftrightarrow>
     is_string (jprop p ''endTimeUnixNano'') \<and>
     jprop (jprop p ''status'') ''code'' \<noteq> JStr ''STATUS_CODE_UNSET''"

text \<open>The sink that \<open>executeCell\<close> installs: forward, then resolve on a terminal payload.\<close>

definition active_emit :: "kenv \<Rightarrow> nat \<Rightarrow> jsv \<Rightarrow> effect list \<times> string option" where
  "active_emit E x p =
     (case sink_beh E x p of
        Some err \<Rightarrow> ([Sink_emit x p], Some err)
      | None \<Rightarrow> (Sink_emit x p # (if terminal_payload p then [Terminal x] else []), None))"

definition routeSpan :: "kenv \<Rightarrow> jsv \<Rightarrow> client \<Rightarrow> client outcome" where
  "routeSpan E sp c0 =
     (let c = (case jprop sp ''traceId'' of JStr t \<Rightarrow> c0\<lparr>lastTraceId := Some t\<rparr> | _ \<Rightarrow> c0) in
      case activeRunSink c of
        Some x \<Rightarrow>
          (case active_emit E x sp of
             (evs, Some err) \<Rightarrow> (c, evs @ [Log LError (''[pty-kernel] sink.emit threw: '' @ err)], None)
           | (evs, None) \<Rightarrow> (c, evs, None))
      | None \<Rightarrow> (let (evs, exn) = routeRunMime (krouter E) (beh E) sp in (c, map Rt evs, exn)))"

definition pty_routeLogRecord :: "kenv \<Rightarrow> jsv \<Rightarrow> client \<Rightarrow> client outcome" where
  "pty_routeLogRecord E record c =
     (case readAttr (jprop record ''attributes'') ''event.name'' of
        Inl err \<Rightarrow> (c, [], Some err)
      | Inr name \<Rightarrow>
          (let rd = (\<lambda>k. case readAttr (jprop record ''attributes'') k of Inr v \<Rightarrow> v | Inl _ \<Rightarrow> None);
               (c', evs) = (if name = Some ''kernel.ready'' \<and> readyResolve c then handleReadyRecord E rd c else (c, []))
           in (c', evs @ map Rt (routeLogRecord (krouter E) (beh E) record), None)))"

definition routeEnvelope :: "kenv \<Rightarrow> jsv \<Rightarrow> client \<Rightarrow> client outcome" where
  "routeEnvelope E env c =
     (if commSink c then (c, [Comm_emit env], comm_beh E env)
      else (let (evs, exn) = route (krouter E) (beh E) env in (c, map Rt evs, exn)))"

fun notify_frame :: "kenv \<Rightarrow> jsv \<Rightarrow> nat list \<Rightarrow> effect list" where
  "notify_frame E f [] = []"
| "notify_frame E f (l # ls) =
     Frame_listener l f #
       (case listener_beh E l f of
          Some err \<Rightarrow> [Log LWarn (''[pty-kernel] frame listener raised: '' @ err)]
        | None \<Rightarrow> []) @ notify_frame E f ls"

definition frame_kind_of :: "jsv \<Rightarrow> frame_kind" where
  "frame_kind_of f =
     (if is_string (jprop f ''spanId'') then Span
      else if is_string (jprop f ''timeUnixNano'') \<and> is_number (jprop f ''severityNumber'') then Log_record
      else if is_string (jprop f ''type'') \<and> jprop f ''payload'' \<noteq> JUndef \<and> jprop f ''payload'' \<noteq> JNull then Envelope
      else Malformed)"

definition dispatchFrame :: "kenv \<Rightarrow> jsv \<Rightarrow> client \<Rightarrow> client outcome" where
  "dispatchFrame E f c =
     (case frame_kind_of f of
        Span \<Rightarrow> routeSpan E f c
      | Log_record \<Rightarrow> pty_routeLogRecord E f c
      | Envelope \<Rightarrow> routeEnvelope E f c
      | Malformed \<Rightarrow> (c, [Log LWarn (''[pty-kernel] K8 frame had no recognized shape: keys='' @
                                     join '','' (map fst (entries f)))], None))"

definition dispatchLine :: "kenv \<Rightarrow> string \<Rightarrow> client \<Rightarrow> frame_kind \<times> client outcome" where
  "dispatchLine E line c =
     (case JSON_parse line of
        None \<Rightarrow> (Malformed, c, [Log LWarn (''[pty-kernel] K8 malformed JSON on data plane: '' @ json_error E line)], None)
      | Some f \<Rightarrow>
          if \<not> is_objectlike f
          then (Malformed, c, [Log LWarn ''[pty-kernel] K8 frame is not an object''], None)
          else (let (c', evs, exn) = dispatchFrame E f c
                in (frame_kind_of f, c', notify_frame E f (frameListeners c) @ evs, exn)))"

subsection \<open>Framing\<close>

text \<open>\<open>line.replace(/\r$/, '')\<close>.\<close>

definition strip_cr :: "string \<Rightarrow> string" where
  "strip_cr l = (if l \<noteq> [] \<and> last l = CR then butlast l else l)"

definition handle_line :: "kenv \<Rightarrow> string \<Rightarrow> client \<Rightarrow> client outcome" where
  "handle_line E line c = (if strip_cr line = [] then (c, [], None) else snd (dispatchLine E (strip_cr line) c))"

definition and_then :: "'c \<times> 'e list \<times> 'x option \<Rightarrow> ('c \<Rightarrow> 'c \<times> 'e list \<times> 'x option) \<Rightarrow> 'c \<times> 'e list \<times> 'x option" where
  "and_then r k =
     (case r of
        (c, evs, Some x) \<Rightarrow> (c, evs, Some x)
      | (c, evs, None) \<Rightarrow> (let (c', evs', x) = k c in (c', evs @ evs', x)))"

lemma and_then_cong [fundef_cong]:
  "r = r' \<Longrightarrow> (\<And>c evs. r' = (c, evs, None) \<Longrightarrow> k c = k' c) \<Longrightarrow> and_then r k = and_then r' k'"
  by (auto simp: and_then_def split: prod.splits option.splits)

text \<open>None of the dispatch functions touches the input buffer.\<close>

lemma ready_buffer [simp]:
  "incomingBuffer (settle p c) = incomingBuffer c"
  "incomingBuffer (cancelReadyTimeout c) = incomingBuffer c"
  "incomingBuffer (completeReady c) = incomingBuffer c"
  "incomingBuffer (failReady e c) = incomingBuffer c"
  by (simp_all add: settle_def cancelReadyTimeout_def completeReady_def failReady_def Let_def)

lemmas dispatch_defs = dispatchLine_def dispatchFrame_def routeSpan_def pty_routeLogRecord_def
  routeEnvelope_def handleReadyRecord_def

lemma dispatchLine_buffer:
  "snd (dispatchLine E line c) = (c', evs, x) \<Longrightarrow> incomingBuffer c' = incomingBuffer c"
  by (auto simp: dispatch_defs Let_def split: option.splits frame_kind.splits if_splits jsv.splits prod.splits sum.splits)

lemma handle_line_buffer: "handle_line E line c = (c', evs, x) \<Longrightarrow> incomingBuffer c' = incomingBuffer c"
  by (auto simp: handle_line_def dest: dispatchLine_buffer split: if_splits)

lemma tl_dropWhile_shorter: "x \<in> set b \<Longrightarrow> length (tl (dropWhile (\<lambda>d. d \<noteq> x) b)) < length b"
proof -
  assume "x \<in> set b"
  then have "0 < length b" by (cases b) auto
  then show ?thesis using length_dropWhile_le [of "\<lambda>d. d \<noteq> x" b] unfolding length_tl by linarith
qed

text \<open>The loop of \<open>onSocketData\<close>. An exception leaves the rest in the buffer.\<close>

function drain :: "kenv \<Rightarrow> client \<Rightarrow> client outcome" where
  "drain E c =
     (let b = incomingBuffer c in
      if LF \<in> set b
      then and_then (handle_line E (takeWhile (\<lambda>d. d \<noteq> LF) b)
                       (c\<lparr>incomingBuffer := tl (dropWhile (\<lambda>d. d \<noteq> LF) b)\<rparr>))
             (drain E)
      else (c, [], None))"
  by auto
termination
proof (relation "measure (\<lambda>(E, c). length (incomingBuffer c))", goal_cases)
  case 1
  then show ?case by simp
next
  case (2 E c b c' evs)
  then have "incomingBuffer c' = tl (dropWhile (\<lambda>d. d \<noteq> LF) b)"
    by (auto dest: handle_line_buffer)
  moreover have "length (tl (dropWhile (\<lambda>d. d \<noteq> LF) b)) < length b"
    using 2 by (intro tl_dropWhile_shorter) simp
  ultimately show ?case using 2 by simp
qed

declare drain.simps [simp del]

definition onSocketData :: "kenv \<Rightarrow> string \<Rightarrow> client \<Rightarrow> client outcome" where
  "onSocketData E text c = drain E (c\<lparr>incomingBuffer := incomingBuffer c @ text\<rparr>)"

subsection \<open>Outbound frames\<close>

definition writeFrameDirect :: "jsv \<Rightarrow> client \<Rightarrow> effect list" where
  "writeFrameDirect frame c =
     (if \<not> socket c then []
      else case JSON_stringify None frame of
        None \<Rightarrow> [Log LError ''[pty-kernel] outbound JSON.stringify failed: TypeError: Do not know how to serialize a BigInt'']
      | Some text \<Rightarrow> [Wire (text @ [LF])])"

definition writeFrame :: "jsv \<Rightarrow> client \<Rightarrow> client \<times> effect list" where
  "writeFrame frame c =
     (if \<not> socket c then (c\<lparr>outboundBuffer := outboundBuffer c @ [frame]\<rparr>, [])
      else (c, writeFrameDirect frame c))"

definition sendEnvelope :: "jsv \<Rightarrow> client \<Rightarrow> client \<times> effect list" where
  "sendEnvelope envelope c = writeFrame envelope c"

text \<open>The connection callback: the first connection becomes the socket and receives the
  buffered frames in order; a later one is refused.\<close>

definition onConnection :: "client \<Rightarrow> client \<times> effect list" where
  "onConnection c =
     (if socket c then (c, [Log LWarn ''[pty-kernel] K10 second client rejected'', Reject_second])
      else (let c1 = c\<lparr>socket := True\<rparr>
            in (c1\<lparr>outboundBuffer := []\<rparr>, concat (map (\<lambda>env. writeFrameDirect env c1) (outboundBuffer c1)))))"

subsection \<open>Executing a cell\<close>

record execute_request =
  cellUri :: string
  cell_text :: string
  directive :: "cell_directive option"

definition operator_action :: "(string \<times> jsv) list \<Rightarrow> jsv" where
  "operator_action payload = JObj [(''type'', JStr ''operator.action''), (''payload'', JObj payload)]"

definition cell_magic_envelope :: "string \<Rightarrow> string \<Rightarrow> string \<Rightarrow> string \<Rightarrow> jsv" where
  "cell_magic_envelope uri cell_kind magic args =
     operator_action
       [(''action_type'', JStr ''set_cell_metadata''), (''intent_kind'', JStr ''set_cell_metadata''),
        (''parameters'', JObj [(''cell_id'', JStr uri), (''kind'', JStr cell_kind),
                               (''magic'', JStr magic), (''args'', JStr args)]),
        (''originating_cell_id'', JStr uri)]"

definition section_magic_envelope :: "string \<Rightarrow> string \<Rightarrow> string \<Rightarrow> string \<Rightarrow> string \<Rightarrow> jsv" where
  "section_magic_envelope rnd uri cell_kind magic args =
     (let parsed = parseSectionMagicArgs args in
      case sa_title parsed of
        Some title \<Rightarrow>
          if title = [] then cell_magic_envelope uri cell_kind magic args
          else (let sectionId = (case sa_section_id parsed of Some i \<Rightarrow> i | None \<Rightarrow> mintSectionIdFromTitle rnd title)
                in operator_action
                  [(''action_type'', JStr ''zone_mutate''), (''intent_kind'', JStr ''apply_overlay_commit''),
                   (''parameters'', JObj
                     [(''operations'', JArr [JObj [(''kind'', JStr ''create_section''), (''section_id'', JStr sectionId),
                                                   (''title'', JStr title)]]),
                      (''message'', JStr (''@@section '' @ title))]),
                   (''intent_id'', JStr (''sec-cell-'' @ take 12 sectionId)),
                   (''originating_cell_id'', JStr uri)])
      | None \<Rightarrow> cell_magic_envelope uri cell_kind magic args)"

definition line_magic_envelope ::
  "string \<Rightarrow> string \<Rightarrow> string \<Rightarrow> string list option \<Rightarrow> string list option \<Rightarrow> jsv" where
  "line_magic_envelope uri magic args set_flags unset_flags =
     (let params = [(''cell_id'', JStr uri), (''magic'', JStr magic), (''args'', JStr args)];
          with_set = fold (\<lambda>f. js_assign f (JBool True)) (case set_flags of Some fs \<Rightarrow> fs | None \<Rightarrow> []) params;
          with_unset = fold (\<lambda>f. js_assign f (JBool False)) (case unset_flags of Some fs \<Rightarrow> fs | None \<Rightarrow> []) with_set
      in operator_action
           [(''action_type'', JStr ''set_cell_metadata''), (''intent_kind'', JStr ''set_cell_metadata''),
            (''parameters'', JObj with_unset), (''originating_cell_id'', JStr uri)])"

definition agent_envelope :: "string \<Rightarrow> string \<Rightarrow> string \<Rightarrow> string \<Rightarrow> bool \<Rightarrow> jsv" where
  "agent_envelope uri agent_id field value is_spawn =
     operator_action
       ((''action_type'', JStr (if is_spawn then ''agent_spawn'' else ''agent_continue'')) #
        (if is_spawn then [] else [(''intent_kind'', JStr ''send_user_turn'')]) @
        [(''parameters'', JObj [(''agent_id'', JStr agent_id), (field, JStr value), (''cell_id'', JStr uri)]),
         (''originating_cell_id'', JStr uri)])"

text \<open>The envelope of a request, and whether the call then waits for a terminal span. The
  endpoint of a spawn directive is not sent.\<close>

definition execute_envelope :: "string \<Rightarrow> execute_request \<Rightarrow> jsv \<times> bool" where
  "execute_envelope rnd req =
     (let uri = cellUri req in
      case directive req of
        Some (Spawn a t _) \<Rightarrow> (agent_envelope uri a ''task'' t True, True)
      | Some (Continue a t) \<Rightarrow> (agent_envelope uri a ''text'' t False, True)
      | Some (Line_Magic magic args fs us) \<Rightarrow> (line_magic_envelope uri magic args fs us, False)
      | Some (Cell_Magic magic args kind) \<Rightarrow>
          (if magic = ''section'' then section_magic_envelope rnd uri kind magic args
           else cell_magic_envelope uri kind magic args, False)
      | None \<Rightarrow>
          (operator_action
             [(''action_type'', JStr ''cell_edit''),
              (''parameters'', JObj [(''cell_id'', JStr uri), (''source'', JStr (cell_text req))]),
              (''originating_cell_id'', JStr uri)], False))"

text \<open>The part of \<open>executeCell\<close> after the ready promise has resolved: install the sink
  \<open>x\<close>, write the envelope. The last component says whether the promise stays pending until a
  terminal span or the 60 s timer.\<close>

definition executeCell :: "string \<Rightarrow> nat \<Rightarrow> execute_request \<Rightarrow> client \<Rightarrow> client \<times> effect list \<times> bool" where
  "executeCell rnd x req c =
     (let (env, waits) = execute_envelope rnd req;
          (c', evs) = writeFrame env (c\<lparr>activeRunSink := Some x\<rparr>)
      in (c', evs, waits))"

subsection \<open>Life cycle\<close>

text \<open>\<open>/^tcp:([^:]+):(\d+)$/\<close>: host and port text.\<close>

definition tcp_match :: "string \<Rightarrow> (string \<times> string) option" where
  "tcp_match s =
     (if prefix ''tcp:'' s
      then (let r = drop 4 s; host = takeWhile (\<lambda>c. c \<noteq> CHR '':'') r; port = drop (Suc (length host)) r
            in if host \<noteq> [] \<and> CHR '':'' \<in> set r \<and> port \<noteq> [] \<and> list_all is_digit port then Some (host, port) else None)
      else None)"

text \<open>\<open>start\<close> up to its await: the second call returns the same promise.\<close>

definition start :: "client \<Rightarrow> client" where
  "start c =
     (if readyPromise c \<noteq> None then c
      else c\<lparr>readyPromise := Some Pending, readyResolve := True, readyReject := True,
             server := True, listening := True\<rparr>)"

text \<open>Files of the UDS branch: is there a stale file, do unlinking and chmod fail?\<close>

record fs_world =
  stale :: bool
  unlink_fails :: "string option"
  chmod_fails :: "string option"

definition uds_prepare :: "fs_world \<Rightarrow> effect list" where
  "uds_prepare W =
     (if stale W
      then (case unlink_fails W of Some e \<Rightarrow> [Log LWarn (''[pty-kernel] unlink stale socket failed: '' @ e)] | None \<Rightarrow> [])
      else []) @
     (case chmod_fails W of Some e \<Rightarrow> [Log LWarn (''[pty-kernel] chmod 0600 on UDS failed: '' @ e)] | None \<Rightarrow> [])"

definition bound :: "fs_world \<Rightarrow> nat option \<Rightarrow> client \<Rightarrow> client \<times> effect list" where
  "bound W port c =
     (case tcp_match (socketAddress c) of
        Some (host, _) \<Rightarrow>
          ((case port of
              Some p \<Rightarrow> c\<lparr>listening := False, socketAddress := ''tcp:'' @ host @ '':'' @ show_nat p\<rparr>
            | None \<Rightarrow> c\<lparr>listening := False\<rparr>), [])
      | None \<Rightarrow> (c\<lparr>listening := False\<rparr>, uds_prepare W))"

datatype spawn_result = Spawn_ok | Load_failed string | Spawn_failed string

definition spawnKernel :: "kenv \<Rightarrow> spawn_result \<Rightarrow> client \<Rightarrow> client outcome" where
  "spawnKernel E res c =
     (let argv = (case cfg_argv (config E) of Some a \<Rightarrow> a | None \<Rightarrow> [''-m'', ''llm_kernel'', ''pty-mode'']);
          cwd = (case cfg_cwd (config E) of Some d \<Rightarrow> d
                 | None \<Rightarrow> (case workspace_folder E of Some d \<Rightarrow> d | None \<Rightarrow> process_cwd E))
      in case res of
           Load_failed e \<Rightarrow> (c, [], Some (''node-pty load failed: '' @ e))
         | Spawn_failed e \<Rightarrow> (c, [], Some (''pty.spawn failed: '' @ e))
         | Spawn_ok \<Rightarrow> (c\<lparr>ptyProcess := True\<rparr>, [Spawn_process (pythonPath (config E)) argv cwd (socketAddress c)], None))"

definition armReadyTimeout :: "client \<Rightarrow> client" where
  "armReadyTimeout c = c\<lparr>readyTimer := True\<rparr>"

text \<open>\<open>start\<close> after \<open>listenSocket\<close> resolved, and after it rejected.\<close>

definition start_listening :: "kenv \<Rightarrow> fs_world \<Rightarrow> nat option \<Rightarrow> spawn_result \<Rightarrow> client \<Rightarrow> client outcome" where
  "start_listening E W port res c =
     (let (c1, evs1) = bound W port c in
      case spawnKernel E res c1 of
        (c2, evs2, None) \<Rightarrow> (armReadyTimeout c2, evs1 @ evs2, None)
      | (c2, evs2, Some err) \<Rightarrow> (failReady err c2, evs1 @ evs2, Some err))"

definition start_bind_failed :: "string \<Rightarrow> client \<Rightarrow> client outcome" where
  "start_bind_failed e c =
     (let err = ''socket bind failed: '' @ e in (failReady err (c\<lparr>listening := False\<rparr>), [], Some err))"

definition on_ready_timeout :: "kenv \<Rightarrow> client \<Rightarrow> client \<times> effect list" where
  "on_ready_timeout E c =
     (failReady (''kernel ready handshake timed out after '' @ show_nat (readyTimeoutMs (config E)) @ ''ms'') c,
      if ptyProcess c then [Signal ''SIGTERM''] else [])"

definition dispose :: "client \<Rightarrow> client \<times> effect list" where
  "dispose c =
     ((cancelReadyTimeout c)\<lparr>socket := False, server := False\<rparr>,
      (if socket c then [Close_socket] else []) @ (if server c then [Close_server] else []))"

definition onPtyExit :: "int \<Rightarrow> client \<Rightarrow> client \<times> effect list" where
  "onPtyExit code c =
     (let c1 = (if readyReject c then failReady (''kernel exited before ready handshake (code='' @ show_int code @ '')'') c else c);
          (c2, evs) = dispose c1
      in (c2, Log LInfo (''[pty-kernel] PTY EOF; exitCode='' @ show_int code) # evs))"

definition onSocketEnd :: "client \<Rightarrow> client \<times> effect list" where
  "onSocketEnd c =
     ((if readyReject c then failReady ''data-plane socket closed before ready handshake'' c else c),
      [Log LWarn ''[pty-kernel] K6 data-plane socket EOF''])"

definition interrupt :: "string option \<Rightarrow> client \<Rightarrow> effect list" where
  "interrupt kill_fails c =
     (if \<not> ptyProcess c then [Log LWarn ''[pty-kernel] interrupt(): no PTY process'']
      else Signal ''SIGINT'' #
        (case kill_fails of Some e \<Rightarrow> [Log LError (''[pty-kernel] SIGINT delivery threw: '' @ e)] | None \<Rightarrow> []))"

definition shutdown_frame :: jsv where
  "shutdown_frame = JObj [(''type'', JStr ''kernel.shutdown_request''), (''payload'', JObj [])]"

text \<open>\<open>shutdown\<close> up to its await; without a process it goes on to dispose at once.\<close>

definition shutdown :: "client \<Rightarrow> client \<times> effect list" where
  "shutdown c =
     (if disposed c then (c, [])
      else (let c1 = cancelReadyTimeout (c\<lparr>disposed := True\<rparr>);
                (c2, evs) = writeFrame shutdown_frame c1
            in if ptyProcess c2 then (c2, evs)
               else (let (c3, evs') = dispose c2 in (c3, evs @ evs'))))"

definition shutdown_signal :: "bool \<Rightarrow> client \<Rightarrow> effect list" where
  "shutdown_signal second c = (if ptyProcess c then [Signal (if second then ''SIGKILL'' else ''SIGTERM'')] else [])"

fun dispatchPtyData :: "kenv \<Rightarrow> string \<Rightarrow> nat list \<Rightarrow> effect list" where
  "dispatchPtyData E chunk [] = []"
| "dispatchPtyData E chunk (l # ls) =
     Pty_listener l chunk #
       (case pty_listener_beh E l chunk of
          Some err \<Rightarrow> [Log LError (''[pty-kernel] pty-data listener threw: '' @ err)] | None \<Rightarrow> [])
       @ dispatchPtyData E chunk ls"

end
