(* ===== verification/Pty_Framing.thy ===== *)
theory Pty_Framing
  imports Pty_Client
begin

section \<open>Line framing of the data plane\<close>

text \<open>
  What the kernel client relies on when it reads lines from a byte stream, as an interface,
  and its consequence: how the stream is cut into chunks does not matter. Then the wire
  format itself: what one side writes, the other side dispatches.
\<close>

locale line_framer =
  fixes buf :: "'c \<Rightarrow> string"
    and set_buf :: "string \<Rightarrow> 'c \<Rightarrow> 'c"
    and handle :: "string \<Rightarrow> 'c \<Rightarrow> 'c \<times> 'e list \<times> 'x option"
    and loop :: "'c \<Rightarrow> 'c \<times> 'e list \<times> 'x option"
    and feed :: "string \<Rightarrow> 'c \<Rightarrow> 'c \<times> 'e list \<times> 'x option"
  assumes buf_set [simp]: "buf (set_buf b c) = b"
    and set_set [simp]: "set_buf b (set_buf b' c) = set_buf b c"
    and set_own [simp]: "set_buf (buf c) c = c"
    and handle_set: "handle l (set_buf b c) = (case handle l c of (c', e, x) \<Rightarrow> (set_buf b c', e, x))"
    and loop_line: "LF \<notin> set l \<Longrightarrow> buf c = l @ LF # r \<Longrightarrow> loop c = and_then (handle l (set_buf r c)) loop"
    and loop_done: "LF \<notin> set (buf c) \<Longrightarrow> loop c = (c, [], None)"
    and feed_loop: "feed s c = loop (set_buf (buf c @ s) c)"
begin

lemma split_LF: "LF \<in> set b \<Longrightarrow> \<exists>l r. LF \<notin> set l \<and> b = l @ LF # r"
  by (metis split_list_first)

lemma handle_buf: "handle l c = (c', e, x) \<Longrightarrow> buf c' = buf c"
  using handle_set [of l "buf c" c] by (metis buf_set old.prod.case prod.inject set_own)

lemma loop_append:
  "loop (set_buf (s @ b) c) =
     (case loop (set_buf s c) of
        (c', e, None) \<Rightarrow> (case loop (set_buf (buf c' @ b) c') of (c'', e', x) \<Rightarrow> (c'', e @ e', x))
      | (c', e, Some x) \<Rightarrow> (set_buf (buf c' @ b) c', e, Some x))"
proof (induction "length s" arbitrary: s c rule: less_induct)
  case less
  show ?case
  proof (cases "LF \<in> set s")
    case False
    then show ?thesis by (simp add: loop_done split: prod.splits)
  next
    case True
    then obtain l r where l: "LF \<notin> set l" and s: "s = l @ LF # r" using split_LF by blast
    obtain c1 e1 x1 where h: "handle l c = (c1, e1, x1)" by (metis prod_cases3)
    then have hs: "handle l (set_buf t c) = (set_buf t c1, e1, x1)" for t by (simp add: handle_set)
    have long: "loop (set_buf (s @ b) c) = and_then (set_buf (r @ b) c1, e1, x1) loop"
      using loop_line [OF l, of "set_buf (s @ b) c" "r @ b"] hs s by simp
    have short: "loop (set_buf s c) = and_then (set_buf r c1, e1, x1) loop"
      using loop_line [OF l, of "set_buf s c" r] hs s by simp
    show ?thesis
    proof (cases x1)
      case (Some y)
      then show ?thesis using long short by (simp add: and_then_def)
    next
      case None
      have "loop (set_buf (r @ b) c1) =
        (case loop (set_buf r c1) of
           (c', e, None) \<Rightarrow> (case loop (set_buf (buf c' @ b) c') of (c'', e', x) \<Rightarrow> (c'', e @ e', x))
         | (c', e, Some x) \<Rightarrow> (set_buf (buf c' @ b) c', e, Some x))"
        using less s by simp
      then show ?thesis
        using long short None by (auto simp: and_then_def split: prod.splits option.splits)
    qed
  qed
qed

lemma feed_append:
  assumes "feed s c = (c1, e1, None)"
  shows "feed (s @ t) c = (case feed t c1 of (c2, e2, x) \<Rightarrow> (c2, e1 @ e2, x))"
  using assms loop_append [of "buf c @ s" t c] by (simp add: feed_loop)

text \<open>Feeding chunk after chunk, as long as none throws.\<close>

fun feed_all :: "string list \<Rightarrow> 'c \<Rightarrow> 'c \<times> 'e list \<times> 'x option" where
  "feed_all [] c = (c, [], None)"
| "feed_all (s # ss) c = and_then (feed s c) (feed_all ss)"

lemma feed_Nil: "LF \<notin> set (buf c) \<Longrightarrow> feed [] c = (c, [], None)"
  by (simp add: feed_loop loop_done)

lemma loop_leaves_no_LF: "loop c = (c', e, None) \<Longrightarrow> LF \<notin> set (buf c')"
proof (induction "length (buf c)" arbitrary: c e rule: less_induct)
  case less
  show ?case
  proof (cases "LF \<in> set (buf c)")
    case False
    then show ?thesis using less.prems by (simp add: loop_done)
  next
    case True
    then obtain l r where l: "LF \<notin> set l" and b: "buf c = l @ LF # r" using split_LF by blast
    obtain c1 e1 x1 where h: "handle l (set_buf r c) = (c1, e1, x1)" by (metis prod_cases3)
    then have "buf c1 = r" using handle_buf by fastforce
    moreover obtain e2 where "loop c1 = (c', e2, None)"
      using less.prems loop_line [OF l b] h by (auto simp: and_then_def split: option.splits prod.splits)
    ultimately show ?thesis using less.hyps [of c1] b by simp
  qed
qed

lemma feed_throws:
  assumes "feed s c = (c1, e1, Some x)"
  shows "\<exists>b. feed (s @ t) c = (set_buf b c1, e1, Some x)"
  using assms loop_append [of "buf c @ s" t c] by (auto simp: feed_loop)

text \<open>Up to the first throw the chunks behave as their concatenation; only what is then left in
  the buffer depends on them.\<close>

theorem feed_chunks:
  assumes "LF \<notin> set (buf c)" "feed_all ss c = (c', e, x)"
  shows "\<exists>b. feed (concat ss) c = (set_buf b c', e, x) \<and> (x = None \<longrightarrow> b = buf c' \<and> LF \<notin> set (buf c'))"
  using assms
proof (induction ss arbitrary: c e)
  case Nil
  then show ?case by (auto simp: feed_Nil intro: exI [of _ "buf c'"])
next
  case (Cons s ss)
  obtain c1 e1 x1 where 1: "feed s c = (c1, e1, x1)" by (metis prod_cases3)
  show ?case
  proof (cases x1)
    case (Some y)
    then show ?thesis using Cons.prems(2) 1 feed_throws [of s c c1 e1 y "concat ss"] by (auto simp: and_then_def)
  next
    case None
    then obtain e2 where 2: "feed_all ss c1 = (c', e2, x)" "e = e1 @ e2"
      using Cons.prems(2) 1 by (auto simp: and_then_def split: prod.splits)
    have "LF \<notin> set (buf c1)" using 1 None loop_leaves_no_LF by (simp add: feed_loop)
    from Cons.IH [OF this 2(1)] obtain b where
      b: "feed (concat ss) c1 = (set_buf b c', e2, x)" "x = None \<longrightarrow> b = buf c' \<and> LF \<notin> set (buf c')" by blast
    have "feed (s @ concat ss) c = (set_buf b c', e, x)"
      using feed_append [of s c c1 e1 "concat ss"] 1 None 2(2) b(1) by simp
    then show ?thesis using b(2) by auto
  qed
qed

end

lemma ready_set_buffer:
  "settle p (c\<lparr>incomingBuffer := b\<rparr>) = (settle p c)\<lparr>incomingBuffer := b\<rparr>"
  "cancelReadyTimeout (c\<lparr>incomingBuffer := b\<rparr>) = (cancelReadyTimeout c)\<lparr>incomingBuffer := b\<rparr>"
  by (simp_all add: settle_def cancelReadyTimeout_def)

lemma complete_set_buffer:
  "completeReady (c\<lparr>incomingBuffer := b, driftEvents := d\<rparr>) = (completeReady (c\<lparr>driftEvents := d\<rparr>))\<lparr>incomingBuffer := b\<rparr>"
  by (simp add: completeReady_def Let_def settle_def cancelReadyTimeout_def)

lemma handle_line_set_buffer:
  "handle_line E l (c\<lparr>incomingBuffer := b\<rparr>) =
     (case handle_line E l c of (c', e, x) \<Rightarrow> (c'\<lparr>incomingBuffer := b\<rparr>, e, x))"
proof -
  have "routeSpan E f (c\<lparr>incomingBuffer := b\<rparr>) = (case routeSpan E f c of (c', e, x) \<Rightarrow> (c'\<lparr>incomingBuffer := b\<rparr>, e, x))" for f
    by (auto simp: routeSpan_def Let_def split: jsv.splits option.splits prod.splits)
  moreover have "pty_routeLogRecord E f (c\<lparr>incomingBuffer := b\<rparr>) =
      (case pty_routeLogRecord E f c of (c', e, x) \<Rightarrow> (c'\<lparr>incomingBuffer := b\<rparr>, e, x))" for f
    by (auto simp: pty_routeLogRecord_def handleReadyRecord_def Let_def complete_set_buffer split: sum.splits prod.splits)
  moreover have "routeEnvelope E f (c\<lparr>incomingBuffer := b\<rparr>) =
      (case routeEnvelope E f c of (c', e, x) \<Rightarrow> (c'\<lparr>incomingBuffer := b\<rparr>, e, x))" for f
    by (auto simp: routeEnvelope_def split: prod.splits)
  ultimately show ?thesis
    by (auto simp: handle_line_def dispatchLine_def dispatchFrame_def split: option.splits frame_kind.splits prod.splits)
qed

interpretation wire: line_framer incomingBuffer "\<lambda>b c. c\<lparr>incomingBuffer := b\<rparr>" "handle_line E" "drain E" "onSocketData E"
  for E
proof (unfold_locales, goal_cases)
  case (5 l c r)
  then have "takeWhile (\<lambda>d. d \<noteq> LF) (l @ LF # r) = l" "dropWhile (\<lambda>d. d \<noteq> LF) (l @ LF # r) = LF # r"
    by (auto simp: takeWhile_append dropWhile_append)
  then show ?case using 5 by (subst drain.simps) (simp add: Let_def)
next
  case (6 c)
  then show ?case by (subst drain.simps) simp
qed (simp_all add: handle_line_set_buffer onSocketData_def)

subsection \<open>Properties\<close>

text \<open>Chunk after chunk with the client's own operation.\<close>

fun receive_all :: "kenv \<Rightarrow> string list \<Rightarrow> client \<Rightarrow> client outcome" where
  "receive_all E [] c = (c, [], None)"
| "receive_all E (s # ss) c = and_then (onSocketData E s c) (receive_all E ss)"

lemma receive_all_feed: "receive_all E ss c = wire.feed_all E ss c"
proof (induction ss arbitrary: c)
  case (Cons s ss)
  then have "receive_all E ss = wire.feed_all E ss" by auto
  then show ?case by simp
qed simp

lemma receive_all_concat:
  assumes "LF \<notin> set (incomingBuffer c)" "receive_all E ss c = (c', e, x)"
  shows "\<exists>b. onSocketData E (concat ss) c = (c'\<lparr>incomingBuffer := b\<rparr>, e, x) \<and>
    (x = None \<longrightarrow> b = incomingBuffer c' \<and> LF \<notin> set (incomingBuffer c'))"
  using wire.feed_chunks [OF assms(1), of E ss c' e x] assms(2) by (simp add: receive_all_feed)

lemma same_up_to_buffer:
  fixes c1 c2 :: client
  assumes "c1\<lparr>incomingBuffer := b1\<rparr> = c2\<lparr>incomingBuffer := b2\<rparr>"
  shows "c2 = c1\<lparr>incomingBuffer := incomingBuffer c2\<rparr>"
  using assms by (cases c1; cases c2) simp

text \<open>C11. Chunking does not matter: two ways of cutting the same bytes into chunks, received
  by the same client (whose buffer holds an incomplete line), have the same effects in the same
  order and throw the same exception or none, whatever the lines are. Without an exception they
  end in the same state; up to the first record whose handling throws the states agree except for
  the unprocessed rest in the buffer.\<close>

theorem chunking_irrelevant:
  assumes "concat ss = concat ts" "LF \<notin> set (incomingBuffer c)"
    and "receive_all E ss c = (c1, e1, x1)" "receive_all E ts c = (c2, e2, x2)"
  shows "e1 = e2 \<and> x1 = x2 \<and> c2 = c1\<lparr>incomingBuffer := incomingBuffer c2\<rparr> \<and>
    (x1 = None \<longrightarrow> c1 = c2 \<and> LF \<notin> set (incomingBuffer c1))"
proof -
  obtain b1 where 1: "onSocketData E (concat ss) c = (c1\<lparr>incomingBuffer := b1\<rparr>, e1, x1)"
    "x1 = None \<longrightarrow> b1 = incomingBuffer c1 \<and> LF \<notin> set (incomingBuffer c1)"
    using receive_all_concat [OF assms(2,3)] by blast
  obtain b2 where 2: "onSocketData E (concat ts) c = (c2\<lparr>incomingBuffer := b2\<rparr>, e2, x2)"
    "x2 = None \<longrightarrow> b2 = incomingBuffer c2"
    using receive_all_concat [OF assms(2,4)] by blast
  have "c1\<lparr>incomingBuffer := b1\<rparr> = c2\<lparr>incomingBuffer := b2\<rparr>" "e1 = e2" "x1 = x2"
    using 1(1) 2(1) assms(1) by simp_all
  moreover have "c1\<lparr>incomingBuffer := incomingBuffer c1\<rparr> = c1" "c2\<lparr>incomingBuffer := incomingBuffer c2\<rparr> = c2" by simp_all
  ultimately show ?thesis using 1(2) 2(2) same_up_to_buffer by metis
qed

text \<open>A concrete environment for the witnesses: nothing throws, one outbound subscriber.\<close>

definition demo_config :: pty_config where
  "demo_config = \<lparr>sessionId = ''s1'', pythonPath = ''python'', cfg_cwd = None, cfg_socketAddress = None,
     cfg_argv = None, cfg_readyTimeoutMs = None, cfg_shutdownGraceMs = None\<rparr>"

definition demo_env :: kenv where
  "demo_env = \<lparr>config = demo_config, krouter = subscribeOutbound 7 new_router, beh = (\<lambda>_. None),
     listener_beh = (\<lambda>_ _. None), sink_beh = (\<lambda>_ _. None), comm_beh = (\<lambda>_. None),
     pty_listener_beh = (\<lambda>_ _. None), json_error = (\<lambda>_. ''SyntaxError''), workspace_folder = None,
     process_cwd = ''/''\<rparr>"

definition demo_client :: client where
  "demo_client = new_client True (\<lambda>s. s) demo_config"

lemma demo_buffer: "incomingBuffer demo_client = []"
  by (simp add: demo_client_def new_client_def)

lemma demo_receive:
  "receive_all demo_env [''{'', ''}'' @ [LF], ''x''] demo_client =
     (demo_client\<lparr>incomingBuffer := ''x''\<rparr>, [Log LWarn ''[pty-kernel] K8 frame had no recognized shape: keys=''], None)"
  by code_simp

lemma demo_receive2:
  "receive_all demo_env [''{}'' @ [LF] @ ''x''] demo_client =
     (demo_client\<lparr>incomingBuffer := ''x''\<rparr>, [Log LWarn ''[pty-kernel] K8 frame had no recognized shape: keys=''], None)"
  by code_simp

theorem chunking_irrelevant_witness:
  "receive_all demo_env [''{'', ''}'' @ [LF], ''x''] demo_client = receive_all demo_env [''{}'' @ [LF] @ ''x''] demo_client"
  using chunking_irrelevant [of "[''{'', ''}'' @ [LF], ''x'']" "[''{}'' @ [LF] @ ''x'']" demo_client demo_env]
    demo_receive demo_receive2 demo_buffer by simp

text \<open>What the socket writes carry, and the dispatch of a list of frames without any
  wire between.\<close>

fun wires :: "effect list \<Rightarrow> string list" where
  "wires [] = []"
| "wires (e # es) = (case e of Wire t \<Rightarrow> [t] | _ \<Rightarrow> []) @ wires es"

lemma wires_append [simp]: "wires (xs @ ys) = wires xs @ wires ys"
  by (induction xs) auto

fun dispatch_all :: "kenv \<Rightarrow> jsv list \<Rightarrow> client \<Rightarrow> client outcome" where
  "dispatch_all E [] c = (c, [], None)"
| "dispatch_all E (f # fs) c =
     and_then (case dispatchFrame E f c of (c', evs, x) \<Rightarrow> (c', notify_frame E f (frameListeners c) @ evs, x))
       (dispatch_all E fs)"

lemma frame_text:
  assumes "json_ok f" "socket s"
  shows "writeFrameDirect f s = [Wire (ser None f @ [LF])]"
  using assms by (simp add: writeFrameDirect_def JSON_stringify_def json_ok_no_bigint)

lemma handle_line_frame:
  assumes "json_ok f" "is_objectlike f"
  shows "handle_line E (ser None f) c =
           (case dispatchFrame E f c of (c', evs, x) \<Rightarrow> (c', notify_frame E f (frameListeners c) @ evs, x))"
proof -
  have "ser None f \<noteq> []" using ser_start [OF assms(1)] by blast
  moreover from this have "last (ser None f) \<noteq> CR" using ser_None_one_line [OF assms(1)] last_in_set by metis
  ultimately have "strip_cr (ser None f) = ser None f" by (simp add: strip_cr_def)
  then show ?thesis
    using \<open>ser None f \<noteq> []\<close> assms
    by (simp add: handle_line_def dispatchLine_def JSON_parse_ser split: prod.splits)
qed

lemma drain_frames:
  assumes "list_all (\<lambda>f. json_ok f \<and> is_objectlike f) fs" "dispatch_all E fs c = (c', e, x)" "incomingBuffer c = []"
  shows "\<exists>b. drain E (c\<lparr>incomingBuffer := concat (map (\<lambda>f. ser None f @ [LF]) fs)\<rparr>) = (c'\<lparr>incomingBuffer := b\<rparr>, e, x) \<and>
    (x = None \<longrightarrow> b = [] \<and> incomingBuffer c' = [])"
  using assms
proof (induction fs arbitrary: c e)
  case Nil
  then show ?case by (subst drain.simps) (auto intro!: exI [of _ "[]"])
next
  case (Cons f fs)
  let ?rest = "concat (map (\<lambda>f. ser None f @ [LF]) fs)"
  from Cons.prems(1) have f: "json_ok f" "is_objectlike f" by simp_all
  obtain c1 e1 x1 where h: "handle_line E (ser None f) c = (c1, e1, x1)" by (metis prod_cases3)
  have "LF \<notin> set (ser None f)" using ser_None_one_line [OF f(1)] by blast
  then have step: "drain E (c\<lparr>incomingBuffer := ser None f @ LF # ?rest\<rparr>) =
      and_then (c1\<lparr>incomingBuffer := ?rest\<rparr>, e1, x1) (drain E)"
    using wire.loop_line [of "ser None f" "c\<lparr>incomingBuffer := ser None f @ LF # ?rest\<rparr>" ?rest E]
      handle_line_set_buffer [where E = E and l = "ser None f" and c = c and b = ?rest] by (simp add: h)
  have d: "and_then (c1, e1, x1) (dispatch_all E fs) = (c', e, x)"
    using Cons.prems(2) handle_line_frame [OF f, of E c] h by simp
  show ?case
  proof (cases x1)
    case (Some y)
    then show ?thesis using step d by (auto simp: and_then_def intro: exI [of _ ?rest])
  next
    case None
    then obtain e2 where e2: "dispatch_all E fs c1 = (c', e2, x)" "e = e1 @ e2"
      using d by (auto simp: and_then_def split: prod.splits)
    have "incomingBuffer c1 = []" using handle_line_buffer [OF h] Cons.prems(3) by simp
    with Cons.IH [of c1 e2] Cons.prems(1) e2(1) obtain b where
      "drain E (c1\<lparr>incomingBuffer := ?rest\<rparr>) = (c'\<lparr>incomingBuffer := b\<rparr>, e2, x)" "x = None \<longrightarrow> b = [] \<and> incomingBuffer c' = []"
      by auto
    then show ?thesis using step None e2(2) by (auto simp: and_then_def intro: exI [of _ b])
  qed
qed

lemma wires_frames:
  assumes "socket s" "list_all json_ok fs"
  shows "concat (wires (concat (map (\<lambda>f. writeFrameDirect f s) fs))) = concat (map (\<lambda>f. ser None f @ [LF]) fs)"
  using assms by (induction fs) (simp_all add: frame_text)

text \<open>C5. Wire round trip. Let one client write any list of JSON-safe frames to its socket;
  let another, with an empty buffer, receive the resulting bytes cut in any way. Then the
  receiver dispatches exactly those frames, in order, each after its frame listeners, as if
  they had been handed over without any serialisation: with the same effects, the same exception
  or none, and, up to the first frame whose handling throws, the same state except for the
  unprocessed rest in the buffer (without an exception, the same state).\<close>

theorem wire_roundtrip:
  assumes "socket s" "list_all (\<lambda>f. json_ok f \<and> is_objectlike f) fs" "incomingBuffer c = []"
    and "concat chunks = concat (wires (concat (map (\<lambda>f. writeFrameDirect f s) fs)))"
    and "dispatch_all E fs c = (c', e, x)" "receive_all E chunks c = (c2, e2, x2)"
  shows "e2 = e \<and> x2 = x \<and> c2 = c'\<lparr>incomingBuffer := incomingBuffer c2\<rparr> \<and> (x = None \<longrightarrow> c2 = c')"
proof -
  have "list_all json_ok fs" using assms(2) by (auto simp: list_all_iff)
  then obtain b where b: "onSocketData E (concat chunks) c = (c'\<lparr>incomingBuffer := b\<rparr>, e, x)"
    "x = None \<longrightarrow> b = [] \<and> incomingBuffer c' = []"
    using drain_frames [OF assms(2,5,3)] wires_frames [OF assms(1)] assms(3,4) by (auto simp: onSocketData_def)
  obtain b2 where b2: "onSocketData E (concat chunks) c = (c2\<lparr>incomingBuffer := b2\<rparr>, e2, x2)"
    "x2 = None \<longrightarrow> b2 = incomingBuffer c2"
    using receive_all_concat [of c E chunks c2 e2 x2] assms(3,6) by auto
  have "c'\<lparr>incomingBuffer := b\<rparr> = c2\<lparr>incomingBuffer := b2\<rparr>" "e2 = e" "x2 = x"
    using b(1) b2(1) by simp_all
  moreover have "c'\<lparr>incomingBuffer := incomingBuffer c'\<rparr> = c'" "c2\<lparr>incomingBuffer := incomingBuffer c2\<rparr> = c2" by simp_all
  ultimately show ?thesis using b(2) b2(2) same_up_to_buffer by metis
qed

lemma demo_frame_ok: "list_all (\<lambda>f. json_ok f \<and> is_objectlike f) [JObj [(''k'', JBool True)]]"
  by (simp add: canonical_def)

lemma demo_dispatch:
  "dispatch_all demo_env [JObj [(''k'', JBool True)]] demo_client =
     (demo_client, [Log LWarn ''[pty-kernel] K8 frame had no recognized shape: keys=k''], None)"
  by code_simp

lemma demo_frame_text:
  "concat (wires (concat (map (\<lambda>f. writeFrameDirect f (demo_client\<lparr>socket := True\<rparr>)) [JObj [(''k'', JBool True)]]))) =
     ''{'' @ [QUOTE] @ ''k'' @ [QUOTE] @ '':true}'' @ [LF]"
  by code_simp

lemma demo_receive3:
  "receive_all demo_env [''{'' @ [QUOTE], ''k'' @ [QUOTE] @ '':true}'' @ [LF]] demo_client =
     (demo_client, [Log LWarn ''[pty-kernel] K8 frame had no recognized shape: keys=k''], None)"
  by code_simp

theorem wire_roundtrip_witness:
  "receive_all demo_env [''{'' @ [QUOTE], ''k'' @ [QUOTE] @ '':true}'' @ [LF]] demo_client =
     dispatch_all demo_env [JObj [(''k'', JBool True)]] demo_client"
  using wire_roundtrip [of "demo_client\<lparr>socket := True\<rparr>" "[JObj [(''k'', JBool True)]]" demo_client
      "[''{'' @ [QUOTE], ''k'' @ [QUOTE] @ '':true}'' @ [LF]]" demo_env] demo_frame_ok demo_dispatch demo_receive3
    demo_frame_text demo_buffer
  by simp

end
