(* ===== verification/Pty_Lifecycle.thy ===== *)
theory Pty_Lifecycle
  imports Pty_Framing
begin

section \<open>The life cycle of the kernel client\<close>

text \<open>
  The client as a state machine. An input is one event of the event loop that reaches the
  client: a public call, a socket, process or timer event, or the continuation of an awaited
  promise. \<open>enabled\<close> says when the platform can deliver it (a timer that is armed, a socket
  that exists, a server that has not been closed). Runs are sequences of enabled inputs in
  any order.
\<close>

datatype input =
    In_start
  | In_listening fs_world "nat option" spawn_result
  | In_bind_failed string
  | In_connect
  | In_data string
  | In_socket_end
  | In_pty_data string
  | In_pty_exit int
  | In_ready_timeout
  | In_send jsv
  | In_execute string nat execute_request
  | In_interrupt "string option"
  | In_shutdown
  | In_shutdown_timer bool
  | In_set_comm_sink
  | In_on_frame nat
  | In_dispose_frame nat
  | In_on_pty_data nat
  | In_dispose_pty nat

fun enabled :: "client \<Rightarrow> input \<Rightarrow> bool" where
  "enabled c (In_listening W port res) = (listening c \<and> server c)"
| "enabled c (In_bind_failed e) = (listening c \<and> server c)"
| "enabled c In_connect = (server c \<and> \<not> listening c)"
| "enabled c (In_data s) = socket c"
| "enabled c In_socket_end = socket c"
| "enabled c (In_pty_data s) = ptyProcess c"
| "enabled c (In_pty_exit code) = ptyProcess c"
| "enabled c In_ready_timeout = readyTimer c"
| "enabled c (In_execute rnd x req) = (readyPromise c = Some Resolved)"
| "enabled c (In_shutdown_timer second) = disposed c"
| "enabled c _ = True"

definition plain :: "client \<times> effect list \<Rightarrow> client outcome" where
  "plain r = (fst r, snd r, None)"

fun perform :: "kenv \<Rightarrow> input \<Rightarrow> client \<Rightarrow> client outcome" where
  "perform E In_start c = (start c, [], None)"
| "perform E (In_listening W port res) c = start_listening E W port res c"
| "perform E (In_bind_failed e) c = start_bind_failed e c"
| "perform E In_connect c = plain (onConnection c)"
| "perform E (In_data s) c = onSocketData E s c"
| "perform E In_socket_end c = plain (onSocketEnd c)"
| "perform E (In_pty_data s) c = (c, dispatchPtyData E s (ptyDataListeners c), None)"
| "perform E (In_pty_exit code) c = plain (onPtyExit code c)"
| "perform E In_ready_timeout c = plain (on_ready_timeout E c)"
| "perform E (In_send env) c = plain (sendEnvelope env c)"
| "perform E (In_execute rnd x req) c = (case executeCell rnd x req c of (c', evs, _) \<Rightarrow> (c', evs, None))"
| "perform E (In_interrupt kf) c = (c, interrupt kf c, None)"
| "perform E In_shutdown c = plain (shutdown c)"
| "perform E (In_shutdown_timer second) c = (c, shutdown_signal second c, None)"
| "perform E In_set_comm_sink c = (setCommSink c, [], None)"
| "perform E (In_on_frame l) c = (onFrame l c, [], None)"
| "perform E (In_dispose_frame l) c = (disposeFrameListener l c, [], None)"
| "perform E (In_on_pty_data l) c = (onPtyData l c, [], None)"
| "perform E (In_dispose_pty l) c = (disposePtyListener l c, [], None)"

inductive pstep :: "kenv \<Rightarrow> client \<Rightarrow> input \<Rightarrow> effect list \<Rightarrow> client \<Rightarrow> bool" for E where
  pstepI: "enabled c i \<Longrightarrow> perform E i c = (c', evs, x) \<Longrightarrow> pstep E c i evs c'"

inductive prun :: "kenv \<Rightarrow> client \<Rightarrow> input list \<Rightarrow> effect list \<Rightarrow> client \<Rightarrow> bool" for E c where
  prun_refl: "prun E c [] [] c"
| prun_step: "prun E c is evs c1 \<Longrightarrow> pstep E c1 i evs' c2 \<Longrightarrow> prun E c (is @ [i]) (evs @ evs') c2"

inductive_cases pstepE: "pstep E c i evs c'"

subsection \<open>What input processing keeps\<close>

text \<open>A relation between states and the effects on the way that holds across each
  dispatched line, and is reflexive and transitive, holds across the whole loop.\<close>

lemma drain_rel:
  assumes refl: "\<And>c b. R c [] (c\<lparr>incomingBuffer := b\<rparr>)"
    and trans: "\<And>a e b f c. R a e b \<Longrightarrow> R b f c \<Longrightarrow> R a (e @ f) c"
    and line: "\<And>l c c' evs x. snd (dispatchLine E l c) = (c', evs, x) \<Longrightarrow> R c evs c'"
  shows "drain E c = (c', evs, x) \<Longrightarrow> R c evs c'"
proof (induction "length (incomingBuffer c)" arbitrary: c c' evs x rule: less_induct)
  case less
  have id: "R c [] c" for c using refl [of c "incomingBuffer c"] by simp
  let ?b = "incomingBuffer c"
  let ?l = "takeWhile (\<lambda>d. d \<noteq> LF) ?b" and ?c = "c\<lparr>incomingBuffer := tl (dropWhile (\<lambda>d. d \<noteq> LF) ?b)\<rparr>"
  show ?case
  proof (cases "LF \<in> set ?b")
    case False
    then show ?thesis using less.prems id by (subst (asm) drain.simps) simp
  next
    case True
    obtain c1 e1 x1 where h: "handle_line E ?l ?c = (c1, e1, x1)" by (metis prod_cases3)
    then have "R ?c e1 c1" using id line by (auto simp: handle_line_def split: if_splits)
    then have r1: "R c e1 c1" using trans [OF refl] by fastforce
    have d: "and_then (c1, e1, x1) (drain E) = (c', evs, x)"
      using less.prems True h by (subst (asm) drain.simps) (simp add: Let_def)
    show ?thesis
    proof (cases x1)
      case (Some y)
      then show ?thesis using d r1 by (simp add: and_then_def)
    next
      case None
      then obtain e2 where e2: "drain E c1 = (c', e2, x)" "evs = e1 @ e2"
        using d by (auto simp: and_then_def split: prod.splits)
      have "length (incomingBuffer c1) < length ?b"
        using handle_line_buffer [OF h] tl_dropWhile_shorter [OF True] by simp
      then show ?thesis using less.hyps e2 trans [OF r1] by blast
    qed
  qed
qed

subsection \<open>The ready promise\<close>

text \<open>Resolver and rejecter are kept exactly while the promise is pending, \<open>isReady\<close> means
  resolved, and the timer runs only while the promise is pending and the kernel process
  exists.\<close>

definition ready_inv :: "client \<Rightarrow> bool" where
  "ready_inv c \<longleftrightarrow>
     (readyResolve c \<longleftrightarrow> readyPromise c = Some Pending) \<and>
     (readyReject c \<longleftrightarrow> readyPromise c = Some Pending) \<and>
     (isReady c \<longleftrightarrow> readyPromise c = Some Resolved) \<and>
     (readyTimer c \<longrightarrow> readyPromise c = Some Pending \<and> ptyProcess c) \<and>
     (listening c \<longrightarrow> readyPromise c = Some Pending \<and> \<not> ptyProcess c) \<and>
     (ptyProcess c \<or> server c \<or> socket c \<longrightarrow> readyPromise c \<noteq> None) \<and>
     (socket c \<longrightarrow> \<not> listening c)"

definition settled :: "client \<Rightarrow> bool" where
  "settled c \<longleftrightarrow> readyPromise c \<noteq> None \<and> readyPromise c \<noteq> Some Pending"

text \<open>What dispatching keeps: the connection, the invariant, a settled promise; it writes
  nothing to the socket.\<close>

definition dispatch_keeps :: "client \<Rightarrow> effect list \<Rightarrow> client \<Rightarrow> bool" where
  "dispatch_keeps c evs c' \<longleftrightarrow>
     socket c' = socket c \<and> server c' = server c \<and> listening c' = listening c \<and> disposed c' = disposed c \<and>
     ptyProcess c' = ptyProcess c \<and> outboundBuffer c' = outboundBuffer c \<and> socketAddress c' = socketAddress c \<and>
     (settled c \<longrightarrow> readyPromise c' = readyPromise c) \<and>
     (socket c \<longrightarrow> ready_inv c \<longrightarrow> ready_inv c') \<and> wires evs = []"

lemma wires_Rt [simp]: "wires (map Rt es) = []"
  by (induction es) auto

lemma wires_notify [simp]: "wires (notify_frame E f ls) = []"
  by (induction ls) (auto split: option.splits)

lemma wires_drift [simp]: "wires (concat (map drift_effects ds)) = []"
  by (induction ds) (auto simp: drift_effects_def)

lemma wires_pty [simp]: "wires (dispatchPtyData E s ls) = []"
  by (induction ls) (auto split: option.splits)

lemma keeps_complete:
  "readyResolve c \<Longrightarrow> wires evs = [] \<Longrightarrow> dispatch_keeps c evs (completeReady (c\<lparr>driftEvents := d\<rparr>))"
  by (auto simp: dispatch_keeps_def completeReady_def settle_def cancelReadyTimeout_def Let_def settled_def ready_inv_def)

lemma keeps_refl: "wires evs = [] \<Longrightarrow> dispatch_keeps c evs c"
  by (simp add: dispatch_keeps_def)

lemma keeps_trace: "wires evs = [] \<Longrightarrow> dispatch_keeps c evs (c\<lparr>lastTraceId := t\<rparr>)"
  by (simp add: dispatch_keeps_def settled_def ready_inv_def)

lemma dispatchFrame_keeps: "dispatchFrame E f c = (c', evs, x) \<Longrightarrow> dispatch_keeps c evs c'"
proof (cases "frame_kind_of f")
  case Span
  assume "dispatchFrame E f c = (c', evs, x)"
  with Span show ?thesis
    by (auto simp: dispatchFrame_def routeSpan_def Let_def active_emit_def intro!: keeps_refl keeps_trace
        split: jsv.splits option.splits prod.splits if_splits)
next
  case Log_record
  assume "dispatchFrame E f c = (c', evs, x)"
  with Log_record show ?thesis
    by (auto simp: dispatchFrame_def pty_routeLogRecord_def handleReadyRecord_def Let_def
        intro!: keeps_refl keeps_complete split: sum.splits prod.splits if_splits option.splits)
next
  case Envelope
  assume "dispatchFrame E f c = (c', evs, x)"
  with Envelope show ?thesis
    by (auto simp: dispatchFrame_def routeEnvelope_def intro!: keeps_refl split: prod.splits if_splits)
next
  case Malformed
  assume "dispatchFrame E f c = (c', evs, x)"
  with Malformed show ?thesis by (auto simp: dispatchFrame_def intro!: keeps_refl)
qed

lemma keeps_prefix: "wires es = [] \<Longrightarrow> dispatch_keeps c evs c' \<Longrightarrow> dispatch_keeps c (es @ evs) c'"
  by (simp add: dispatch_keeps_def)

lemma dispatchLine_keeps: "snd (dispatchLine E l c) = (c', evs, x) \<Longrightarrow> dispatch_keeps c evs c'"
  by (auto simp: dispatchLine_def keeps_refl keeps_prefix dest: dispatchFrame_keeps
      split: option.splits if_splits prod.splits)

lemma keeps_trans: "dispatch_keeps a e b \<Longrightarrow> dispatch_keeps b f c \<Longrightarrow> dispatch_keeps a (e @ f) c"
  by (auto simp: dispatch_keeps_def settled_def)

lemma keeps_buffer: "dispatch_keeps c [] (c\<lparr>incomingBuffer := b\<rparr>)"
  by (simp add: dispatch_keeps_def settled_def ready_inv_def)

lemma drain_keeps: "drain E c = (c', evs, x) \<Longrightarrow> dispatch_keeps c evs c'"
  by (rule drain_rel [of dispatch_keeps E]) (rule keeps_buffer, erule (1) keeps_trans, erule dispatchLine_keeps)

lemma onSocketData_keeps: "onSocketData E s c = (c', evs, x) \<Longrightarrow> dispatch_keeps c evs c'"
proof -
  assume "onSocketData E s c = (c', evs, x)"
  then have "dispatch_keeps (c\<lparr>incomingBuffer := incomingBuffer c @ s\<rparr>) evs c'"
    unfolding onSocketData_def by (rule drain_keeps)
  from keeps_trans [OF keeps_buffer this] show ?thesis by simp
qed

subsection \<open>Every input keeps the invariant\<close>

lemmas promise_defs = failReady_def completeReady_def settle_def cancelReadyTimeout_def armReadyTimeout_def

lemma writeFrame_fields [simp]:
  "readyPromise (fst (writeFrame f c)) = readyPromise c" "ptyProcess (fst (writeFrame f c)) = ptyProcess c"
  "disposed (fst (writeFrame f c)) = disposed c" "socket (fst (writeFrame f c)) = socket c"
  "server (fst (writeFrame f c)) = server c" "ready_inv (fst (writeFrame f c)) = ready_inv c"
  by (simp_all add: writeFrame_def ready_inv_def)

text \<open>Failing keeps the invariant and settles a pending promise.\<close>

lemma failReady_inv: "ready_inv c \<Longrightarrow> ready_inv (failReady e (c\<lparr>listening := False\<rparr>))"
  by (simp add: ready_inv_def promise_defs Let_def)

lemma failReady_inv': "ready_inv c \<Longrightarrow> \<not> listening c \<Longrightarrow> ready_inv (failReady e c)"
  by (simp add: ready_inv_def promise_defs Let_def)

lemma bound_fields [simp]:
  "readyPromise (fst (bound W port c)) = readyPromise c" "readyResolve (fst (bound W port c)) = readyResolve c"
  "readyReject (fst (bound W port c)) = readyReject c" "readyTimer (fst (bound W port c)) = readyTimer c"
  "isReady (fst (bound W port c)) = isReady c" "ptyProcess (fst (bound W port c)) = ptyProcess c"
  "server (fst (bound W port c)) = server c" "socket (fst (bound W port c)) = socket c"
  "listening (fst (bound W port c)) = False" "outboundBuffer (fst (bound W port c)) = outboundBuffer c"
  "disposed (fst (bound W port c)) = disposed c"
  by (simp_all add: bound_def split: option.split prod.split)

lemma spawnKernel_cases:
  "(\<exists>evs. spawnKernel E res c = (c\<lparr>ptyProcess := True\<rparr>, evs, None) \<and> wires evs = []) \<or>
   (\<exists>err. spawnKernel E res c = (c, [], Some err))"
  by (simp add: spawnKernel_def Let_def split: spawn_result.split)

lemma wires_uds: "wires (snd (bound W port c)) = []"
  by (simp add: bound_def uds_prepare_def split: option.split prod.split)

lemma start_listening_cases:
  "(\<exists>evs. start_listening E W port res c = (armReadyTimeout ((fst (bound W port c))\<lparr>ptyProcess := True\<rparr>), evs, None) \<and> wires evs = []) \<or>
   (\<exists>err evs. start_listening E W port res c = (failReady err (fst (bound W port c)), evs, Some err) \<and> wires evs = [])"
  using spawnKernel_cases [of E res "fst (bound W port c)"] wires_uds [of W port c]
  by (cases "bound W port c") (auto simp: start_listening_def)

lemma inv_armed: "ready_inv c \<Longrightarrow> listening c \<Longrightarrow> ready_inv (armReadyTimeout ((fst (bound W port c))\<lparr>ptyProcess := True\<rparr>))"
  by (simp add: ready_inv_def armReadyTimeout_def)

lemma inv_bound: "ready_inv c \<Longrightarrow> ready_inv (fst (bound W port c))"
  by (simp add: ready_inv_def)

lemma inv_dispose: "ready_inv c \<Longrightarrow> ready_inv (fst (dispose c))"
  by (simp add: ready_inv_def dispose_def cancelReadyTimeout_def) blast

lemma inv_cancel: "ready_inv c \<Longrightarrow> ready_inv (cancelReadyTimeout (c\<lparr>disposed := d\<rparr>))"
  by (simp add: ready_inv_def cancelReadyTimeout_def) blast

lemma inv_shutdown: "ready_inv c \<Longrightarrow> ready_inv (fst (shutdown c))"
  by (simp add: shutdown_def Let_def case_prod_beta inv_cancel inv_dispose)

lemma inv_start: "ready_inv c \<Longrightarrow> ready_inv (start c)"
  by (simp add: start_def ready_inv_def) fastforce

lemma inv_connect: "ready_inv c \<Longrightarrow> enabled c In_connect \<Longrightarrow> ready_inv (fst (onConnection c))"
  by (simp add: onConnection_def ready_inv_def Let_def)

lemma inv_not_listening: "ready_inv c \<Longrightarrow> ptyProcess c \<or> readyTimer c \<or> socket c \<Longrightarrow> \<not> listening c"
  unfolding ready_inv_def by blast

lemma inv_exit: "ready_inv c \<Longrightarrow> ptyProcess c \<Longrightarrow> ready_inv (fst (onPtyExit code c))"
proof -
  assume c: "ready_inv c" "ptyProcess c"
  then have "\<not> listening c" by (simp add: ready_inv_def)
  with c have "ready_inv (fst (dispose (if readyReject c then failReady e c else c)))" for e
    by (intro inv_dispose) (simp add: failReady_inv')
  then show ?thesis by (simp only: onPtyExit_def Let_def case_prod_beta fst_conv)
qed

lemma inv_socket_end: "ready_inv c \<Longrightarrow> socket c \<Longrightarrow> ready_inv (fst (onSocketEnd c))"
  by (simp add: onSocketEnd_def failReady_inv' inv_not_listening)

lemma inv_timeout: "ready_inv c \<Longrightarrow> readyTimer c \<Longrightarrow> ready_inv (fst (on_ready_timeout E c))"
  by (simp add: on_ready_timeout_def failReady_inv' inv_not_listening)

lemma inv_same: "ready_inv (setCommSink c) = ready_inv c" "ready_inv (onFrame l c) = ready_inv c"
  "ready_inv (disposeFrameListener l c) = ready_inv c" "ready_inv (onPtyData l c) = ready_inv c"
  "ready_inv (disposePtyListener l c) = ready_inv c" "ready_inv (c\<lparr>activeRunSink := x\<rparr>) = ready_inv c"
  by (simp_all add: setCommSink_def onFrame_def disposeFrameListener_def onPtyData_def disposePtyListener_def ready_inv_def)

lemma executeCell_state: "fst (executeCell rnd x req c) = fst (writeFrame (fst (execute_envelope rnd req)) (c\<lparr>activeRunSink := Some x\<rparr>))"
  by (simp add: executeCell_def split: prod.split)

lemma perform_inv: "enabled c i \<Longrightarrow> ready_inv c \<Longrightarrow> ready_inv (fst (perform E i c))"
proof (cases i)
  case (In_listening W port res)
  moreover assume "enabled c i" "ready_inv c"
  ultimately show ?thesis
    using start_listening_cases [of E W port res c] inv_armed [of c W port] inv_bound [of c W port]
    by (auto intro!: failReady_inv')
next
  case (In_bind_failed e)
  moreover assume "ready_inv c"
  ultimately show ?thesis by (simp add: start_bind_failed_def Let_def failReady_inv)
next
  case (In_data s)
  moreover assume "enabled c i" "ready_inv c"
  moreover obtain c' evs x where "onSocketData E s c = (c', evs, x)" by (metis prod_cases3)
  ultimately show ?thesis using onSocketData_keeps [of E s c c' evs x] by (simp add: dispatch_keeps_def)
next
  case (In_execute rnd x req)
  moreover assume "ready_inv c"
  ultimately show ?thesis
    using executeCell_state [of rnd x req c] by (simp add: inv_same split: prod.split) (metis fst_conv inv_same(6) writeFrame_fields(6))
qed (simp_all add: plain_def inv_start inv_connect inv_socket_end inv_exit inv_timeout inv_shutdown inv_same sendEnvelope_def)

subsection \<open>A settled promise stays settled\<close>

lemma failReady_settled: "ready_inv c \<Longrightarrow> settled c \<Longrightarrow> readyPromise (failReady e c) = readyPromise c"
  by (simp add: ready_inv_def settled_def promise_defs Let_def)

lemma dispose_promise [simp]: "readyPromise (fst (dispose c)) = readyPromise c"
  by (simp add: dispose_def cancelReadyTimeout_def)

lemma cancel_promise [simp]: "readyPromise (cancelReadyTimeout c) = readyPromise c"
  by (simp add: cancelReadyTimeout_def)

lemma perform_settled:
  "enabled c i \<Longrightarrow> ready_inv c \<Longrightarrow> settled c \<Longrightarrow> readyPromise (fst (perform E i c)) = readyPromise c"
proof (cases i)
  case In_start
  moreover assume "settled c"
  ultimately show ?thesis by (simp add: start_def settled_def)
next
  case (In_listening W port res)
  moreover assume "enabled c i" "ready_inv c" "settled c"
  ultimately show ?thesis by (simp add: ready_inv_def settled_def)
next
  case (In_bind_failed e)
  moreover assume "enabled c i" "ready_inv c" "settled c"
  ultimately show ?thesis by (simp add: ready_inv_def settled_def)
next
  case (In_data s)
  moreover assume "settled c"
  moreover obtain c' evs x where "onSocketData E s c = (c', evs, x)" by (metis prod_cases3)
  ultimately show ?thesis using onSocketData_keeps [of E s c c' evs x] by (simp add: dispatch_keeps_def)
next
  case (In_execute rnd x req)
  then show ?thesis by (simp add: executeCell_def case_prod_beta)
qed (simp_all add: plain_def onConnection_def Let_def onSocketEnd_def failReady_settled onPtyExit_def case_prod_beta
      on_ready_timeout_def sendEnvelope_def shutdown_def setCommSink_def onFrame_def disposeFrameListener_def
      onPtyData_def disposePtyListener_def)

text \<open>Each of the events that end a start attempt settles the promise.\<close>

definition ending :: "input \<Rightarrow> bool" where
  "ending i \<longleftrightarrow> (case i of In_ready_timeout \<Rightarrow> True | In_pty_exit _ \<Rightarrow> True | In_socket_end \<Rightarrow> True | In_bind_failed _ \<Rightarrow> True | _ \<Rightarrow> False)"

definition begun :: "client \<Rightarrow> bool" where
  "begun c \<longleftrightarrow> ptyProcess c \<or> readyTimer c \<or> socket c \<or> listening c"

lemma inv_begun: "ready_inv c \<Longrightarrow> begun c \<Longrightarrow> readyPromise c \<noteq> None"
  unfolding ready_inv_def begun_def by auto

lemma failReady_settles: "ready_inv c \<Longrightarrow> begun c \<Longrightarrow> settled (failReady e c)"
  using inv_begun [of c] by (simp add: ready_inv_def settled_def promise_defs Let_def)

lemma failReady_settles': "ready_inv c \<Longrightarrow> begun c \<Longrightarrow> settled (failReady e (c\<lparr>listening := l\<rparr>))"
  using inv_begun [of c] by (simp add: ready_inv_def settled_def promise_defs Let_def)

lemma inv_no_reject: "ready_inv c \<Longrightarrow> begun c \<Longrightarrow> \<not> readyReject c \<Longrightarrow> settled c"
  using inv_begun [of c] by (simp add: ready_inv_def settled_def)

lemma settled_dispose [simp]: "settled (fst (dispose c)) = settled c"
  by (simp add: settled_def)

lemma perform_ending_settles:
  "enabled c i \<Longrightarrow> ready_inv c \<Longrightarrow> ending i \<Longrightarrow> settled (fst (perform E i c))"
  by (cases i) (auto simp: ending_def plain_def onSocketEnd_def onPtyExit_def Let_def case_prod_beta on_ready_timeout_def
      start_bind_failed_def begun_def failReady_settles failReady_settles' inv_no_reject)

subsection \<open>Outbound order\<close>

definition frames_text :: "jsv list \<Rightarrow> string list" where
  "frames_text fs = concat (map (\<lambda>f. case JSON_stringify None f of Some t \<Rightarrow> [t @ [LF]] | None \<Rightarrow> []) fs)"

lemma frames_text_append [simp]: "frames_text (xs @ ys) = frames_text xs @ frames_text ys"
  by (simp add: frames_text_def)

lemma frames_text_Nil [simp]: "frames_text [] = []"
  by (simp add: frames_text_def)

fun submits :: "bool \<Rightarrow> input \<Rightarrow> jsv list" where
  "submits stopped (In_send env) = [env]"
| "submits stopped (In_execute rnd x req) = [fst (execute_envelope rnd req)]"
| "submits stopped In_shutdown = (if stopped then [] else [shutdown_frame])"
| "submits stopped _ = []"

fun submitted :: "bool \<Rightarrow> input list \<Rightarrow> jsv list" where
  "submitted stopped [] = []"
| "submitted stopped (i # is) = submits stopped i @ submitted (stopped \<or> i = In_shutdown) is"

lemma submitted_snoc: "submitted d (is @ [i]) = submitted d is @ submits (d \<or> In_shutdown \<in> set is) i"
  by (induction "is" arbitrary: d) (auto simp: eq_commute)

definition flushed :: "client \<Rightarrow> bool" where
  "flushed c \<longleftrightarrow> (socket c \<longrightarrow> outboundBuffer c = [])"

lemma wires_direct: "wires (writeFrameDirect f c) = (if socket c then frames_text [f] else [])"
  by (simp add: writeFrameDirect_def frames_text_def split: option.split)

lemma wires_flush: "socket c \<Longrightarrow> wires (concat (map (\<lambda>f. writeFrameDirect f c) fs)) = frames_text fs"
  by (induction fs) (simp_all add: wires_direct frames_text_def)

text \<open>One step: what is written now, and what stays buffered, is what was buffered, and what
  is submitted now.\<close>

definition in_order :: "client \<Rightarrow> jsv list \<Rightarrow> effect list \<Rightarrow> client \<Rightarrow> bool" where
  "in_order c fs evs c' \<longleftrightarrow>
     wires evs @ frames_text (outboundBuffer c') = frames_text (outboundBuffer c @ fs) \<and> flushed c'"

lemma writeFrame_in_order: "flushed c \<Longrightarrow> in_order c [f] (snd (writeFrame f c)) (fst (writeFrame f c))"
  by (simp add: in_order_def writeFrame_def flushed_def wires_direct)

lemma in_order_same:
  "flushed c \<Longrightarrow> outboundBuffer c' = outboundBuffer c \<Longrightarrow> socket c' = socket c \<or> \<not> socket c' \<Longrightarrow> wires evs = [] \<Longrightarrow>
   in_order c [] evs c'"
  by (auto simp: in_order_def flushed_def)

lemma ready_outbound [simp]:
  "outboundBuffer (failReady e c) = outboundBuffer c" "socket (failReady e c) = socket c"
  "outboundBuffer (cancelReadyTimeout c) = outboundBuffer c" "socket (cancelReadyTimeout c) = socket c"
  "disposed (failReady e c) = disposed c" "disposed (cancelReadyTimeout c) = disposed c"
  by (simp_all add: promise_defs Let_def)

lemma dispose_outbound [simp]:
  "outboundBuffer (fst (dispose c)) = outboundBuffer c" "socket (fst (dispose c)) = False" "wires (snd (dispose c)) = []"
  "disposed (fst (dispose c)) = disposed c"
  by (simp_all add: dispose_def)

lemma in_order_more: "in_order c fs evs c' \<Longrightarrow> in_order c fs (evs @ snd (dispose c')) (fst (dispose c'))"
  by (simp add: in_order_def flushed_def)

lemma shutdown_in_order:
  assumes "flushed c"
  shows "in_order c (submits (disposed c) In_shutdown) (snd (shutdown c)) (fst (shutdown c))"
proof -
  let ?c = "cancelReadyTimeout (c\<lparr>disposed := True\<rparr>)"
  have "flushed ?c" using assms by (simp add: flushed_def)
  from writeFrame_in_order [OF this, of shutdown_frame]
  have "in_order c [shutdown_frame] (snd (writeFrame shutdown_frame ?c)) (fst (writeFrame shutdown_frame ?c))"
    by (simp add: in_order_def)
  with in_order_more [OF this] assms show ?thesis
    by (simp add: shutdown_def Let_def case_prod_beta in_order_same)
qed

lemma connect_in_order: "flushed c \<Longrightarrow> in_order c [] (snd (onConnection c)) (fst (onConnection c))"
  using wires_flush [of "c\<lparr>socket := True\<rparr>" "outboundBuffer c"]
  by (simp add: in_order_def onConnection_def Let_def flushed_def)

lemma execute_in_order:
  assumes "flushed c"
  shows "in_order c [fst (execute_envelope rnd req)] (fst (snd (executeCell rnd x req c))) (fst (executeCell rnd x req c))"
proof -
  have "flushed (c\<lparr>activeRunSink := Some x\<rparr>)" using assms by (simp add: flushed_def)
  from writeFrame_in_order [OF this] show ?thesis by (simp add: executeCell_def case_prod_beta in_order_def)
qed

lemma perform_in_order:
  "flushed c \<Longrightarrow> in_order c (submits (disposed c) i) (fst (snd (perform E i c))) (fst (perform E i c))"
proof (cases i)
  case (In_listening W port res)
  moreover assume "flushed c"
  ultimately show ?thesis
    using start_listening_cases [of E W port res c] by (auto simp: armReadyTimeout_def intro!: in_order_same)
next
  case (In_data s)
  moreover assume "flushed c"
  moreover obtain c' evs x where "onSocketData E s c = (c', evs, x)" by (metis prod_cases3)
  ultimately show ?thesis using onSocketData_keeps [of E s c c' evs x] by (simp add: dispatch_keeps_def in_order_same)
next
  case (In_execute rnd x req)
  moreover assume "flushed c"
  ultimately show ?thesis using execute_in_order [of c rnd req x] by (simp add: case_prod_beta)
next
  case In_shutdown
  moreover assume "flushed c"
  ultimately show ?thesis using shutdown_in_order [of c] by (simp add: plain_def)
qed (simp_all add: plain_def in_order_same start_def start_bind_failed_def Let_def connect_in_order onSocketEnd_def
    onPtyExit_def case_prod_beta on_ready_timeout_def sendEnvelope_def writeFrame_in_order interrupt_def
    shutdown_signal_def setCommSink_def onFrame_def disposeFrameListener_def onPtyData_def disposePtyListener_def
    split: option.split)

lemma perform_disposed: "disposed (fst (perform E i c)) \<longleftrightarrow> disposed c \<or> i = In_shutdown"
proof (cases i)
  case (In_listening W port res)
  then show ?thesis using start_listening_cases [of E W port res c] by (auto simp: armReadyTimeout_def)
next
  case (In_data s)
  moreover obtain c' evs x where "onSocketData E s c = (c', evs, x)" by (metis prod_cases3)
  ultimately show ?thesis using onSocketData_keeps [of E s c c' evs x] by (simp add: dispatch_keeps_def)
qed (simp_all add: plain_def start_def start_bind_failed_def Let_def onConnection_def onSocketEnd_def
    onPtyExit_def case_prod_beta on_ready_timeout_def sendEnvelope_def executeCell_def shutdown_def
    setCommSink_def onFrame_def disposeFrameListener_def onPtyData_def disposePtyListener_def)

subsection \<open>Runs\<close>

definition fresh :: "client \<Rightarrow> bool" where
  "fresh c \<longleftrightarrow> ready_inv c \<and> readyPromise c = None \<and> outboundBuffer c = [] \<and> \<not> disposed c"

lemma fresh_new: "fresh (new_client win32 dj cfg)"
  by (simp add: fresh_def new_client_def ready_inv_def)

lemma pstep_inv: "pstep E c i evs c' \<Longrightarrow> ready_inv c \<Longrightarrow> ready_inv c'"
  by (elim pstepE) (metis fst_conv perform_inv)

lemma prun_inv: "prun E c is evs c' \<Longrightarrow> ready_inv c \<Longrightarrow> ready_inv c'"
  by (induction rule: prun.induct) (auto dest: pstep_inv)

lemma prun_settled: "prun E c is evs c' \<Longrightarrow> ready_inv c \<Longrightarrow> settled c \<Longrightarrow> readyPromise c' = readyPromise c"
proof (induction rule: prun.induct)
  case (prun_step "is" evs c1 i evs' c2)
  from prun_step.hyps(2) obtain x where p: "enabled c1 i" "perform E i c1 = (c2, evs', x)" by (auto elim: pstepE)
  have "ready_inv c1" using prun_step prun_inv by blast
  moreover have "settled c1" using prun_step by (simp add: settled_def)
  ultimately show ?case using perform_settled [OF p(1), of E] p(2) prun_step by simp
qed simp

lemma prun_in_order:
  "prun E c is evs c' \<Longrightarrow> fresh c \<Longrightarrow>
   wires evs @ frames_text (outboundBuffer c') = frames_text (submitted False is) \<and> flushed c' \<and>
   (disposed c' \<longleftrightarrow> In_shutdown \<in> set is)"
proof (induction rule: prun.induct)
  case prun_refl
  then show ?case by (simp add: fresh_def flushed_def)
next
  case (prun_step "is" evs c1 i evs' c2)
  from prun_step.hyps(2) obtain x where p: "perform E i c1 = (c2, evs', x)" by (auto elim: pstepE)
  with prun_step perform_in_order [of c1 i E] perform_disposed [of E i c1] show ?case
    by (auto simp: in_order_def submitted_snoc)
qed

text \<open>Runs are executable.\<close>

fun run_inputs :: "kenv \<Rightarrow> input list \<Rightarrow> client \<Rightarrow> (effect list \<times> client) option" where
  "run_inputs E [] c = Some ([], c)"
| "run_inputs E (i # is) c =
     (if enabled c i
      then (case perform E i c of (c', evs, _) \<Rightarrow>
              (case run_inputs E is c' of Some (evs', c'') \<Rightarrow> Some (evs @ evs', c'') | None \<Rightarrow> None))
      else None)"

lemma run_inputs_from:
  "prun E c0 is0 evs0 c \<Longrightarrow> run_inputs E is c = Some (evs, c') \<Longrightarrow> prun E c0 (is0 @ is) (evs0 @ evs) c'"
proof (induction "is" arbitrary: is0 evs0 c evs)
  case (Cons i "is")
  obtain c1 e1 x where p: "perform E i c = (c1, e1, x)" by (metis prod_cases3)
  with Cons.prems obtain e2 where e2: "enabled c i" "run_inputs E is c1 = Some (e2, c')" "evs = e1 @ e2"
    by (auto split: if_splits option.splits)
  then have "prun E c0 (is0 @ [i]) (evs0 @ e1) c1"
    using prun_step [OF Cons.prems(1) pstepI [OF e2(1) p]] by simp
  from Cons.IH [OF this e2(2)] e2(3) show ?case by simp
qed simp

lemma run_inputs_prun: "run_inputs E is c = Some (evs, c') \<Longrightarrow> prun E c is evs c'"
  using run_inputs_from [OF prun_refl] by fastforce

subsection \<open>Properties\<close>

text \<open>C1. The ready promise. In every run of a new client, through any interleaving of
  calls, socket data, timers and process events: the promise is pending exactly while the
  client holds its resolver and rejecter, the client says it is ready exactly when the
  promise has resolved, the handshake timer runs only while the promise is pending and the
  kernel process exists; and once the promise is settled nothing that happens later changes
  it.\<close>

theorem ready_promise_settles_once:
  assumes "prun E (new_client win32 dj cfg) is evs c" "prun E c is' evs' c'"
  shows "ready_inv c \<and> (settled c \<longrightarrow> readyPromise c' = readyPromise c \<and> isReady c' = isReady c)"
proof -
  have c: "ready_inv c" using prun_inv [OF assms(1)] fresh_new [of win32 dj cfg] by (simp add: fresh_def)
  moreover have "ready_inv c'" using prun_inv [OF assms(2) c] .
  ultimately show ?thesis using prun_settled [OF assms(2) c] by (simp add: ready_inv_def)
qed

text \<open>A run up to a resolved promise: start, listen, spawn, connect, ready record.\<close>

definition demo_fs :: fs_world where
  "demo_fs = \<lparr>stale = False, unlink_fails = None, chmod_fails = None\<rparr>"

definition ready_line :: string where
  "ready_line = ser None (JObj [(''timeUnixNano'', JStr ''1''), (''severityNumber'', num 9),
     (''attributes'', JArr [JObj [(''key'', JStr ''event.name''), (''value'', JObj [(''stringValue'', JStr ''kernel.ready'')])],
        JObj [(''key'', JStr ''llmnb.kernel.rfc_006_version''), (''value'', JObj [(''stringValue'', JStr ''3.0.0'')])]])]) @ [LF]"

definition demo_inputs :: "input list" where
  "demo_inputs = [In_start, In_send (JObj [(''type'', JStr ''x'')]), In_listening demo_fs (Some 4711) Spawn_ok, In_connect, In_data ready_line]"

definition demo_ready :: client where
  "demo_ready = demo_client\<lparr>ptyProcess := True, server := True, socket := True, readyPromise := Some Resolved,
     isReady := True, socketAddress := ''tcp:127.0.0.1:4711'',
     driftEvents := [\<lparr>attribute = ''llmnb.kernel.rfc_006_version'', expected = ''2.0.0'', observed = ''3.0.0'', severity = Major_mismatch\<rparr>]\<rparr>"

lemma demo_run_state: "map_option snd (run_inputs demo_env demo_inputs demo_client) = Some demo_ready"
  by code_simp

lemma demo_run: "\<exists>evs. prun demo_env demo_client demo_inputs evs demo_ready"
  using demo_run_state run_inputs_prun by fastforce

theorem ready_promise_settles_once_witness:
  "readyPromise demo_ready = Some Resolved \<and> ready_inv demo_ready"
proof -
  obtain evs where "prun demo_env demo_client demo_inputs evs demo_ready" using demo_run by blast
  from ready_promise_settles_once [OF this [unfolded demo_client_def] prun_refl] show ?thesis
    by (simp add: demo_ready_def)
qed

text \<open>C29. No start attempt hangs on these: when the handshake timer fires, the kernel process
  exits, the socket closes or binding the socket fails, the ready promise is settled
  afterwards, in every reachable state.\<close>

theorem start_failures_settle:
  assumes "prun E (new_client win32 dj cfg) is evs c" "pstep E c i evs' c'" "ending i"
  shows "settled c'"
proof -
  have "ready_inv c" using prun_inv [OF assms(1)] fresh_new [of win32 dj cfg] by (simp add: fresh_def)
  then show ?thesis using assms(2,3) perform_ending_settles [of c i E] by (metis fst_conv pstepE)
qed

theorem start_failures_settle_witness:
  "\<exists>evs evs' c. prun demo_env demo_client [In_start, In_listening demo_fs (Some 4711) Spawn_ok] evs c \<and>
     pstep demo_env c In_ready_timeout evs' (fst (perform demo_env In_ready_timeout c)) \<and>
     settled (fst (perform demo_env In_ready_timeout c))"
proof -
  let ?is = "[In_start, In_listening demo_fs (Some 4711) Spawn_ok]"
  obtain evs c where r: "run_inputs demo_env ?is demo_client = Some (evs, c)" and e: "enabled c In_ready_timeout"
  proof -
    have "(case run_inputs demo_env ?is demo_client of Some (evs, c) \<Rightarrow> enabled c In_ready_timeout | None \<Rightarrow> False)"
      by code_simp
    then show thesis using that by (auto split: option.splits)
  qed
  obtain c' evs' x where p: "perform demo_env In_ready_timeout c = (c', evs', x)" by (metis prod_cases3)
  have run: "prun demo_env demo_client ?is evs c" using run_inputs_prun [OF r] .
  have st: "pstep demo_env c In_ready_timeout evs' c'" using pstepI [OF e p] .
  have "settled c'"
    using start_failures_settle [OF run [unfolded demo_client_def] st] by (simp add: ending_def)
  then show ?thesis using run st p by fastforce
qed

text \<open>C3. Outbound frames keep their order. In every run of a new client, the lines written
  to the socket followed by the frames still buffered are exactly the frames submitted (sent
  envelopes, executed cells, the shutdown request) in the order they were submitted, each
  one once, whenever the connection came; and while there is a connection nothing stays
  buffered. Only a frame that JSON cannot express is left out.\<close>

theorem outbound_fifo:
  assumes "prun E (new_client win32 dj cfg) is evs c"
  shows "wires evs @ frames_text (outboundBuffer c) = frames_text (submitted False is) \<and>
         (socket c \<longrightarrow> outboundBuffer c = [])"
  using prun_in_order [OF assms fresh_new] by (simp add: flushed_def)

theorem outbound_fifo_witness:
  "\<exists>evs. prun demo_env demo_client demo_inputs evs demo_ready \<and>
     wires evs = frames_text [JObj [(''type'', JStr ''x'')]]"
proof -
  obtain evs where r: "prun demo_env demo_client demo_inputs evs demo_ready" using demo_run by blast
  have "outboundBuffer demo_ready = []" by (simp add: demo_ready_def demo_client_def new_client_def)
  then have "wires evs = frames_text (submitted False demo_inputs)"
    using outbound_fifo [OF r [unfolded demo_client_def]] by simp
  then show ?thesis using r by (auto simp: demo_inputs_def)
qed

end
