(* ===== verification/Pty_Handshake.thy ===== *)
theory Pty_Handshake
  imports Pty_Framing
begin

section \<open>The ready handshake and the execution of cells\<close>

text \<open>
  Functional properties of single operations of the kernel client: what the ready record
  does to a waiting client and to any other, how versions are compared, which envelope a cell
  text becomes, and what cannot be thrown at the data plane.
\<close>

subsection \<open>Versions\<close>

definition major :: "string \<Rightarrow> string" where
  "major v = takeWhile (\<lambda>c. c \<noteq> CHR ''.'') v"

lemma hd_split_char: "hd (split_char d s) = takeWhile (\<lambda>c. c \<noteq> d) s"
proof (induction s)
  case (Cons c s)
  then show ?case by (cases "split_char d s") auto
qed simp

lemma compareVersions_None: "compareVersions e o1 = None \<longleftrightarrow> e = o1"
  by (simp add: compareVersions_def Let_def)

lemma compareVersions_major:
  "compareVersions e o1 = Some Major_mismatch \<longleftrightarrow> major e \<noteq> [] \<and> major o1 \<noteq> [] \<and> major e \<noteq> major o1"
  by (auto simp: compareVersions_def Let_def hd_split_char major_def)

text \<open>The drift a record shows, version by version, as a specification.\<close>

definition drifts :: "(string \<Rightarrow> string option) \<Rightarrow> drift_event \<Rightarrow> bool" where
  "drifts rd ev \<longleftrightarrow>
     (\<exists>k e v d. (k, e) \<in> set EXTENSION_RFC_VERSIONS \<and> rd (''llmnb.kernel.'' @ k) = Some v \<and> v \<noteq> [] \<and> v \<noteq> e \<and>
        compareVersions e v = Some d \<and>
        ev = \<lparr>attribute = ''llmnb.kernel.'' @ k, expected = e, observed = v, severity = d\<rparr>)"

lemma drift_of_iff:
  "ev \<in> set (drift_of rd (k, e)) \<longleftrightarrow>
     (\<exists>v d. rd (''llmnb.kernel.'' @ k) = Some v \<and> v \<noteq> [] \<and> v \<noteq> e \<and> compareVersions e v = Some d \<and>
        ev = \<lparr>attribute = ''llmnb.kernel.'' @ k, expected = e, observed = v, severity = d\<rparr>)"
proof (cases "rd (''llmnb.kernel.'' @ k)")
  case None
  then show ?thesis by (simp add: drift_of_def)
next
  case (Some v)
  then show ?thesis
    using compareVersions_None [of e v] by (cases "compareVersions e v") (auto simp: drift_of_def Let_def)
qed

lemma drifts_iff: "ev \<in> set (concat (map (drift_of rd) EXTENSION_RFC_VERSIONS)) \<longleftrightarrow> drifts rd ev"
proof -
  have "ev \<in> set (concat (map (drift_of rd) vs)) \<longleftrightarrow>
    (\<exists>k e v d. (k, e) \<in> set vs \<and> rd (''llmnb.kernel.'' @ k) = Some v \<and> v \<noteq> [] \<and> v \<noteq> e \<and>
        compareVersions e v = Some d \<and>
        ev = \<lparr>attribute = ''llmnb.kernel.'' @ k, expected = e, observed = v, severity = d\<rparr>)" for vs
    by (induction vs) (auto simp: drift_of_iff)
  then show ?thesis unfolding drifts_def by blast
qed

subsection \<open>The ready record\<close>

definition ready_record :: "jsv list \<Rightarrow> jsv \<Rightarrow> bool" where
  "ready_record as f \<longleftrightarrow>
     frame_kind_of f = Log_record \<and> jprop f ''attributes'' = JArr as \<and>
     first_attr ''event.name'' as = Some ''kernel.ready''"

lemma dispatch_ready:
  assumes "ready_record as f"
  shows "dispatchFrame E f c =
     (let (c', evs) = (if readyResolve c then handleReadyRecord E (\<lambda>k. first_attr k as) c else (c, []))
      in (c', evs @ map Rt (routeLogRecord (krouter E) (beh E) f), None))"
  using assms by (simp add: ready_record_def dispatchFrame_def pty_routeLogRecord_def readAttr_def Let_def)

text \<open>The router's part of the effects.\<close>

fun router_events :: "effect list \<Rightarrow> event list" where
  "router_events [] = []"
| "router_events (e # es) = (case e of Rt r \<Rightarrow> [r] | _ \<Rightarrow> []) @ router_events es"

lemma router_events_append [simp]: "router_events (xs @ ys) = router_events xs @ router_events ys"
  by (induction xs) auto

lemma router_events_Rt [simp]: "router_events (map Rt es) = es"
  by (induction es) auto

lemma router_events_drift [simp]: "router_events (concat (map drift_effects ds)) = []"
  by (induction ds) (auto simp: drift_effects_def)

lemma router_events_notify [simp]: "router_events (notify_frame E f ls) = []"
  by (induction ls) (auto split: option.splits)

lemma handleReady_events: "router_events (snd (handleReadyRecord E rd c)) = []"
  by (simp add: handleReadyRecord_def Let_def split: option.split)

lemma handleReady_state:
  "fst (handleReadyRecord E rd c) =
     completeReady (c\<lparr>driftEvents := driftEvents c @ concat (map (drift_of rd) EXTENSION_RFC_VERSIONS)\<rparr>)"
  by (simp add: handleReadyRecord_def Let_def)

lemma completeReady_pending:
  assumes "readyResolve c" "readyPromise c = Some Pending"
  shows "readyPromise (completeReady c) = Some Resolved" "isReady (completeReady c)" "\<not> readyTimer (completeReady c)"
    "\<not> readyResolve (completeReady c)" "\<not> readyReject (completeReady c)" "driftEvents (completeReady c) = driftEvents c"
  using assms by (simp_all add: completeReady_def settle_def cancelReadyTimeout_def Let_def)

lemma log_calls: "is_objectlike f \<Longrightarrow> calls (routeLogRecord r b f) = map (\<lambda>obs. OnLogRecord obs f) (logRecordObservers r)"
  by (simp add: routeLogRecord_def is_objectlike_def)

lemma ready_record_object: "ready_record as f \<Longrightarrow> is_objectlike f"
  by (cases f) (auto simp: ready_record_def)

lemma drifts_major:
  "drifts rd ev \<Longrightarrow> severity ev = Major_mismatch \<longleftrightarrow>
     major (expected ev) \<noteq> [] \<and> major (observed ev) \<noteq> [] \<and> major (expected ev) \<noteq> major (observed ev)"
  unfolding drifts_def by (auto simp: compareVersions_major [symmetric])


definition demo_attrs :: "jsv list" where
  "demo_attrs = [JObj [(''key'', JStr ''event.name''), (''value'', JObj [(''stringValue'', JStr ''kernel.ready'')])],
     JObj [(''key'', JStr ''llmnb.kernel.rfc_006_version''), (''value'', JObj [(''stringValue'', JStr ''3.0.0'')])]]"

definition demo_record :: jsv where
  "demo_record = JObj [(''timeUnixNano'', JStr ''1''), (''severityNumber'', num 9), (''attributes'', JArr demo_attrs)]"


subsection \<open>What a cell text becomes\<close>

lemma action_ok:
  "json_ok (operator_action kvs) = (canonical kvs \<and> list_all (\<lambda>(k, v). json_ok v) kvs)"
  by (auto simp: operator_action_def canonical_def key_before_def array_index_def canonical_digits_def is_digit_def)

lemma action_valid:
  "snd (validateEnvelope (operator_action kvs))" "frame_kind_of (operator_action kvs) = Envelope"
  "jprop (operator_action kvs) ''type'' = JStr ''operator.action''" "jprop (operator_action kvs) ''payload'' = JObj kvs"
  by (simp_all add: operator_action_def validateEnvelope_def frame_kind_of_def js_get_def)

lemmas canonical_eval = canonical_def key_before_def array_index_def canonical_digits_def is_digit_def

text \<open>What every envelope of an executed cell has: it is an operator action of the given
  cell, it survives serialisation, and the dispatch on the other side sees an envelope.\<close>

definition cell_action :: "string \<Rightarrow> jsv \<Rightarrow> bool" where
  "cell_action uri env \<longleftrightarrow>
     json_ok env \<and> snd (validateEnvelope env) \<and> frame_kind_of env = Envelope \<and>
     jprop env ''type'' = JStr ''operator.action'' \<and>
     jprop (jprop env ''payload'') ''originating_cell_id'' = JStr uri"

lemma cell_magic_action: "cell_action uri (cell_magic_envelope uri kind magic args)"
  by (simp add: cell_action_def cell_magic_envelope_def action_ok action_valid canonical_eval js_get_def)

lemma section_magic_action: "cell_action uri (section_magic_envelope rnd uri kind magic args)"
  using cell_magic_action [of uri kind magic args]
  by (simp add: section_magic_envelope_def Let_def cell_action_def action_ok action_valid canonical_eval
      js_get_def split: option.split)

lemma agent_action: "field \<in> {''task'', ''text''} \<Longrightarrow> cell_action uri (agent_envelope uri a field v sp)"
  by (auto simp: agent_envelope_def cell_action_def action_ok action_valid canonical_eval js_get_def)

lemma flags_ok:
  assumes "canonical kvs \<and> list_all (\<lambda>(k, v). json_ok v) kvs"
  shows "canonical (fold (\<lambda>f. js_assign f (JBool b)) fs kvs) \<and>
         list_all (\<lambda>(k, v). json_ok v) (fold (\<lambda>f. js_assign f (JBool b)) fs kvs)"
  using assms
proof (induction fs arbitrary: kvs)
  case (Cons f fs)
  then show ?case by (simp add: js_assign_def canonical_js_put json_ok_values_put)
qed simp

lemma line_magic_action: "cell_action uri (line_magic_envelope uri magic args fs us)"
proof -
  have "canonical [(''action_type'', JStr a), (''intent_kind'', JStr b), (''parameters'', JObj kvs), (''originating_cell_id'', JStr d)]" for a b kvs d
    by (simp add: canonical_eval)
  moreover have "canonical [(''cell_id'', JStr uri), (''magic'', JStr magic), (''args'', JStr args)] \<and>
      list_all (\<lambda>(k, v). json_ok v) [(''cell_id'', JStr uri), (''magic'', JStr magic), (''args'', JStr args)]"
    by (simp add: canonical_eval)
  note flags_ok [OF flags_ok [OF this]]
  ultimately show ?thesis
    by (simp add: line_magic_envelope_def Let_def cell_action_def action_ok action_valid js_get_def)
qed

definition request_of :: "string \<Rightarrow> string \<Rightarrow> execute_request" where
  "request_of uri text = \<lparr>cellUri = uri, cell_text = text, directive = parseCellDirective text\<rparr>"

definition parameter :: "jsv \<Rightarrow> string \<Rightarrow> jsv" where
  "parameter env k = jprop (jprop (jprop env ''payload'') ''parameters'') k"

definition action_of :: "jsv \<Rightarrow> string \<Rightarrow> jsv" where
  "action_of env k = jprop (jprop env ''payload'') k"

lemmas envelope_eval = parameter_def action_of_def action_valid js_get_def Let_def

text \<open>The flags of a parsed line magic: at most one, set or unset.\<close>

definition flag_pairs :: "(string list option \<times> string list option) set" where
  "flag_pairs = {(None, None), (Some [''pinned''], None), (None, Some [''pinned'']), (Some [''excluded''], None),
    (None, Some [''excluded''])}"

lemma line_magic_flags:
  assumes "parseCellDirective text = Some (Line_Magic m ar fs us)"
  shows "(fs, us) \<in> flag_pairs"
proof -
  have "(fs, us) \<in> flag_pairs" if "line_magic_directive magic args = Line_Magic m ar fs us" for magic args
    using that by (auto simp: line_magic_directive_def FLAG_LINE_MAGICS_def flag_pairs_def split: option.splits if_splits)
  moreover have "legacy_directive h \<noteq> Some (Line_Magic m ar fs us)" for h
    by (simp add: legacy_directive_def Let_def split: option.split)
  ultimately have l: "line_or_legacy h = Some (Line_Magic m ar fs us) \<Longrightarrow> ?thesis" for h
    by (auto simp: line_or_legacy_def split: option.splits if_splits)
  show ?thesis
    using assms l by (auto simp: parseCellDirective_def parse_head_def spawn_directive_def agent_directive_def Let_def
        split: if_splits list.splits option.splits)
qed

lemma line_magic_parameters:
  assumes "(fs, us) \<in> flag_pairs"
    and "env = line_magic_envelope uri m ar fs us"
  shows "parameter env ''cell_id'' = JStr uri \<and> parameter env ''magic'' = JStr m \<and> parameter env ''args'' = JStr ar \<and>
    (\<forall>f \<in> set (case fs of Some l \<Rightarrow> l | None \<Rightarrow> []). parameter env f = JBool True) \<and>
    (\<forall>f \<in> set (case us of Some l \<Rightarrow> l | None \<Rightarrow> []). parameter env f = JBool False) \<and>
    action_of env ''action_type'' = JStr ''set_cell_metadata''"
proof -
  have i: "array_index ''pinned'' = None" "array_index ''excluded'' = None"
    by (simp_all add: array_index_def canonical_digits_def is_digit_def)
  show ?thesis unfolding assms(2)
    using assms(1) unfolding flag_pairs_def by (auto simp: line_magic_envelope_def envelope_eval js_assign_def i)
qed

definition created_section :: "string \<Rightarrow> string \<Rightarrow> string \<Rightarrow> jsv" where
  "created_section rnd args title =
     JObj [(''kind'', JStr ''create_section''),
       (''section_id'', JStr (case sa_section_id (parseSectionMagicArgs args) of Some i \<Rightarrow> i | None \<Rightarrow> mintSectionIdFromTitle rnd title)),
       (''title'', JStr title)]"



subsection \<open>Malformed frames\<close>

lemma deliver_silent: "\<forall>c. b c = None \<Longrightarrow> snd (deliver b cs) = None"
  by (simp add: deliver_no_throw)

lemma route_silent: "\<forall>c. b c = None \<Longrightarrow> snd (route r b env) = None"
  by (simp add: route_def Let_def deliver_silent split: prod.split)

lemma routeRunMime_silent: "\<forall>c. b c = None \<Longrightarrow> snd (routeRunMime r b p) = None"
  by (simp add: routeRunMime_def deliver_silent)

definition not_iterable :: "jsv \<Rightarrow> bool" where
  "not_iterable v \<longleftrightarrow> truthy v \<and> \<not> is_string v \<and> (\<forall>xs. v \<noteq> JArr xs)"

lemma readAttr_throws: "(\<exists>e. readAttr v k = Inl e) \<longleftrightarrow> not_iterable v"
  by (cases v) (simp_all add: readAttr_def not_iterable_def)

lemma dispatchFrame_throws:
  assumes "\<forall>c. beh E c = None" "\<forall>env. comm_beh E env = None"
  shows "snd (snd (dispatchFrame E f c)) \<noteq> None \<longleftrightarrow> frame_kind_of f = Log_record \<and> not_iterable (jprop f ''attributes'')"
proof (cases "frame_kind_of f")
  case Span
  then show ?thesis using routeRunMime_silent [OF assms(1)]
    by (auto simp: dispatchFrame_def routeSpan_def Let_def case_prod_beta active_emit_def split: option.splits jsv.splits)
next
  case Log_record
  then show ?thesis using readAttr_throws [of "jprop f ''attributes''" "''event.name''"]
    by (auto simp: dispatchFrame_def pty_routeLogRecord_def Let_def case_prod_beta split: sum.splits)
next
  case Envelope
  then show ?thesis using assms(2) route_silent [OF assms(1)]
    by (auto simp: dispatchFrame_def routeEnvelope_def case_prod_beta)
next
  case Malformed
  then show ?thesis by (simp add: dispatchFrame_def)
qed

text \<open>Frames that are not understood. A line that is not JSON, not an object or of no
  known shape leaves the client unchanged, reaches nobody but the frame listeners and leaves
  one warning. When neither the router's observers nor the comm sink throw, a line can make
  the dispatch throw only in one way: as a log record whose \<open>attributes\<close> value is truthy but not iterable.\<close>

theorem malformed_frames_discarded:
  assumes "dispatchLine E line c = (kind, c', evs, x)"
    and "\<forall>call. beh E call = None" "\<forall>env. comm_beh E env = None"
  shows "(kind = Malformed \<longrightarrow> c' = c \<and> x = None \<and> router_events evs = [] \<and>
            (\<exists>msg ls. evs = ls @ [Log LWarn msg] \<and> (ls = [] \<or> (\<exists>f. ls = notify_frame E f (frameListeners c))))) \<and>
         (x \<noteq> None \<longleftrightarrow> (\<exists>f. JSON_parse line = Some f \<and> frame_kind_of f = Log_record \<and> not_iterable (jprop f ''attributes'')))"
proof (cases "JSON_parse line")
  case None
  then show ?thesis using assms(1) by (auto simp: dispatchLine_def)
next
  case (Some f)
  show ?thesis
  proof (cases "is_objectlike f")
    case False
    then have "frame_kind_of f \<noteq> Log_record" by (cases f) (simp_all add: frame_kind_of_def)
    then show ?thesis using assms(1) Some False by (auto simp: dispatchLine_def)
  next
    case True
    have eq: "kind = frame_kind_of f" "c' = fst (dispatchFrame E f c)" "x = snd (snd (dispatchFrame E f c))"
      "evs = notify_frame E f (frameListeners c) @ fst (snd (dispatchFrame E f c))"
      using assms(1) Some True by (auto simp: dispatchLine_def case_prod_beta)
    have "x \<noteq> None \<longleftrightarrow> frame_kind_of f = Log_record \<and> not_iterable (jprop f ''attributes'')"
      using dispatchFrame_throws [OF assms(2,3)] eq(3) by simp
    moreover have "kind = Malformed \<Longrightarrow> c' = c \<and> x = None \<and> router_events evs = [] \<and>
            (\<exists>msg. evs = notify_frame E f (frameListeners c) @ [Log LWarn msg])"
      using eq by (simp add: dispatchFrame_def)
    ultimately show ?thesis using Some by auto
  qed
qed

text \<open>Such a line does exist: the data plane can make the dispatch throw.\<close>

theorem malformed_frames_discarded_witness:
  "\<exists>c' evs x. dispatchLine demo_env
       (ser None (JObj [(''timeUnixNano'', JStr ''1''), (''severityNumber'', num 9), (''attributes'', JObj [])])) demo_client
       = (Log_record, c', evs, x) \<and> x \<noteq> None"
proof -
  let ?f = "JObj [(''timeUnixNano'', JStr ''1''), (''severityNumber'', num 9), (''attributes'', JObj [])]"
  obtain kind c' evs x where d: "dispatchLine demo_env (ser None ?f) demo_client = (kind, c', evs, x)"
    by (metis prod_cases4)
  have "json_ok ?f" by (simp add: canonical_eval rat_is_int_def safe_int_def max_safe_integer_def)
  then have p: "JSON_parse (ser None ?f) = Some ?f" by (rule JSON_parse_ser)
  have k: "frame_kind_of ?f = Log_record" "not_iterable (jprop ?f ''attributes'')"
    by (simp_all add: frame_kind_of_def js_get_def not_iterable_def)
  have "x \<noteq> None"
    using malformed_frames_discarded [OF d] p k by (simp add: demo_env_def)
  moreover have "kind = Log_record" using d p k(1) by (simp add: dispatchLine_def case_prod_beta)
  ultimately show ?thesis using d by blast
qed

end
