(* ===== verification/Heartbeat.thy ===== *)
theory Heartbeat
  imports RTS_Prelude
begin

section \<open>The heartbeat watchdog (\<open>extension/src/messaging/heartbeat-consumer.ts\<close>)\<close>

text \<open>
  \<open>HeartbeatConsumer\<close> remembers the last heartbeat of the kernel and, polled by an interval
  timer, warns once when none has come for longer than the timeout while the PTY is healthy.
  The clock and the health gate are inputs: each call carries the time it reads, each poll
  the answer of the gate. Callback exceptions are caught by the source and have no effect.
\<close>

record hb_config =
  has_onState :: bool
  has_sink :: bool
  pollIntervalMs :: "nat option"
  timeoutMs :: "int option"

record heartbeat =
  lastPayload :: "jsv option"
  lastHeartbeatTimestamp :: int
  warned :: bool
  timer :: bool

datatype hb_effect = State_changed jsv | Liveness_lost int int | Set_interval nat | Clear_interval

definition HEARTBEAT_LIVENESS_TIMEOUT_MS :: int where
  "HEARTBEAT_LIVENESS_TIMEOUT_MS = 30000"

definition new_heartbeat :: heartbeat where
  "new_heartbeat = \<lparr>lastPayload = None, lastHeartbeatTimestamp = 0, warned = False, timer = False\<rparr>"

definition timeout_of :: "hb_config \<Rightarrow> int" where
  "timeout_of cfg = (case timeoutMs cfg of Some t \<Rightarrow> t | None \<Rightarrow> HEARTBEAT_LIVENESS_TIMEOUT_MS)"

definition onHeartbeatKernel :: "hb_config \<Rightarrow> jsv \<Rightarrow> int \<Rightarrow> heartbeat \<Rightarrow> heartbeat \<times> hb_effect list" where
  "onHeartbeatKernel cfg payload now h =
     (h\<lparr>lastPayload := Some payload, lastHeartbeatTimestamp := now, warned := False\<rparr>,
      if has_onState cfg then [State_changed payload] else [])"

definition hb_start :: "hb_config \<Rightarrow> heartbeat \<Rightarrow> heartbeat \<times> hb_effect list" where
  "hb_start cfg h =
     (if timer h then (h, [])
      else (h\<lparr>timer := True\<rparr>, [Set_interval (case pollIntervalMs cfg of Some n \<Rightarrow> n | None \<Rightarrow> 5000)]))"

definition hb_stop :: "heartbeat \<Rightarrow> heartbeat \<times> hb_effect list" where
  "hb_stop h = (if timer h then (h\<lparr>timer := False\<rparr>, [Clear_interval]) else (h, []))"

definition hb_dispose :: "heartbeat \<Rightarrow> heartbeat \<times> hb_effect list" where
  "hb_dispose h = hb_stop h"

definition poll :: "hb_config \<Rightarrow> int \<Rightarrow> bool \<Rightarrow> heartbeat \<Rightarrow> heartbeat \<times> hb_effect list" where
  "poll cfg now ptyOk h =
     (if lastHeartbeatTimestamp h = 0 then (h, [])
      else if now - lastHeartbeatTimestamp h \<le> timeout_of cfg then (h, [])
      else if \<not> ptyOk then (h, [])
      else if warned h then (h, [])
      else (h\<lparr>warned := True\<rparr>,
            if has_sink cfg
            then [Liveness_lost (lastHeartbeatTimestamp h) (now - lastHeartbeatTimestamp h)] else []))"

subsection \<open>Histories\<close>

datatype hb_input = Beat jsv int | Poll int bool | Start_watchdog | Stop_watchdog

fun hb_perform :: "hb_config \<Rightarrow> hb_input \<Rightarrow> heartbeat \<Rightarrow> heartbeat \<times> hb_effect list" where
  "hb_perform cfg (Beat p t) h = onHeartbeatKernel cfg p t h"
| "hb_perform cfg (Poll now ok) h = poll cfg now ok h"
| "hb_perform cfg Start_watchdog h = hb_start cfg h"
| "hb_perform cfg Stop_watchdog h = hb_stop h"

fun hb_run :: "hb_config \<Rightarrow> hb_input list \<Rightarrow> heartbeat \<Rightarrow> heartbeat \<times> hb_effect list" where
  "hb_run cfg [] h = (h, [])"
| "hb_run cfg (i # is) h = (let (h1, e1) = hb_perform cfg i h; (h2, e2) = hb_run cfg is h1 in (h2, e1 @ e2))"

lemma hb_run_snoc:
  "hb_run cfg (is @ [i]) h =
     (let (h1, e1) = hb_run cfg is h; (h2, e2) = hb_perform cfg i h1 in (h2, e1 @ e2))"
  by (induction "is" arbitrary: h) (auto simp: Let_def split: prod.splits)

text \<open>The specification reads the history only: the last beat, and whether a poll since then
  was already late enough to warn.\<close>

definition is_beat :: "hb_input \<Rightarrow> bool" where
  "is_beat i = (case i of Beat _ _ \<Rightarrow> True | _ \<Rightarrow> False)"

fun last_beat :: "hb_input list \<Rightarrow> int" where
  "last_beat [] = 0"
| "last_beat (i # is) = (case i of Beat _ t \<Rightarrow> t | _ \<Rightarrow> last_beat is)"

definition late :: "hb_config \<Rightarrow> int \<Rightarrow> hb_input \<Rightarrow> bool" where
  "late cfg t i = (case i of Poll now ok \<Rightarrow> ok \<and> timeout_of cfg < now - t | _ \<Rightarrow> False)"

definition already_warned :: "hb_config \<Rightarrow> hb_input list \<Rightarrow> bool" where
  "already_warned cfg rhist \<longleftrightarrow>
     last_beat rhist \<noteq> 0 \<and> (\<exists>i \<in> set (takeWhile (\<lambda>i. \<not> is_beat i) rhist). late cfg (last_beat rhist) i)"

lemma last_beat_skip: "\<not> is_beat i \<Longrightarrow> last_beat (i # r) = last_beat r"
  by (cases i) (simp_all add: is_beat_def)

lemma already_warned_skip:
  "\<not> is_beat i \<Longrightarrow> already_warned cfg (i # r) \<longleftrightarrow>
     already_warned cfg r \<or> last_beat r \<noteq> 0 \<and> late cfg (last_beat r) i"
  unfolding already_warned_def using last_beat_skip [of i r] by auto

lemma hb_state:
  "lastHeartbeatTimestamp (fst (hb_run cfg is new_heartbeat)) = last_beat (rev is) \<and>
   warned (fst (hb_run cfg is new_heartbeat)) = already_warned cfg (rev is)"
proof (induction "is" rule: rev_induct)
  case Nil
  then show ?case by (simp add: new_heartbeat_def already_warned_def)
next
  case (snoc i "is")
  show ?case
  proof (cases "is_beat i")
    case True
    then obtain p t where "i = Beat p t" by (cases i) (auto simp: is_beat_def)
    then show ?thesis
      by (simp add: hb_run_snoc case_prod_beta Let_def onHeartbeatKernel_def already_warned_def is_beat_def)
  next
    case False
    from False show ?thesis using snoc
      by (cases i)
        (auto simp: hb_run_snoc case_prod_beta Let_def already_warned_skip is_beat_def poll_def hb_start_def hb_stop_def late_def)
  qed
qed

subsection \<open>Properties\<close>


end
