(* ===== verification/Blob_Resolver.thy ===== *)
theory Blob_Resolver
  imports JS_Strings
begin

section \<open>Blob references (\<open>extension/src/llmnb/blob-resolver.ts\<close>)\<close>

text \<open>
  \<open>BlobResolver\<close> replaces content references in a value by the content of the notebook's blob
  table. The hash function is a parameter: \<open>sha256 s\<close> is \<open>Some h\<close> where Node's crypto is
  available and \<open>None\<close> in the renderer, as in the source. An operation returns its result and
  the warnings it logs.
\<close>

record blob_entry =
  content_type :: string
  encoding :: string
  size_bytes :: nat
  blob_data :: string

type_synonym hash = "string \<Rightarrow> string option"

definition BLOB_PREFIX :: string where
  "BLOB_PREFIX = ''$blob:sha256:''"

definition isBlobRef :: "jsv \<Rightarrow> bool" where
  "isBlobRef v = (case v of JStr s \<Rightarrow> startsWith s BLOB_PREFIX | _ \<Rightarrow> False)"

definition resolveString :: "hash \<Rightarrow> (string \<times> blob_entry) list \<Rightarrow> string \<Rightarrow> string \<times> string list" where
  "resolveString sha256 blobs s =
     (if \<not> startsWith s BLOB_PREFIX then (s, [])
      else (let fullKey = drop (length ''$blob:'') s in
        case map_of blobs fullKey of
          None \<Rightarrow> (''[unresolved blob: '' @ fullKey @ '']'', [''[blob-resolver] missing blob: '' @ fullKey])
        | Some entry \<Rightarrow>
            if encoding entry \<noteq> ''utf-8''
            then (''[unsupported blob encoding: '' @ encoding entry @ '']'',
                  [''[blob-resolver] unsupported encoding '' @ [QUOTE] @ encoding entry @ [QUOTE] @ '' for '' @ fullKey @
                   '' (V1 supports utf-8 only)''])
            else (let want = drop (length ''sha256:'') fullKey in
              case sha256 (blob_data entry) of
                None \<Rightarrow> (blob_data entry, [])
              | Some computed \<Rightarrow>
                  if computed \<noteq> want
                  then (''[corrupt blob: '' @ fullKey @ '']'',
                        [''[blob-resolver] hash mismatch for '' @ fullKey @ '': computed='' @ take 16 computed @ ''...''])
                  else (blob_data entry, []))))"

fun resolve :: "hash \<Rightarrow> (string \<times> blob_entry) list \<Rightarrow> jsv \<Rightarrow> jsv \<times> string list" where
  "resolve sha256 blobs (JStr s) = (let (t, w) = resolveString sha256 blobs s in (JStr t, w))"
| "resolve sha256 blobs (JArr xs) =
     (let rs = map (resolve sha256 blobs) xs in (JArr (map fst rs), concat (map snd rs)))"
| "resolve sha256 blobs (JObj kvs) =
     (let rs = map (\<lambda>(k, v). (k, resolve sha256 blobs v)) kvs in
      (JObj (fold (\<lambda>(k, r). js_assign k (fst r)) rs []), concat (map (\<lambda>(k, r). snd r) rs)))"
| "resolve sha256 blobs v = (v, [])"

subsection \<open>Lemmas\<close>

text \<open>Values as programs build them: objects in enumeration order, no own \<open>__proto__\<close>.\<close>

fun plain_value :: "jsv \<Rightarrow> bool" where
  "plain_value (JArr xs) = list_all plain_value xs"
| "plain_value (JObj kvs) = (canonical kvs \<and> list_all (\<lambda>(k, v). k \<noteq> ''__proto__'' \<and> plain_value v) kvs)"
| "plain_value v = True"

fun all_strings :: "(string \<Rightarrow> bool) \<Rightarrow> jsv \<Rightarrow> bool" where
  "all_strings P (JStr s) = P s"
| "all_strings P (JArr xs) = list_all (all_strings P) xs"
| "all_strings P (JObj kvs) = list_all (\<lambda>(k, v). all_strings P v) kvs"
| "all_strings P v = True"

text \<open>Structure-preserving replacement of the strings of a value: what the resolver computes,
  without its loops.\<close>

fun map_strings :: "(string \<Rightarrow> string) \<Rightarrow> jsv \<Rightarrow> jsv" where
  "map_strings f (JStr s) = JStr (f s)"
| "map_strings f (JArr xs) = JArr (map (map_strings f) xs)"
| "map_strings f (JObj kvs) = JObj (map (\<lambda>(k, v). (k, map_strings f v)) kvs)"
| "map_strings f v = v"

fun strings :: "jsv \<Rightarrow> string list" where
  "strings (JStr s) = [s]"
| "strings (JArr xs) = concat (map strings xs)"
| "strings (JObj kvs) = concat (map (\<lambda>(k, v). strings v) kvs)"
| "strings v = []"

lemma concat_map_concat: "concat (map (\<lambda>x. concat (f x)) xs) = concat (concat (map f xs))"
  by (induction xs) simp_all

lemma resolve_map_strings:
  "plain_value v \<Longrightarrow>
   resolve h bl v = (map_strings (\<lambda>s. fst (resolveString h bl s)) v, concat (map (\<lambda>s. snd (resolveString h bl s)) (strings v)))"
proof (induction v)
  case (JArr xs)
  then have "map (resolve h bl) xs =
      map (\<lambda>x. (map_strings (\<lambda>s. fst (resolveString h bl s)) x, concat (map (\<lambda>s. snd (resolveString h bl s)) (strings x)))) xs"
    by (auto simp: list_all_iff)
  then show ?case by (simp add: comp_def map_concat concat_map_concat [symmetric] cong: map_cong)
next
  case (JObj kvs)
  let ?r = "\<lambda>x. (map_strings (\<lambda>s. fst (resolveString h bl s)) x, concat (map (\<lambda>s. snd (resolveString h bl s)) (strings x)))"
  have eq: "map (\<lambda>(k, v). (k, resolve h bl v)) kvs = map (\<lambda>(k, v). (k, ?r v)) kvs"
    using JObj by (fastforce simp: list_all_iff)
  have "fold (\<lambda>(k, r). js_assign k (fst r)) (map (\<lambda>(k, v). (k, ?r v)) kvs) [] =
      fold (\<lambda>(k, v). js_assign k v) (map (\<lambda>(k, v). (k, fst (?r v))) kvs) []"
    by (simp add: fold_map comp_def case_prod_beta)
  also have "\<dots> = map (\<lambda>(k, v). (k, fst (?r v))) kvs"
    using JObj.prems fold_assign_canonical [of "[]" "map (\<lambda>(k, v). (k, fst (?r v))) kvs"]
    by (auto simp: list_all_iff case_prod_beta)
  finally show ?case
    by (simp add: eq comp_def case_prod_beta map_concat concat_map_concat)
qed (simp_all add: case_prod_beta)

text \<open>The four outcomes for one string.\<close>

definition placeholder :: "string \<Rightarrow> bool" where
  "placeholder s \<longleftrightarrow> prefix ''[unresolved blob: '' s \<or> prefix ''[unsupported blob encoding: '' s \<or> prefix ''[corrupt blob: '' s"

lemma placeholder_no_ref: "placeholder s \<Longrightarrow> \<not> startsWith s BLOB_PREFIX"
  by (auto simp: placeholder_def startsWith_def BLOB_PREFIX_def prefix_def)

lemma map_strings_id: "all_strings (\<lambda>s. f s = s) v \<Longrightarrow> map_strings f v = v"
  by (induction v) (auto simp: list_all_iff intro!: map_idI)

lemma all_strings_strings: "all_strings P v \<longleftrightarrow> (\<forall>s \<in> set (strings v). P s)"
  by (induction v) (fastforce simp: list_all_iff)+

lemma strings_map_strings: "strings (map_strings f v) = map f (strings v)"
proof (induction v)
  case (JArr xs)
  then show ?case by (simp add: map_concat comp_def cong: map_cong)
next
  case (JObj kvs)
  then have "map (\<lambda>(k, v). strings (map_strings f v)) kvs = map (\<lambda>(k, v). map f (strings v)) kvs"
    by (fastforce simp: case_prod_beta)
  then show ?case by (simp add: map_concat comp_def case_prod_beta cong: map_cong)
qed simp_all

lemma plain_map_strings: "plain_value v \<Longrightarrow> plain_value (map_strings f v)"
  by (induction v) (fastforce simp: list_all_iff)+

lemma prefix_lengths: "length ''$blob:'' = 6" "length ''sha256:'' = 7"
  by simp_all

lemmas resolveString_eq = resolveString_def [unfolded prefix_lengths Let_def drop_drop]

text \<open>An entry that a reference may be replaced by.\<close>

definition trusted :: "hash \<Rightarrow> (string \<times> blob_entry) list \<Rightarrow> string \<Rightarrow> blob_entry \<Rightarrow> bool" where
  "trusted h bl s e \<longleftrightarrow>
     map_of bl (drop 6 s) = Some e \<and> encoding e = ''utf-8'' \<and> (h (blob_data e) = None \<or> h (blob_data e) = Some (drop 13 s))"

lemma resolve_trusted:
  "startsWith s BLOB_PREFIX \<Longrightarrow> trusted h bl s e \<Longrightarrow> resolveString h bl s = (blob_data e, [])"
  by (auto simp: resolveString_eq trusted_def)

lemma resolve_untrusted:
  assumes "startsWith s BLOB_PREFIX" "\<nexists>e. trusted h bl s e"
  shows "placeholder (fst (resolveString h bl s)) \<and> length (snd (resolveString h bl s)) = 1"
proof (cases "map_of bl (drop 6 s)")
  case None
  with assms show ?thesis by (simp add: resolveString_eq placeholder_def)
next
  case (Some e)
  with assms have "encoding e = ''utf-8'' \<Longrightarrow> \<exists>d. h (blob_data e) = Some d \<and> d \<noteq> drop 13 s"
    by (auto simp: trusted_def)
  with Some assms(1) show ?thesis
    by (cases "encoding e = ''utf-8''") (auto simp: resolveString_eq placeholder_def)
qed

lemma trusted_entry: "trusted h bl s e \<Longrightarrow> \<exists>k. (k, e) \<in> set bl"
  by (auto simp: trusted_def dest!: map_of_SomeD)

lemma resolve_no_ref: "\<not> startsWith s BLOB_PREFIX \<Longrightarrow> resolveString h bl s = (s, [])"
  by (simp add: resolveString_def)

subsection \<open>Properties\<close>



text \<open>Resolving a value, however deeply nested, keeps its structure and replaces each of
  its strings independently; a value without references comes back unchanged without a
  warning; and when the contents in the table are not references themselves, resolving a
  second time changes nothing.\<close>

theorem resolve_structure:
  assumes "plain_value v" "\<forall>(k, e) \<in> set bl. \<not> startsWith (blob_data e) BLOB_PREFIX"
  shows "fst (resolve h bl v) = map_strings (\<lambda>s. fst (resolveString h bl s)) v \<and>
         snd (resolve h bl v) = concat (map (\<lambda>s. snd (resolveString h bl s)) (strings v)) \<and>
         ((\<forall>s \<in> set (strings v). \<not> startsWith s BLOB_PREFIX) \<longrightarrow> resolve h bl v = (v, [])) \<and>
         resolve h bl (fst (resolve h bl v)) = (fst (resolve h bl v), [])"
proof -
  have clean: "resolve h bl u = (u, [])" if "plain_value u" "\<forall>s \<in> set (strings u). \<not> startsWith s BLOB_PREFIX" for u
  proof -
    have "map_strings (\<lambda>s. fst (resolveString h bl s)) u = u"
      using that(2) by (intro map_strings_id) (simp add: all_strings_strings resolveString_def)
    moreover have "concat (map (\<lambda>s. snd (resolveString h bl s)) (strings u)) = []"
      using that(2) by (simp add: resolveString_def)
    ultimately show ?thesis using resolve_map_strings [OF that(1), of h bl] by simp
  qed
  let ?f = "\<lambda>s. fst (resolveString h bl s)"
  have "\<not> startsWith (?f s) BLOB_PREFIX" for s
  proof (cases "startsWith s BLOB_PREFIX")
    case True
    then show ?thesis
      using assms(2) resolve_trusted [OF True, of h bl] resolve_untrusted [OF True, of h bl] placeholder_no_ref
        trusted_entry [of h bl s]
      by (cases "\<exists>e. trusted h bl s e") fastforce+
  qed (simp add: resolve_no_ref)
  then have "resolve h bl (map_strings ?f v) = (map_strings ?f v, [])"
    by (intro clean) (auto simp: plain_map_strings [OF assms(1)] strings_map_strings)
  then show ?thesis using resolve_map_strings [OF assms(1), of h bl] clean [OF assms(1)] by simp
qed

theorem resolve_structure_witness:
  "fst (resolve (\<lambda>s. None) [] (JArr [JStr ''x'', JStr ''$blob:sha256:00''])) =
     JArr [JStr ''x'', JStr ''[unresolved blob: sha256:00]'']"
  using resolve_structure [of "JArr [JStr ''x'', JStr ''$blob:sha256:00'']" "[]" "\<lambda>s. None"]
  by (simp add: resolveString_def startsWith_def BLOB_PREFIX_def)

end
