(* ===== verification/Serializer.thy ===== *)
theory Serializer
  imports JSON_Text
begin

section \<open>The notebook serializer (\<open>extension/src/llmnb/serializer.ts\<close>)\<close>

text \<open>
  \<open>LlmnbNotebookSerializer\<close> reads and writes \<open>.llmnb\<close> files. The text is the decoded UTF-8
  content of the file. VS Code's \<open>NotebookCellOutputItem.json\<close> renders a value as JSON text;
  how it formats it is VS Code's: the parameter \<open>json_text\<close>. The data of an output item is its
  decoded text. Fields of the file that do not have the declared type make the modelled
  functions return an error.
\<close>

datatype cell_kind = Markup | Code

record output_item =
  mime :: string
  item_text :: string

record cell_output =
  items :: "output_item list"
  output_metadata :: jsobj

record cell_data =
  cell_kind_of :: cell_kind
  cell_value :: string
  languageId :: string
  cell_metadata :: jsobj
  cell_outputs :: "cell_output list"

record notebook_data =
  cells :: "cell_data list"
  notebook_metadata :: jsobj

datatype ser_error = Syntax_error | Type_violation

definition RTS_RUN_MIME :: string where
  "RTS_RUN_MIME = ''application/vnd.rts.run+json''"

definition json_mime :: "string \<Rightarrow> bool" where
  "json_mime m \<longleftrightarrow> m = RTS_RUN_MIME \<or> endsWith m ''+json'' \<or> m = ''application/json''"

definition MARKUP_RENDERED_KINDS :: "string list" where
  "MARKUP_RENDERED_KINDS = [''markdown'', ''section'']"

definition markup_kind :: "jsv \<Rightarrow> bool" where
  "markup_kind v = (case v of JStr s \<Rightarrow> s \<in> set MARKUP_RENDERED_KINDS | _ \<Rightarrow> False)"

text \<open>\<open>v && typeof v === 'object' && !Array.isArray(v) ? {...v} : {}\<close>.\<close>

definition object_or_empty :: "jsv \<Rightarrow> jsobj" where
  "object_or_empty v = (case v of JObj kvs \<Rightarrow> js_copy kvs | _ \<Rightarrow> [])"

definition sanitize_cell_slot :: "jsobj \<Rightarrow> jsobj" where
  "sanitize_cell_slot slot =
     (let cell = js_delete ''bound_agent_id'' (js_copy slot) in
      if markup_kind (js_get cell ''kind'') then cell else js_assign ''kind'' (JStr ''markdown'') cell)"

definition sanitizeMarkdownCellMetadata :: "jsobj \<Rightarrow> jsobj" where
  "sanitizeMarkdownCellMetadata meta =
     (let out = js_copy meta;
          rts = object_or_empty (js_get out ''rts'');
          rts1 = (case js_get rts ''cell'' of
              JObj slot \<Rightarrow> js_assign ''cell'' (JObj (sanitize_cell_slot slot)) rts
            | _ \<Rightarrow> js_assign ''cell'' (JObj [(''kind'', JStr ''markdown'')]) rts);
          rts2 = js_delete ''bound_agent_id'' rts1;
          rts3 = (case js_get rts2 ''kind'' of
              JStr k \<Rightarrow> if k \<in> set MARKUP_RENDERED_KINDS then rts2 else js_assign ''kind'' (JStr ''markdown'') rts2
            | _ \<Rightarrow> rts2)
      in js_assign ''rts'' (JObj rts3) out)"

subsection \<open>Writing\<close>

definition encode_item :: "output_item \<Rightarrow> jsobj \<Rightarrow> jsobj" where
  "encode_item it data =
     (if json_mime (mime it)
      then (case JSON_parse (item_text it) of
              Some v \<Rightarrow> js_assign (mime it) v data
            | None \<Rightarrow> js_assign (mime it) (JStr (item_text it)) data)
      else js_assign (mime it) (JStr (item_text it)) data)"

definition encodeOutput :: "cell_output \<Rightarrow> jsv" where
  "encodeOutput out =
     JObj [(''output_type'', JStr ''display_data''), (''data'', JObj (fold encode_item (items out) [])),
           (''metadata'', JObj (output_metadata out))]"

definition encodeCell :: "cell_data \<Rightarrow> jsv" where
  "encodeCell cell =
     (let isMarkup = (cell_kind_of cell = Markup);
          metadata = (if isMarkup then sanitizeMarkdownCellMetadata (cell_metadata cell) else cell_metadata cell)
      in JObj [(''cell_type'', JStr (if isMarkup then ''markdown'' else ''code'')), (''source'', JStr (cell_value cell)),
               (''metadata'', JObj metadata), (''outputs'', JArr (map encodeOutput (cell_outputs cell)))])"

definition raw_document :: "notebook_data \<Rightarrow> jsv" where
  "raw_document nb =
     JObj [(''cells'', JArr (map encodeCell (cells nb))), (''metadata'', JObj (notebook_metadata nb)),
           (''nbformat'', num 4), (''nbformat_minor'', num 5)]"

definition serializeNotebook :: "notebook_data \<Rightarrow> string option" where
  "serializeNotebook nb = JSON_stringify (Some 0) (raw_document nb)"

subsection \<open>Reading\<close>

fun collect :: "('e + 'a) list \<Rightarrow> 'e + 'a list" where
  "collect [] = Inr []"
| "collect (Inl e # rs) = Inl e"
| "collect (Inr x # rs) = (case collect rs of Inl e \<Rightarrow> Inl e | Inr xs \<Rightarrow> Inr (x # xs))"

definition the_object :: "jsv \<Rightarrow> ser_error + jsobj" where
  "the_object v = (case v of JObj kvs \<Rightarrow> Inr kvs | _ \<Rightarrow> Inl Type_violation)"

definition the_array :: "jsv \<Rightarrow> ser_error + jsv list" where
  "the_array v = (case v of JArr xs \<Rightarrow> Inr xs | _ \<Rightarrow> Inl Type_violation)"

definition then_do :: "'e + 'a \<Rightarrow> ('a \<Rightarrow> 'e + 'b) \<Rightarrow> 'e + 'b" where
  "then_do r f = (case r of Inl e \<Rightarrow> Inl e | Inr x \<Rightarrow> f x)"

definition decode_item :: "(jsv \<Rightarrow> string) \<Rightarrow> string \<times> jsv \<Rightarrow> output_item" where
  "decode_item json_text mv =
     (case mv of (m, v) \<Rightarrow>
        if json_mime m then \<lparr>mime = m, item_text = json_text v\<rparr>
        else case v of JStr s \<Rightarrow> \<lparr>mime = m, item_text = s\<rparr> | _ \<Rightarrow> \<lparr>mime = m, item_text = json_text v\<rparr>)"

definition decodeOutput :: "(jsv \<Rightarrow> string) \<Rightarrow> jsv \<Rightarrow> ser_error + cell_output" where
  "decodeOutput json_text raw =
     then_do (the_object (coalesce (jprop raw ''data'') (JObj []))) (\<lambda>data.
     then_do (the_object (coalesce (jprop raw ''metadata'') (JObj []))) (\<lambda>meta.
     Inr \<lparr>items = map (decode_item json_text) data, output_metadata = meta\<rparr>))"

definition source_text :: "jsv \<Rightarrow> ser_error + string" where
  "source_text v =
     (case v of
        JStr s \<Rightarrow> Inr s
      | JArr xs \<Rightarrow> if list_all is_string xs then Inr (concat (map (\<lambda>x. case x of JStr s \<Rightarrow> s | _ \<Rightarrow> []) xs)) else Inl Type_violation
      | _ \<Rightarrow> Inl Type_violation)"

definition decodeCell :: "(jsv \<Rightarrow> string) \<Rightarrow> jsv \<Rightarrow> ser_error + cell_data" where
  "decodeCell json_text c =
     then_do (source_text (jprop c ''source'')) (\<lambda>src.
     then_do (the_object (coalesce (jprop c ''metadata'') (JObj []))) (\<lambda>meta.
     then_do (the_array (coalesce (jprop c ''outputs'') (JArr []))) (\<lambda>outs.
     then_do (collect (map (decodeOutput json_text) outs)) (\<lambda>os.
     (let markup = (jprop c ''cell_type'' = JStr ''markdown'')
      in Inr \<lparr>cell_kind_of = (if markup then Markup else Code), cell_value = src,
              languageId = (if markup then ''markdown'' else ''llmnb-cell''),
              cell_metadata = (if markup then sanitizeMarkdownCellMetadata meta else meta),
              cell_outputs = os\<rparr>)))))"

definition deserializeNotebook :: "(jsv \<Rightarrow> string) \<Rightarrow> string \<Rightarrow> ser_error + notebook_data" where
  "deserializeNotebook json_text content =
     (let text = trim content in
      then_do (if text = [] then Inr (JObj [(''cells'', JArr []), (''metadata'', JObj []), (''nbformat'', num 4), (''nbformat_minor'', num 5)])
               else (case JSON_parse text of Some v \<Rightarrow> Inr v | None \<Rightarrow> Inl Syntax_error)) (\<lambda>raw.
      then_do (if raw = JNull then Inl Type_violation else Inr raw) (\<lambda>raw.
      then_do (the_array (coalesce (jprop raw ''cells'') (JArr []))) (\<lambda>cs.
      then_do (collect (map (decodeCell json_text) cs)) (\<lambda>cells.
      then_do (the_object (coalesce (jprop raw ''metadata'') (JObj []))) (\<lambda>meta.
      Inr \<lparr>cells = cells, notebook_metadata = meta\<rparr>))))))"

subsection \<open>Sanitized metadata\<close>

text \<open>What the rules for markdown cells ask for: no agent bound to the cell, in either shape of
  the metadata, and a kind that VS Code renders as markup.\<close>

definition rts_of :: "jsobj \<Rightarrow> jsobj" where
  "rts_of meta = object_or_empty (js_get meta ''rts'')"

definition markdown_metadata :: "jsobj \<Rightarrow> bool" where
  "markdown_metadata meta \<longleftrightarrow>
     (\<exists>rts cell. js_get meta ''rts'' = JObj rts \<and> js_get rts ''cell'' = JObj cell \<and>
        js_get cell ''bound_agent_id'' = JUndef \<and> ''bound_agent_id'' \<notin> fst ` set cell \<and>
        ''bound_agent_id'' \<notin> fst ` set rts \<and> markup_kind (js_get cell ''kind'') \<and>
        (\<forall>k. js_get rts ''kind'' = JStr k \<longrightarrow> k \<in> set MARKUP_RENDERED_KINDS))"

lemma assign_put [simp]: "k \<noteq> ''__proto__'' \<Longrightarrow> js_assign k v kvs = js_put k v kvs"
  by (simp add: js_assign_def)

lemma sanitize_slot_ok:
  "''bound_agent_id'' \<notin> fst ` set (sanitize_cell_slot slot)"
  "markup_kind (js_get (sanitize_cell_slot slot) ''kind'')"
  by (auto simp: sanitize_cell_slot_def Let_def js_get_put markup_kind_def MARKUP_RENDERED_KINDS_def)

lemma put_same: "map_of kvs k = Some v \<Longrightarrow> canonical kvs \<Longrightarrow> js_put k v kvs = kvs"
proof (induction kvs)
  case (Cons kv kvs)
  obtain k' v' where kv: "kv = (k', v')" by (cases kv)
  show ?case
  proof (cases "k = k'")
    case True
    then show ?thesis using Cons kv by simp
  next
    case False
    then have "k \<in> fst ` set kvs" using Cons.prems kv by (auto dest!: map_of_SomeD) force
    then have "key_before k' k" using Cons.prems kv by (auto simp: canonical_Cons)
    then have "\<not> (array_index k \<noteq> None \<and> key_before k k')" by (auto simp: key_before_def split: option.splits)
    then show ?thesis using Cons kv False by (simp add: canonical_Cons)
  qed
qed simp

lemma js_get_Some: "js_get kvs k = v \<Longrightarrow> v \<noteq> JUndef \<Longrightarrow> map_of kvs k = Some v"
  by (auto simp: js_get_def split: option.splits)

lemma json_copy [simp]: "json_ok (JObj kvs) \<Longrightarrow> js_copy kvs = kvs"
  by simp

lemma slot_json: "json_ok (JObj slot) \<Longrightarrow> json_ok (JObj (sanitize_cell_slot slot))"
  unfolding sanitize_cell_slot_def Let_def using json_ok_delete json_ok_put by (auto simp del: json_ok.simps(8))

text \<open>The steps of the sanitizer on a JSON object.\<close>

definition new_slot :: "jsobj \<Rightarrow> jsobj" where
  "new_slot rts = (case js_get rts ''cell'' of JObj slot \<Rightarrow> sanitize_cell_slot slot | _ \<Rightarrow> [(''kind'', JStr ''markdown'')])"

definition cell_step :: "jsobj \<Rightarrow> jsobj" where
  "cell_step rts = js_put ''cell'' (JObj (new_slot rts)) rts"

definition flat_step :: "jsobj \<Rightarrow> jsobj" where
  "flat_step rts = (case js_get rts ''kind'' of
      JStr k \<Rightarrow> if k \<in> set MARKUP_RENDERED_KINDS then rts else js_put ''kind'' (JStr ''markdown'') rts | _ \<Rightarrow> rts)"

lemma sanitize_steps:
  assumes "json_ok (JObj meta)"
  shows "sanitizeMarkdownCellMetadata meta =
    js_put ''rts'' (JObj (flat_step (js_delete ''bound_agent_id'' (cell_step (rts_of meta))))) meta"
proof -
  have c: "js_copy meta = meta" using assms by simp
  have r: "(case js_get rts ''cell'' of
              JObj slot \<Rightarrow> js_assign ''cell'' (JObj (sanitize_cell_slot slot)) rts
            | _ \<Rightarrow> js_assign ''cell'' (JObj [(''kind'', JStr ''markdown'')]) rts) = cell_step rts" for rts
    by (simp add: cell_step_def new_slot_def split: jsv.split)
  show ?thesis unfolding sanitizeMarkdownCellMetadata_def Let_def c r
    by (simp add: flat_step_def rts_of_def split: jsv.split)
qed

lemma default_slot:
  "''bound_agent_id'' \<notin> fst ` set [(''kind'', JStr ''markdown'')]" "markup_kind (js_get [(''kind'', JStr ''markdown'')] ''kind'')"
  by (simp_all add: js_get_def markup_kind_def MARKUP_RENDERED_KINDS_def)

lemma new_slot_ok: "''bound_agent_id'' \<notin> fst ` set (new_slot rts)" "markup_kind (js_get (new_slot rts) ''kind'')"
  using sanitize_slot_ok default_slot by (simp_all add: new_slot_def split: jsv.split)

lemma cell_step_get: "js_get (cell_step rts) ''cell'' = JObj (new_slot rts)"
  by (simp add: cell_step_def js_get_put)

lemma flat_step_get: "k \<noteq> ''kind'' \<Longrightarrow> js_get (flat_step rts) k = js_get rts k"
  by (auto simp: flat_step_def js_get_put split: jsv.split)

lemma flat_step_kind: "js_get (flat_step rts) ''kind'' = JStr k \<Longrightarrow> k \<in> set MARKUP_RENDERED_KINDS"
  by (auto simp: flat_step_def js_get_put MARKUP_RENDERED_KINDS_def split: jsv.splits if_splits)

lemma flat_step_keys: "''bound_agent_id'' \<notin> fst ` set rts \<Longrightarrow> ''bound_agent_id'' \<notin> fst ` set (flat_step rts)"
  by (auto simp: flat_step_def split: jsv.split)

lemma sanitize_markdown:
  assumes "json_ok (JObj meta)"
  shows "markdown_metadata (sanitizeMarkdownCellMetadata meta)"
proof -
  let ?rts = "flat_step (js_delete ''bound_agent_id'' (cell_step (rts_of meta)))"
  let ?cell = "new_slot (rts_of meta)"
  have "js_get ?rts ''cell'' = JObj ?cell" by (simp add: flat_step_get js_get_delete cell_step_get)
  moreover have "''bound_agent_id'' \<notin> fst ` set ?rts" by (rule flat_step_keys) simp
  ultimately show ?thesis
    unfolding markdown_metadata_def sanitize_steps [OF assms]
    using new_slot_ok [of "rts_of meta"] flat_step_kind [of "js_delete ''bound_agent_id'' (cell_step (rts_of meta))"]
      js_get_notin [OF new_slot_ok(1)]
    by (auto simp: js_get_put)
qed

lemma json_ok_empty: "json_ok (JObj [])"
  by simp

lemma rts_json: "json_ok (JObj meta) \<Longrightarrow> json_ok (JObj (rts_of meta))"
  using json_ok_get [of meta "''rts''"] json_ok_empty
  by (auto simp: rts_of_def object_or_empty_def simp del: json_ok.simps(8) split: jsv.split)

lemma slot_json': "json_ok (JObj rts) \<Longrightarrow> json_ok (JObj (new_slot rts))"
  using json_ok_get [of rts "''cell''"] slot_json
  by (auto simp: new_slot_def canonical_def simp del: json_ok.simps(8) split: jsv.split) (simp_all add: canonical_def)

lemma flat_json: "json_ok (JObj rts) \<Longrightarrow> json_ok (JObj (flat_step rts))"
  using json_ok_put [of rts "JStr ''markdown''" "''kind''"]
  by (auto simp: flat_step_def simp del: json_ok.simps(8) split: jsv.split)

lemma sanitize_json: "json_ok (JObj meta) \<Longrightarrow> json_ok (JObj (sanitizeMarkdownCellMetadata meta))"
  using json_ok_put [of meta] flat_json json_ok_delete rts_json slot_json' json_ok_put [of "rts_of meta"]
  by (simp add: sanitize_steps cell_step_def del: json_ok.simps(8))

lemma sanitize_id:
  assumes "json_ok (JObj meta)" "markdown_metadata meta"
  shows "sanitizeMarkdownCellMetadata meta = meta"
proof -
  obtain rts cell where m: "js_get meta ''rts'' = JObj rts" "js_get rts ''cell'' = JObj cell"
    "''bound_agent_id'' \<notin> fst ` set cell" "''bound_agent_id'' \<notin> fst ` set rts" "markup_kind (js_get cell ''kind'')"
    "\<forall>k. js_get rts ''kind'' = JStr k \<longrightarrow> k \<in> set MARKUP_RENDERED_KINDS"
    using assms(2) by (auto simp: markdown_metadata_def)
  have rj: "json_ok (JObj rts)" using json_ok_get [OF assms(1), of "''rts''"] m(1) by (simp del: json_ok.simps(8))
  have cj: "json_ok (JObj cell)" using json_ok_get [OF rj, of "''cell''"] m(2) by (simp del: json_ok.simps(8))
  have "rts_of meta = rts" using m(1) rj by (simp add: rts_of_def object_or_empty_def)
  moreover have "new_slot rts = cell"
    using m(2,3,5) cj by (simp add: new_slot_def sanitize_cell_slot_def js_delete_id)
  moreover have "js_put ''cell'' (JObj cell) rts = rts"
    using put_same [OF js_get_Some [OF m(2)]] rj by simp
  moreover have "flat_step rts = rts" using m(6) by (auto simp: flat_step_def split: jsv.split)
  moreover have "js_put ''rts'' (JObj rts) meta = meta"
    using put_same [OF js_get_Some [OF m(1)]] assms(1) by simp
  ultimately show ?thesis
    using m(4) by (simp add: sanitize_steps [OF assms(1)] cell_step_def js_delete_id del: json_ok.simps(8))
qed

subsection \<open>Round trip\<close>

text \<open>What a notebook of a running editor looks like: JSON metadata, outputs whose MIME types are
  listed once in property order, and JSON items that were produced by rendering a JSON value (with
  integer numbers, see \<open>json_ok\<close>). A cell may have any language.\<close>

definition item_ok :: "(jsv \<Rightarrow> string) \<Rightarrow> output_item \<Rightarrow> bool" where
  "item_ok json_text it \<longleftrightarrow>
     mime it \<noteq> ''__proto__'' \<and> (json_mime (mime it) \<longrightarrow> (\<exists>v. json_ok v \<and> item_text it = json_text v))"

definition output_ok :: "(jsv \<Rightarrow> string) \<Rightarrow> cell_output \<Rightarrow> bool" where
  "output_ok json_text out \<longleftrightarrow>
     canonical (map (\<lambda>it. (mime it, ())) (items out)) \<and> list_all (item_ok json_text) (items out) \<and>
     json_ok (JObj (output_metadata out))"

definition cell_ok :: "(jsv \<Rightarrow> string) \<Rightarrow> cell_data \<Rightarrow> bool" where
  "cell_ok json_text c \<longleftrightarrow>
     json_ok (JObj (cell_metadata c)) \<and> list_all (output_ok json_text) (cell_outputs c)"

definition notebook_ok :: "(jsv \<Rightarrow> string) \<Rightarrow> notebook_data \<Rightarrow> bool" where
  "notebook_ok json_text nb \<longleftrightarrow> list_all (cell_ok json_text) (cells nb) \<and> json_ok (JObj (notebook_metadata nb))"

definition normalise_cell :: "cell_data \<Rightarrow> cell_data" where
  "normalise_cell c =
     (if cell_kind_of c = Markup
      then c\<lparr>languageId := ''markdown'', cell_metadata := sanitizeMarkdownCellMetadata (cell_metadata c)\<rparr>
      else c\<lparr>languageId := ''llmnb-cell''\<rparr>)"

definition item_value :: "output_item \<Rightarrow> jsv" where
  "item_value it = (if json_mime (mime it) then the (JSON_parse (item_text it)) else JStr (item_text it))"

lemma encode_items:
  assumes "\<forall>v. json_ok v \<longrightarrow> JSON_parse (jt v) = Some v" "output_ok jt out"
  shows "fold encode_item (items out) [] = map (\<lambda>it. (mime it, item_value it)) (items out)"
proof -
  have ok: "list_all (item_ok jt) (items out)" using assms(2) by (simp add: output_ok_def)
  have "encode_item it = js_assign (mime it) (item_value it)" if "item_ok jt it" for it
    using that assms(1) by (auto simp: encode_item_def item_value_def item_ok_def fun_eq_iff)
  then have "fold encode_item (items out) acc =
      fold (\<lambda>(k, v). js_assign k v) (map (\<lambda>it. (mime it, item_value it)) (items out)) acc" for acc
    using ok by (auto simp: fold_map comp_def list_all_iff intro!: fold_cong)
  also have "canonical (map (\<lambda>it. (mime it, item_value it)) (items out))"
    using assms(2) by (simp add: output_ok_def canonical_def comp_def)
  then have "fold (\<lambda>(k, v). js_assign k v) (map (\<lambda>it. (mime it, item_value it)) (items out)) [] =
      map (\<lambda>it. (mime it, item_value it)) (items out)"
    using ok fold_assign_canonical [of "[]" "map (\<lambda>it. (mime it, item_value it)) (items out)"]
    by (simp add: list_all_iff item_ok_def)
  finally show ?thesis .
qed

lemma decode_encode_item:
  assumes "\<forall>v. json_ok v \<longrightarrow> JSON_parse (jt v) = Some v" "item_ok jt it"
  shows "decode_item jt (mime it, item_value it) = it \<and> json_ok (item_value it)"
  using assms by (auto simp: decode_item_def item_value_def item_ok_def)

lemma output_roundtrip:
  assumes "\<forall>v. json_ok v \<longrightarrow> JSON_parse (jt v) = Some v" "output_ok jt out"
  shows "decodeOutput jt (encodeOutput out) = Inr out \<and> json_ok (encodeOutput out)"
proof -
  let ?d = "map (\<lambda>it. (mime it, item_value it)) (items out)"
  have ok: "list_all (item_ok jt) (items out)" using assms(2) by (simp add: output_ok_def)
  have "map (decode_item jt) ?d = items out"
    using ok decode_encode_item [OF assms(1)] by (auto simp: list_all_iff intro!: map_idI)
  moreover have "json_ok (JObj ?d)"
    using ok decode_encode_item [OF assms(1)] assms(2) by (simp add: list_all_iff output_ok_def canonical_def comp_def)
  moreover have "json_ok (JObj (output_metadata out))" using assms(2) by (simp add: output_ok_def)
  moreover have "canonical [(''output_type'', a), (''data'', b), (''metadata'', c)]" for a b c :: jsv
    by (simp add: canonical_def key_before_def array_index_def canonical_digits_def is_digit_def)
  ultimately show ?thesis
    unfolding encodeOutput_def encode_items [OF assms]
    by (simp add: decodeOutput_def then_do_def the_object_def coalesce_def nullish_def js_get_def)
qed

lemma collect_map: "\<forall>x \<in> set xs. f x = Inr (g x) \<Longrightarrow> collect (map f xs) = Inr (map g xs)"
  by (induction xs) auto

lemma code_cell_eq:
  fixes c :: cell_data
  assumes "cell_kind_of c \<noteq> Markup"
  shows "\<lparr>cell_kind_of = Code, cell_value = cell_value c, languageId = ''llmnb-cell'', cell_metadata = cell_metadata c,
          cell_outputs = cell_outputs c\<rparr> = c\<lparr>languageId := ''llmnb-cell''\<rparr>"
  using assms by (cases c; cases "cell_kind_of c") simp_all

lemma cell_roundtrip:
  assumes "\<forall>v. json_ok v \<longrightarrow> JSON_parse (jt v) = Some v" "cell_ok jt c"
  shows "decodeCell jt (encodeCell c) = Inr (normalise_cell c) \<and> json_ok (encodeCell c)"
proof -
  let ?m = "if cell_kind_of c = Markup then sanitizeMarkdownCellMetadata (cell_metadata c) else cell_metadata c"
  have outs: "\<forall>out \<in> set (cell_outputs c). decodeOutput jt (encodeOutput out) = Inr out \<and> json_ok (encodeOutput out)"
    using assms(2) output_roundtrip [OF assms(1)] by (simp add: cell_ok_def list_all_iff)
  have mj: "json_ok (JObj (cell_metadata c))" using assms(2) by (simp add: cell_ok_def)
  then have "json_ok (JObj ?m)" using sanitize_json by simp
  moreover have "sanitizeMarkdownCellMetadata (sanitizeMarkdownCellMetadata (cell_metadata c)) =
      sanitizeMarkdownCellMetadata (cell_metadata c)"
    using sanitize_id sanitize_markdown sanitize_json mj by blast
  moreover have "collect (map (decodeOutput jt) (map encodeOutput (cell_outputs c))) = Inr (cell_outputs c)"
    using collect_map [of "cell_outputs c" "\<lambda>x. decodeOutput jt (encodeOutput x)" "\<lambda>x. x"] outs by (simp add: comp_def)
  moreover have "canonical [(''cell_type'', a), (''source'', b), (''metadata'', d), (''outputs'', e)]" for a b d e :: jsv
    by (simp add: canonical_def key_before_def array_index_def canonical_digits_def is_digit_def)
  ultimately show ?thesis
    using outs assms(2)
    by (auto simp: encodeCell_def decodeCell_def Let_def then_do_def source_text_def the_object_def the_array_def
        coalesce_def nullish_def js_get_def normalise_cell_def cell_ok_def list_all_iff code_cell_eq)
qed

definition normalise :: "notebook_data \<Rightarrow> notebook_data" where
  "normalise nb = nb\<lparr>cells := map normalise_cell (cells nb)\<rparr>"

lemma raw_document_ok:
  assumes "\<forall>v. json_ok v \<longrightarrow> JSON_parse (jt v) = Some v" "notebook_ok jt nb"
  shows "json_ok (raw_document nb)"
proof -
  have "list_all json_ok (map encodeCell (cells nb))"
    using assms cell_roundtrip [OF assms(1)] by (simp add: notebook_ok_def list_all_iff)
  moreover have "canonical [(''cells'', a), (''metadata'', b), (''nbformat'', c), (''nbformat_minor'', d)]" for a b c d :: jsv
    by (simp add: canonical_def key_before_def array_index_def canonical_digits_def is_digit_def)
  ultimately show ?thesis
    using assms(2) by (simp add: raw_document_def notebook_ok_def rat_is_int_def safe_int_def max_safe_integer_def)
qed

lemma object_text_trim: "trim (ser (Some 0) (JObj kvs)) = ser (Some 0) (JObj kvs)"
  by (rule trim_id) (simp add: wrap_def is_ws_def)

text \<open>C6. A notebook survives saving and reopening, except for the languages of its cells. For every
  notebook of the editor whose JSON values have safe integer numbers: writing it gives a text, and
  reading that text gives a notebook with the same notebook metadata and the same cells in the same
  order, each with its kind, source text and outputs, code cells with their metadata, markup cells
  with theirs sanitized; but every code cell comes back with the language \<open>llmnb-cell\<close> and every
  markup cell with \<open>markdown\<close>, whatever language it had. A second save and reopen changes nothing more.\<close>

theorem serializer_roundtrip:
  assumes "\<forall>v. json_ok v \<longrightarrow> JSON_parse (json_text v) = Some v" "notebook_ok json_text nb"
  shows "\<exists>text. serializeNotebook nb = Some text \<and>
           deserializeNotebook json_text text = Inr (normalise nb) \<and>
           notebook_metadata (normalise nb) = notebook_metadata nb \<and>
           list_all2 (\<lambda>c c'. cell_kind_of c' = cell_kind_of c \<and> cell_value c' = cell_value c \<and> cell_outputs c' = cell_outputs c \<and>
               cell_metadata c' = (if cell_kind_of c = Markup then sanitizeMarkdownCellMetadata (cell_metadata c) else cell_metadata c) \<and>
               languageId c' = (if cell_kind_of c = Markup then ''markdown'' else ''llmnb-cell''))
             (cells nb) (cells (normalise nb)) \<and>
           normalise (normalise nb) = normalise nb"
proof -
  let ?raw = "raw_document nb"
  have ok: "json_ok ?raw" using raw_document_ok [OF assms] .
  have cells: "\<forall>c \<in> set (cells nb). decodeCell json_text (encodeCell c) = Inr (normalise_cell c)"
    using assms(2) cell_roundtrip [OF assms(1)] by (simp add: notebook_ok_def list_all_iff)
  then have "collect (map (decodeCell json_text) (map encodeCell (cells nb))) = Inr (map normalise_cell (cells nb))"
    using collect_map [of "cells nb" "\<lambda>c. decodeCell json_text (encodeCell c)" normalise_cell] by (simp add: comp_def)
  moreover have "trim (ser (Some 0) ?raw) = ser (Some 0) ?raw" unfolding raw_document_def by (rule object_text_trim)
  moreover have "ser (Some 0) ?raw \<noteq> []" using ser_start [OF ok] by blast
  ultimately have "deserializeNotebook json_text (ser (Some 0) ?raw) = Inr (normalise nb)"
    using JSON_parse_ser [OF ok, of "Some 0"]
    by (simp add: deserializeNotebook_def Let_def then_do_def raw_document_def the_array_def the_object_def coalesce_def
        nullish_def js_get_def normalise_def)
  moreover have "\<forall>c \<in> set (cells nb). normalise_cell (normalise_cell c) = normalise_cell c"
    using assms(2) sanitize_id sanitize_markdown sanitize_json
    by (auto simp: notebook_ok_def cell_ok_def list_all_iff normalise_cell_def simp del: json_ok.simps(8))
  moreover have "list_all2 (\<lambda>c c'. cell_kind_of c' = cell_kind_of c \<and> cell_value c' = cell_value c \<and> cell_outputs c' = cell_outputs c \<and>
      cell_metadata c' = (if cell_kind_of c = Markup then sanitizeMarkdownCellMetadata (cell_metadata c) else cell_metadata c) \<and>
      languageId c' = (if cell_kind_of c = Markup then ''markdown'' else ''llmnb-cell'')) (cells nb) (cells (normalise nb))"
    by (simp add: normalise_def list_all2_map2 list.rel_refl normalise_cell_def)
  ultimately show ?thesis
    using ok by (auto simp: serializeNotebook_def JSON_stringify_def json_ok_no_bigint normalise_def)
qed

text \<open>The hypothesis on \<open>json_text\<close> can hold: the renderer of this development is one.\<close>

definition demo_notebook :: notebook_data where
  "demo_notebook = \<lparr>cells = [\<lparr>cell_kind_of = Markup, cell_value = ''# hi'', languageId = ''markdown'',
       cell_metadata = [(''rts'', JObj [(''cell'', JObj [(''bound_agent_id'', JStr ''a'')])])], cell_outputs = []\<rparr>,
     \<lparr>cell_kind_of = Code, cell_value = ''x'', languageId = ''plaintext'', cell_metadata = [],
       cell_outputs = [\<lparr>items = [\<lparr>mime = ''application/json'', item_text = ser (Some 0) (JBool True)\<rparr>], output_metadata = []\<rparr>]\<rparr>],
     notebook_metadata = [(''k'', JNull)]\<rparr>"

theorem serializer_roundtrip_witness:
  "\<exists>text. serializeNotebook demo_notebook = Some text \<and>
     deserializeNotebook (ser (Some 0)) text = Inr (normalise demo_notebook)"
proof -
  have "notebook_ok (ser (Some 0)) demo_notebook"
    by (auto simp: notebook_ok_def demo_notebook_def cell_ok_def output_ok_def item_ok_def canonical_def)
       (metis json_ok.simps(3) ser.simps(3))
  then show ?thesis using serializer_roundtrip [of "ser (Some 0)" demo_notebook] JSON_parse_ser by blast
qed

text \<open>Markdown cells never carry an agent. The sanitizer, applied on load and on save,
  yields metadata in which neither shape of the metadata binds an agent and the kind is one
  that renders as markup; it keeps metadata that is already so, and every other key of the
  metadata.\<close>

theorem markdown_cells_unbound:
  assumes "json_ok (JObj meta)"
  shows "markdown_metadata (sanitizeMarkdownCellMetadata meta) \<and>
         (markdown_metadata meta \<longrightarrow> sanitizeMarkdownCellMetadata meta = meta) \<and>
         (\<forall>k. k \<noteq> ''rts'' \<longrightarrow> js_get (sanitizeMarkdownCellMetadata meta) k = js_get meta k) \<and>
         (\<forall>k rts rts'. js_get meta ''rts'' = JObj rts \<and> js_get (sanitizeMarkdownCellMetadata meta) ''rts'' = JObj rts' \<and>
            k \<notin> {''cell'', ''kind'', ''bound_agent_id''} \<longrightarrow> js_get rts' k = js_get rts k)"
proof -
  have "js_get rts' k = js_get rts k" if "js_get meta ''rts'' = JObj rts"
    "js_get (sanitizeMarkdownCellMetadata meta) ''rts'' = JObj rts'" "k \<notin> {''cell'', ''kind'', ''bound_agent_id''}" for k rts rts'
  proof -
    have "json_ok (JObj rts)" using json_ok_get [OF assms, of "''rts''"] that(1) by (simp del: json_ok.simps(8))
    then have "rts_of meta = rts" using that(1) by (simp add: rts_of_def object_or_empty_def)
    then show ?thesis using that(2,3) by (auto simp: sanitize_steps [OF assms] js_get_put flat_step_get js_get_delete cell_step_def)
  qed
  then show ?thesis
    using sanitize_markdown [OF assms] sanitize_id [OF assms] by (auto simp: sanitize_steps [OF assms] js_get_put)
qed

theorem markdown_cells_unbound_witness:
  "markdown_metadata (sanitizeMarkdownCellMetadata [(''rts'', JObj [(''bound_agent_id'', JStr ''a''), (''kind'', JStr ''agent'')])])"
  using markdown_cells_unbound [of "[(''rts'', JObj [(''bound_agent_id'', JStr ''a''), (''kind'', JStr ''agent'')])]"]
  by (simp add: canonical_def key_before_def array_index_def canonical_digits_def is_digit_def)

end
