(* ===== verification/Metadata_Applier.thy ===== *)
theory Metadata_Applier
  imports JSON_Text Router
begin

section \<open>Applying metadata snapshots (\<open>extension/src/notebook/metadata-applier.ts\<close>)\<close>

text \<open>
  \<open>NotebookMetadataApplier\<close> validates the kernel's \<open>notebook.metadata\<close> payloads and applies
  them to the open notebook. \<open>onNotebookMetadata\<close> is synchronous up to the call of
  \<open>vscode.workspace.applyEdit\<close>; what follows the await is a step of its own. Edits in flight
  are completed by VS Code in the order they were issued; a completed edit replaces the
  notebook's metadata by the object that was computed when it was issued. Snapshot versions
  are declared numbers and are integers here.
\<close>

text \<open>\<open>String(v)\<close>.\<close>

fun js_String :: "jsv \<Rightarrow> string" where
  "js_String JUndef = ''undefined''"
| "js_String JNull = ''null''"
| "js_String (JBool b) = (if b then ''true'' else ''false'')"
| "js_String (JNum x) = (case x of PosInf \<Rightarrow> ''Infinity'' | NegInf \<Rightarrow> ''-Infinity'' | NaN \<Rightarrow> ''NaN'' | Fin r \<Rightarrow> show_num x)"
| "js_String (JBigInt n) = show_int n"
| "js_String (JStr s) = s"
| "js_String (JArr xs) = join '','' (map (\<lambda>x. if nullish x then [] else js_String x) xs)"
| "js_String (JObj kvs) = ''[object Object]''"

definition RFC005_SCHEMA_MAJOR :: string where
  "RFC005_SCHEMA_MAJOR = ''1''"

text \<open>\<open>String(snapshot.schema_version ?? '').split('.')[0]\<close>.\<close>

definition schema_major :: "jsv \<Rightarrow> string" where
  "schema_major snap = hd (split_char CHR ''.'' (js_String (coalesce (jprop snap ''schema_version'') (JStr []))))"

datatype fail_reason = Schema_version_major_mismatch | Non_monotonic_snapshot | Unsupported_mode | No_active_notebook | Apply_failed

record ma_failure =
  reason :: fail_reason
  fail_version :: int
  expected_schema_major :: "string option"
  observed_schema_major :: "string option"
  last_accepted_version :: "int option"
  detail :: "string option"

record metadata_payload =
  mode :: jsv
  snapshot_version :: int
  snapshot :: jsv

record edit =
  edit_snapshot :: jsv
  edit_version :: int
  next_metadata :: jsobj

record applier =
  lastAcceptedVersion :: "int option"
  document :: "jsobj option"
  in_flight :: "edit list"

datatype ma_effect = Fail ma_failure | Accepted int | MLog log_level string

definition failure :: "fail_reason \<Rightarrow> int \<Rightarrow> ma_failure" where
  "failure r v = \<lparr>reason = r, fail_version = v, expected_schema_major = None, observed_schema_major = None,
     last_accepted_version = None, detail = None\<rparr>"

text \<open>\<open>apply\<close> up to its await.\<close>

definition apply_begin :: "jsv \<Rightarrow> int \<Rightarrow> applier \<Rightarrow> applier \<times> ma_effect list" where
  "apply_begin snap v st =
     (case document st of
        None \<Rightarrow> (st, [MLog LWarn (''[metadata-applier] no active llmnb notebook to apply snapshot v='' @ show_int v),
                      Fail (failure No_active_notebook v)])
      | Some current \<Rightarrow>
          (st\<lparr>in_flight := in_flight st @
                [\<lparr>edit_snapshot = snap, edit_version = v, next_metadata = js_put ''rts'' snap (js_copy current)\<rparr>]\<rparr>, []))"

definition onNotebookMetadata :: "metadata_payload \<Rightarrow> applier \<Rightarrow> applier \<times> ma_effect list" where
  "onNotebookMetadata p st =
     (let v = snapshot_version p; snap = snapshot p in
      if mode p \<noteq> JStr ''snapshot''
      then (st, [MLog LWarn (''[metadata-applier] unsupported mode '' @ [QUOTE] @ js_String (mode p) @ [QUOTE] @
                   '' (V1 supports '' @ [QUOTE] @ ''snapshot'' @ [QUOTE] @ '' only) - discarding''),
                 Fail ((failure Unsupported_mode v)\<lparr>detail := Some (''mode='' @ js_String (mode p))\<rparr>)])
      else if \<not> truthy snap \<or> \<not> typeof_object snap
      then (st, [MLog LWarn ''[metadata-applier] snapshot mode but no `snapshot` field; discarding'',
                 Fail ((failure Apply_failed v)\<lparr>detail := Some ''snapshot field is missing or non-object''\<rparr>)])
      else if schema_major snap \<noteq> RFC005_SCHEMA_MAJOR
      then (st, [MLog LError (''[metadata-applier] W7 schema_version major mismatch: expected='' @ [QUOTE] @
                   RFC005_SCHEMA_MAJOR @ [QUOTE] @ '' observed='' @ [QUOTE] @ schema_major snap @ [QUOTE] @
                   '' (full='' @ [QUOTE] @ js_String (jprop snap ''schema_version'') @ [QUOTE] @ '')''),
                 Fail ((failure Schema_version_major_mismatch v)
                   \<lparr>expected_schema_major := Some RFC005_SCHEMA_MAJOR, observed_schema_major := Some (schema_major snap)\<rparr>)])
      else (case lastAcceptedVersion st of
              Some prev \<Rightarrow>
                if v < prev
                then (st, [MLog LError (''[metadata-applier] W8 non-monotonic snapshot_version: received='' @ show_int v @
                             '' last='' @ show_int prev),
                           Fail ((failure Non_monotonic_snapshot v)\<lparr>last_accepted_version := Some prev\<rparr>)])
                else apply_begin snap v st
            | None \<Rightarrow> apply_begin snap v st))"

datatype edit_result = Edit_ok | Edit_false | Edit_threw string

text \<open>\<open>apply\<close> after its await, for the oldest edit in flight. (The notebook's URI in two log
  lines is left out.)\<close>

definition apply_finish :: "edit_result \<Rightarrow> applier \<Rightarrow> applier \<times> ma_effect list" where
  "apply_finish res st =
     (case in_flight st of
        [] \<Rightarrow> (st, [])
      | e # es \<Rightarrow>
          (let v = edit_version e; st1 = st\<lparr>in_flight := es\<rparr> in
           case res of
             Edit_ok \<Rightarrow>
               (st1\<lparr>document := Some (next_metadata e), lastAcceptedVersion := Some v\<rparr>,
                [MLog LDebug (''[metadata-applier] applied snapshot v='' @ show_int v), Accepted v])
           | Edit_false \<Rightarrow>
               (st1, [MLog LError (''[metadata-applier] applyEdit returned false (v='' @ show_int v @ '')''),
                      Fail ((failure Apply_failed v)\<lparr>detail := Some ''vscode.workspace.applyEdit returned false''\<rparr>)])
           | Edit_threw err \<Rightarrow>
               (st1, [MLog LError (''[metadata-applier] applyEdit threw: '' @ err),
                      Fail ((failure Apply_failed v)\<lparr>detail := Some err\<rparr>)])))"

subsection \<open>Validation\<close>

definition valid_snapshot :: "metadata_payload \<Rightarrow> applier \<Rightarrow> bool" where
  "valid_snapshot p st \<longleftrightarrow>
     mode p = JStr ''snapshot'' \<and> is_objectlike (snapshot p) \<and> schema_major (snapshot p) = RFC005_SCHEMA_MAJOR \<and>
     (\<forall>prev. lastAcceptedVersion st = Some prev \<longrightarrow> prev \<le> snapshot_version p)"

fun failures :: "ma_effect list \<Rightarrow> ma_failure list" where
  "failures [] = []"
| "failures (e # es) = (case e of Fail f \<Rightarrow> [f] | _ \<Rightarrow> []) @ failures es"

fun accepted :: "ma_effect list \<Rightarrow> int list" where
  "accepted [] = []"
| "accepted (e # es) = (case e of Accepted v \<Rightarrow> [v] | _ \<Rightarrow> []) @ accepted es"

lemma accepted_append [simp]: "accepted (xs @ ys) = accepted xs @ accepted ys"
  by (induction xs) auto

lemma receive_valid:
  assumes "valid_snapshot p st"
  shows "onNotebookMetadata p st = apply_begin (snapshot p) (snapshot_version p) st"
  using assms by (auto simp: onNotebookMetadata_def Let_def valid_snapshot_def is_objectlike_def split: option.split)

lemma receive_invalid:
  assumes "\<not> valid_snapshot p st"
  shows "fst (onNotebookMetadata p st) = st \<and> length (failures (snd (onNotebookMetadata p st))) = 1 \<and>
         accepted (snd (onNotebookMetadata p st)) = []"
  using assms by (auto simp: onNotebookMetadata_def Let_def valid_snapshot_def is_objectlike_def split: option.split)

lemma receive_no_accept: "accepted (snd (onNotebookMetadata p st)) = []"
  by (cases "valid_snapshot p st") (simp_all add: receive_invalid receive_valid apply_begin_def split: option.split)

text \<open>C31. Which payloads are applied. An edit is issued exactly for a payload in snapshot
  mode whose snapshot is an object of schema major 1, whose version is not below the last
  accepted one, while a notebook is open; the edit sets the key \<open>rts\<close> to the snapshot and keeps
  every other key of the notebook's metadata. Every other payload leaves the state as it is
  and reports exactly one failure, with its version and the reason of the first rule it breaks, in
  the order mode, snapshot object, schema major, version, open notebook.\<close>

theorem snapshot_validation:
  "(valid_snapshot p st \<and> document st = Some doc \<longrightarrow>
      onNotebookMetadata p st =
        (st\<lparr>in_flight := in_flight st @ [\<lparr>edit_snapshot = snapshot p, edit_version = snapshot_version p,
              next_metadata = js_put ''rts'' (snapshot p) (js_copy doc)\<rparr>]\<rparr>, [])) \<and>
   (\<not> (valid_snapshot p st \<and> document st \<noteq> None) \<longrightarrow>
      fst (onNotebookMetadata p st) = st \<and> (\<exists>f. failures (snd (onNotebookMetadata p st)) = [f] \<and>
        fail_version f = snapshot_version p \<and>
        reason f =
          (if mode p \<noteq> JStr ''snapshot'' then Unsupported_mode
           else if \<not> is_objectlike (snapshot p) then Apply_failed
           else if schema_major (snapshot p) \<noteq> ''1'' then Schema_version_major_mismatch
           else if \<exists>prev. lastAcceptedVersion st = Some prev \<and> snapshot_version p < prev then Non_monotonic_snapshot
           else No_active_notebook)))"
proof (cases "valid_snapshot p st")
  case True
  then show ?thesis
    using receive_valid [OF True] by (cases "document st") (auto simp: apply_begin_def failure_def valid_snapshot_def RFC005_SCHEMA_MAJOR_def)
next
  case False
  then show ?thesis
    by (auto simp: onNotebookMetadata_def Let_def valid_snapshot_def is_objectlike_def failure_def apply_begin_def
        RFC005_SCHEMA_MAJOR_def split: option.splits)
qed

definition demo_payload :: "int \<Rightarrow> metadata_payload" where
  "demo_payload v = \<lparr>mode = JStr ''snapshot'', snapshot_version = v,
     snapshot = JObj [(''schema_version'', JStr ''1.0.0''), (''v'', num v)]\<rparr>"

definition demo_applier :: applier where
  "demo_applier = \<lparr>lastAcceptedVersion = None, document = Some [(''kernelspec'', JNull)], in_flight = []\<rparr>"

lemma demo_valid: "valid_snapshot (demo_payload v) demo_applier"
  by (simp add: valid_snapshot_def demo_payload_def demo_applier_def schema_major_def coalesce_def nullish_def
      js_get_def RFC005_SCHEMA_MAJOR_def)

theorem snapshot_validation_witness:
  "map edit_version (in_flight (fst (onNotebookMetadata (demo_payload 5) demo_applier))) = [5]"
proof -
  have "document demo_applier = Some [(''kernelspec'', JNull)]" by (simp add: demo_applier_def)
  with snapshot_validation [of "demo_payload 5" demo_applier "[(''kernelspec'', JNull)]"] demo_valid [of 5]
  show ?thesis by (simp add: demo_applier_def demo_payload_def)
qed

subsection \<open>Sequences of payloads\<close>

text \<open>A payload whose edit completes before the next payload arrives.\<close>

definition deliver_awaited :: "metadata_payload \<times> edit_result \<Rightarrow> applier \<Rightarrow> applier \<times> ma_effect list" where
  "deliver_awaited pr st =
     (let (st1, e1) = onNotebookMetadata (fst pr) st; (st2, e2) = apply_finish (snd pr) st1 in (st2, e1 @ e2))"

fun deliver_seq :: "(metadata_payload \<times> edit_result) list \<Rightarrow> applier \<Rightarrow> applier \<times> ma_effect list" where
  "deliver_seq [] st = (st, [])"
| "deliver_seq (pr # prs) st = (let (st1, e1) = deliver_awaited pr st; (st2, e2) = deliver_seq prs st1 in (st2, e1 @ e2))"

text \<open>One awaited payload is accepted, or it changes nothing.\<close>

lemma deliver_awaited_cases:
  assumes "in_flight st = []" "document st = Some doc" "canonical doc"
  shows "(valid_snapshot p st \<and> accepted (snd (deliver_awaited (p, r) st)) = [snapshot_version p] \<and>
           fst (deliver_awaited (p, r) st) =
             st\<lparr>lastAcceptedVersion := Some (snapshot_version p), document := Some (js_put ''rts'' (snapshot p) doc)\<rparr>) \<or>
         (accepted (snd (deliver_awaited (p, r) st)) = [] \<and> fst (deliver_awaited (p, r) st) = st)"
proof (cases "valid_snapshot p st")
  case True
  have st: "st\<lparr>in_flight := []\<rparr> = st" using assms(1) by (cases st) simp
  show ?thesis
    using receive_valid [OF True] True assms st
    by (cases r) (auto simp: deliver_awaited_def apply_begin_def apply_finish_def Let_def)
next
  case False
  then show ?thesis
    using receive_invalid [OF False] assms(1)
    by (auto simp: deliver_awaited_def apply_finish_def Let_def case_prod_beta)
qed

definition quiet :: "applier \<Rightarrow> bool" where
  "quiet st \<longleftrightarrow> in_flight st = [] \<and> (\<exists>doc. document st = Some doc \<and> canonical doc)"

lemma awaited_step:
  assumes "quiet st"
  obtains (accepted) "quiet (fst (deliver_awaited (p, r) st))" "accepted (snd (deliver_awaited (p, r) st)) = [snapshot_version p]"
      "lastAcceptedVersion (fst (deliver_awaited (p, r) st)) = Some (snapshot_version p)"
      "\<forall>prev. lastAcceptedVersion st = Some prev \<longrightarrow> prev \<le> snapshot_version p"
      "js_get (the (document (fst (deliver_awaited (p, r) st)))) ''rts'' = snapshot p"
      "\<forall>k. k \<noteq> ''rts'' \<longrightarrow> js_get (the (document (fst (deliver_awaited (p, r) st)))) k = js_get (the (document st)) k"
  | (ignored) "accepted (snd (deliver_awaited (p, r) st)) = []" "fst (deliver_awaited (p, r) st) = st"
proof -
  obtain doc where d: "in_flight st = []" "document st = Some doc" "canonical doc" using assms by (auto simp: quiet_def)
  from deliver_awaited_cases [OF this, of p r] show thesis
  proof
    assume a: "valid_snapshot p st \<and> accepted (snd (deliver_awaited (p, r) st)) = [snapshot_version p] \<and>
       fst (deliver_awaited (p, r) st) =
         st\<lparr>lastAcceptedVersion := Some (snapshot_version p), document := Some (js_put ''rts'' (snapshot p) doc)\<rparr>"
    note eq = a [THEN conjunct2, THEN conjunct2]
    show thesis
      by (rule accepted, unfold eq, insert a d)
        (simp_all add: quiet_def canonical_js_put js_get_put valid_snapshot_def)
  qed (use ignored in simp)
qed

lemma deliver_seq_Cons:
  "fst (deliver_seq (pr # prs) st) = fst (deliver_seq prs (fst (deliver_awaited pr st)))"
  "accepted (snd (deliver_seq (pr # prs) st)) =
     accepted (snd (deliver_awaited pr st)) @ accepted (snd (deliver_seq prs (fst (deliver_awaited pr st))))"
  by (simp_all add: Let_def case_prod_beta)

lemma seq_frame:
  "quiet st \<Longrightarrow> quiet (fst (deliver_seq prs st)) \<and>
     (k \<noteq> ''rts'' \<longrightarrow> js_get (the (document (fst (deliver_seq prs st)))) k = js_get (the (document st)) k) \<and>
     (accepted (snd (deliver_seq prs st)) = [] \<longrightarrow> fst (deliver_seq prs st) = st)"
proof (induction prs arbitrary: st)
  case (Cons pr prs)
  obtain p r where pr: "pr = (p, r)" by (cases pr)
  show ?case unfolding deliver_seq_Cons pr
    by (rule awaited_step [OF Cons.prems, of p r]) (use Cons in \<open>simp_all add: \<close>)
qed simp

lemma seq_sorted:
  "quiet st \<Longrightarrow> sorted ((case lastAcceptedVersion st of Some v \<Rightarrow> [v] | None \<Rightarrow> []) @ accepted (snd (deliver_seq prs st))) \<and>
     (accepted (snd (deliver_seq prs st)) \<noteq> [] \<longrightarrow>
        lastAcceptedVersion (fst (deliver_seq prs st)) = Some (last (accepted (snd (deliver_seq prs st)))))"
proof (induction prs arbitrary: st)
  case Nil
  then show ?case by (simp split: option.split)
next
  case (Cons pr prs)
  obtain p r where pr: "pr = (p, r)" by (cases pr)
  let ?d = "deliver_awaited (p, r) st"
  show ?case unfolding deliver_seq_Cons pr
  proof (rule awaited_step [OF Cons.prems, of p r])
    assume a: "quiet (fst ?d)" "accepted (snd ?d) = [snapshot_version p]" "lastAcceptedVersion (fst ?d) = Some (snapshot_version p)"
      "\<forall>prev. lastAcceptedVersion st = Some prev \<longrightarrow> prev \<le> snapshot_version p"
    from Cons.IH [OF a(1)] have IH: "sorted (snapshot_version p # accepted (snd (deliver_seq prs (fst ?d))))"
      "accepted (snd (deliver_seq prs (fst ?d))) \<noteq> [] \<longrightarrow>
        lastAcceptedVersion (fst (deliver_seq prs (fst ?d))) = Some (last (accepted (snd (deliver_seq prs (fst ?d)))))"
      by (simp_all add: a(3))
    have "accepted (snd (deliver_seq prs (fst ?d))) = [] \<longrightarrow> fst (deliver_seq prs (fst ?d)) = fst ?d"
      using seq_frame [OF a(1)] by blast
    then show "sorted ((case lastAcceptedVersion st of Some v \<Rightarrow> [v] | None \<Rightarrow> []) @ accepted (snd ?d) @ accepted (snd (deliver_seq prs (fst ?d)))) \<and>
      (accepted (snd ?d) @ accepted (snd (deliver_seq prs (fst ?d))) \<noteq> [] \<longrightarrow>
        lastAcceptedVersion (fst (deliver_seq prs (fst ?d))) = Some (last (accepted (snd ?d) @ accepted (snd (deliver_seq prs (fst ?d))))))"
      using IH a(2-4) by (cases "accepted (snd (deliver_seq prs (fst ?d))) = []") (auto split: option.split)
  qed (use Cons in simp)
qed

lemma seq_source:
  "quiet st \<Longrightarrow> accepted (snd (deliver_seq prs st)) \<noteq> [] \<Longrightarrow>
   \<exists>x \<in> set prs. js_get (the (document (fst (deliver_seq prs st)))) ''rts'' = snapshot (fst x) \<and>
     snapshot_version (fst x) = last (accepted (snd (deliver_seq prs st)))"
proof (induction prs arbitrary: st)
  case (Cons pr prs)
  obtain p r where pr: "pr = (p, r)" by (cases pr)
  let ?d = "deliver_awaited (p, r) st"
  let ?s = "deliver_seq prs (fst ?d)"
  have q: "quiet (fst ?d)" by (rule awaited_step [OF Cons.prems(1), of p r]) (use Cons.prems(1) in simp_all)
  show ?case
  proof (cases "accepted (snd ?s) = []")
    case False
    then show ?thesis using Cons.IH [OF q False] unfolding deliver_seq_Cons pr by simp
  next
    case True
    then have same: "fst ?s = fst ?d" using seq_frame [OF q] by blast
    have "accepted (snd ?d) \<noteq> []" using Cons.prems(2) True unfolding deliver_seq_Cons pr by simp
    then have "accepted (snd ?d) = [snapshot_version p] \<and> js_get (the (document (fst ?d))) ''rts'' = snapshot p"
      by (rule_tac awaited_step [OF Cons.prems(1), of p r]) simp_all
    then show ?thesis unfolding deliver_seq_Cons pr same True by simp
  qed
qed simp

text \<open>C9. Snapshots are applied in version order. As long as each edit completes before the
  next payload arrives, for every sequence of payloads, valid or not, whatever VS Code answers
  to each edit: the accepted versions never decrease, the last accepted version is the last of
  them, the notebook's \<open>rts\<close> is the snapshot that carried it, and no other key of the notebook's
  metadata ever changes.\<close>

theorem snapshots_monotone_when_awaited:
  assumes "in_flight st = []" "document st = Some doc" "canonical doc" "lastAcceptedVersion st = None"
    and "deliver_seq prs st = (st', evs)"
  shows "sorted (accepted evs) \<and>
         (\<forall>k. k \<noteq> ''rts'' \<longrightarrow> js_get (the (document st')) k = js_get doc k) \<and>
         (accepted evs = [] \<longrightarrow> st' = st) \<and>
         (accepted evs \<noteq> [] \<longrightarrow> lastAcceptedVersion st' = Some (last (accepted evs)) \<and>
            (\<exists>x \<in> set prs. js_get (the (document st')) ''rts'' = snapshot (fst x) \<and>
                snapshot_version (fst x) = last (accepted evs)))"
proof -
  have q: "quiet st" using assms(1-3) by (simp add: quiet_def)
  have "st' = fst (deliver_seq prs st)" "evs = snd (deliver_seq prs st)" using assms(5) by simp_all
  then show ?thesis
    using seq_frame [OF q, of prs] seq_sorted [OF q, of prs] seq_source [OF q, of prs] assms(2,4) by simp
qed

theorem snapshots_monotone_when_awaited_witness:
  "sorted (accepted (snd (deliver_seq [(demo_payload 5, Edit_ok), (demo_payload 3, Edit_ok), (demo_payload 6, Edit_ok)] demo_applier))) \<and>
   accepted (snd (deliver_seq [(demo_payload 5, Edit_ok), (demo_payload 3, Edit_ok), (demo_payload 6, Edit_ok)] demo_applier)) = [5, 6]"
proof -
  let ?prs = "[(demo_payload 5, Edit_ok), (demo_payload 3, Edit_ok), (demo_payload 6, Edit_ok)]"
  have "canonical [(''kernelspec'', JNull)]" by (simp add: canonical_def)
  then have "sorted (accepted (snd (deliver_seq ?prs demo_applier)))"
    using snapshots_monotone_when_awaited [of demo_applier "[(''kernelspec'', JNull)]" ?prs "fst (deliver_seq ?prs demo_applier)"
        "snd (deliver_seq ?prs demo_applier)"]
    by (simp add: demo_applier_def)
  moreover have "accepted (snd (deliver_seq ?prs demo_applier)) = [5, 6]" by code_simp
  ultimately show ?thesis by blast
qed

text \<open>The same does not hold for overlapping edits: when a second payload with a lower
  version arrives before the edit of the first has completed, it passes the version check,
  both edits are applied, and the notebook ends with the older snapshot and the lower version
  as last accepted, without any failure being reported.\<close>

theorem overlapping_snapshots_regress:
  assumes "valid_snapshot p1 st" "valid_snapshot p2 st" "snapshot_version p2 < snapshot_version p1"
    and "in_flight st = []" "document st = Some doc"
  shows "let (st1, e1) = onNotebookMetadata p1 st; (st2, e2) = onNotebookMetadata p2 st1;
             (st3, e3) = apply_finish Edit_ok st2; (st4, e4) = apply_finish Edit_ok st3
         in accepted (e1 @ e2 @ e3 @ e4) = [snapshot_version p1, snapshot_version p2] \<and>
            lastAcceptedVersion st4 = Some (snapshot_version p2) \<and> failures (e1 @ e2 @ e3 @ e4) = [] \<and>
            document st4 = Some (js_put ''rts'' (snapshot p2) (js_copy doc))"
proof -
  let ?e = "\<lambda>p. \<lparr>edit_snapshot = snapshot p, edit_version = snapshot_version p, next_metadata = js_put ''rts'' (snapshot p) (js_copy doc)\<rparr>"
  have 1: "onNotebookMetadata p1 st = (st\<lparr>in_flight := [?e p1]\<rparr>, [])"
    using receive_valid [OF assms(1)] assms(4,5) by (simp add: apply_begin_def)
  have "valid_snapshot p2 (st\<lparr>in_flight := [?e p1]\<rparr>)" using assms(2) by (simp add: valid_snapshot_def)
  from receive_valid [OF this] have 2: "onNotebookMetadata p2 (st\<lparr>in_flight := [?e p1]\<rparr>) = (st\<lparr>in_flight := [?e p1, ?e p2]\<rparr>, [])"
    using assms(5) by (simp add: apply_begin_def)
  show ?thesis by (simp add: 1 2 apply_finish_def Let_def)
qed

theorem overlapping_snapshots_regress_witness:
  "lastAcceptedVersion (fst (apply_finish Edit_ok (fst (apply_finish Edit_ok
     (fst (onNotebookMetadata (demo_payload 3) (fst (onNotebookMetadata (demo_payload 5) demo_applier)))))))) = Some 3"
  using overlapping_snapshots_regress [of "demo_payload 5" demo_applier "demo_payload 3" "[(''kernelspec'', JNull)]"]
    demo_valid [of 5] demo_valid [of 3]
  by (simp add: demo_applier_def demo_payload_def Let_def case_prod_beta)

end
