(* ===== verification/Metadata_Loader.thy ===== *)
theory Metadata_Loader
  imports Metadata_Applier
begin

section \<open>Hydrating the kernel from a file (\<open>extension/src/notebook/metadata-loader.ts\<close>)\<close>

text \<open>
  \<open>MetadataLoader\<close> ships the persisted metadata of an opened notebook to the kernel, unless
  the file is of another schema or carries secret-shaped fields, and watches for the
  confirmation. Timers are numbered in the order they are created; \<open>pending\<close> is the \<open>Map\<close>
  from notebook URIs to timers in insertion order.
\<close>

subsection \<open>The scan for secrets\<close>

text \<open>The rules, on the lower-cased name, in their order.\<close>

definition FORBIDDEN_FIELD_PATTERNS :: "((string \<Rightarrow> bool) \<times> string) list" where
  "FORBIDDEN_FIELD_PATTERNS =
     [(\<lambda>n. endsWith n ''_key'', ''*_key''), (\<lambda>n. endsWith n ''_token'', ''*_token''),
      (\<lambda>n. endsWith n ''_password'', ''*_password''), (\<lambda>n. endsWith n ''_secret'', ''*_secret''),
      (\<lambda>n. n = ''api_key'', ''api_key''), (\<lambda>n. n = ''authorization'', ''authorization''),
      (\<lambda>n. n = ''bearer'', ''bearer''), (\<lambda>n. n = ''cookie'', ''cookie'')]"

record secret_match =
  match_path :: string
  match_pattern :: string

definition match_field :: "string \<Rightarrow> string \<Rightarrow> secret_match list" where
  "match_field path k =
     (case find (\<lambda>r. fst r (toLowerCase k)) FORBIDDEN_FIELD_PATTERNS of
        Some r \<Rightarrow> [\<lparr>match_path = path @ ''.'' @ k, match_pattern = snd r\<rparr>]
      | None \<Rightarrow> [])"

lemma enumerate_size [termination_simp]: "(i, v) \<in> set (enumerate n xs) \<Longrightarrow> size v < Suc (size_list size xs)"
proof -
  assume "(i, v) \<in> set (enumerate n xs)"
  then have "v \<in> set xs" by (auto simp: in_set_enumerate_eq)
  then show ?thesis using size_list_estimation' [of v xs "size v" size] by simp
qed

fun scanForbiddenSecrets :: "jsv \<Rightarrow> string \<Rightarrow> secret_match list" where
  "scanForbiddenSecrets (JArr xs) path =
     concat (map (\<lambda>(i, v). scanForbiddenSecrets v (path @ ''['' @ show_nat i @ '']'')) (enumerate 0 xs))"
| "scanForbiddenSecrets (JObj kvs) path =
     concat (map (\<lambda>(k, v). match_field path k @
       (if is_objectlike v then scanForbiddenSecrets v (path @ ''.'' @ k) else [])) kvs)"
| "scanForbiddenSecrets _ path = []"

text \<open>The specification: every field at any depth with the path of the object it is in.\<close>

fun config_fields :: "jsv \<Rightarrow> string \<Rightarrow> (string \<times> string) list" where
  "config_fields (JArr xs) path = concat (map (\<lambda>(i, v). config_fields v (path @ ''['' @ show_nat i @ '']'')) (enumerate 0 xs))"
| "config_fields (JObj kvs) path = concat (map (\<lambda>(k, v). (path, k) # config_fields v (path @ ''.'' @ k)) kvs)"
| "config_fields _ path = []"

definition forbidden_name :: "string \<Rightarrow> bool" where
  "forbidden_name k \<longleftrightarrow>
     (let n = toLowerCase k in
      endsWith n ''_key'' \<or> endsWith n ''_token'' \<or> endsWith n ''_password'' \<or> endsWith n ''_secret'' \<or>
      n \<in> {''authorization'', ''bearer'', ''cookie''})"

lemma match_field_forbidden: "match_field path k \<noteq> [] \<longleftrightarrow> forbidden_name k"
  by (auto simp: match_field_def FORBIDDEN_FIELD_PATTERNS_def forbidden_name_def Let_def endsWith_def)

lemma match_field_path: "map match_path (match_field path k) = (if forbidden_name k then [path @ ''.'' @ k] else [])"
  using match_field_forbidden [of path k] by (auto simp: match_field_def split: option.splits)

lemma fields_atom: "\<not> is_objectlike v \<Longrightarrow> config_fields v path = []"
  by (cases v) simp_all

definition full_path :: "string \<times> string \<Rightarrow> string" where
  "full_path pk = fst pk @ ''.'' @ snd pk"

lemma scan_fields:
  "map match_path (scanForbiddenSecrets v path) = map full_path (filter (\<lambda>pk. forbidden_name (snd pk)) (config_fields v path))"
proof (induction v path rule: config_fields.induct)
  case (1 xs path)
  then have "\<forall>x \<in> set (enumerate 0 xs).
      map match_path (scanForbiddenSecrets (snd x) (path @ ''['' @ show_nat (fst x) @ '']'')) =
      map full_path (filter (\<lambda>pk. forbidden_name (snd pk)) (config_fields (snd x) (path @ ''['' @ show_nat (fst x) @ '']'')))"
    by auto
  then show ?case by (simp add: map_concat filter_concat comp_def case_prod_beta cong: map_cong)
next
  case (2 kvs path)
  then have "\<forall>x \<in> set kvs. map match_path (scanForbiddenSecrets (snd x) (path @ ''.'' @ fst x)) =
      map full_path (filter (\<lambda>pk. forbidden_name (snd pk)) (config_fields (snd x) (path @ ''.'' @ fst x)))"
    by auto
  then have "\<forall>x \<in> set kvs. map match_path (match_field path (fst x) @ (if is_objectlike (snd x) then scanForbiddenSecrets (snd x) (path @ ''.'' @ fst x) else [])) =
      map full_path (filter (\<lambda>pk. forbidden_name (snd pk)) ((path, fst x) # config_fields (snd x) (path @ ''.'' @ fst x)))"
    by (auto simp: match_field_path fields_atom full_path_def)
  then show ?case by (simp add: map_concat filter_concat comp_def case_prod_beta cong: map_cong)
qed simp_all

lemma scan_empty:
  "scanForbiddenSecrets cfg path = [] \<longleftrightarrow> (\<forall>(p, k) \<in> set (config_fields cfg path). \<not> forbidden_name k)"
proof -
  have "scanForbiddenSecrets cfg path = [] \<longleftrightarrow> map match_path (scanForbiddenSecrets cfg path) = []" by simp
  also have "\<dots> \<longleftrightarrow> (\<forall>(p, k) \<in> set (config_fields cfg path). \<not> forbidden_name k)"
    unfolding scan_fields by (auto simp: filter_empty_conv)
  finally show ?thesis .
qed

subsection \<open>The loader\<close>

record loader =
  has_router :: bool
  notebookType :: string
  pending :: "(string \<times> nat) list"
  next_timer :: nat

datatype outcome = Shipped | Skipped_no_metadata | Rejected_schema_mismatch string
  | Rejected_forbidden_secret "secret_match list" | No_router

datatype ld_effect = LLog log_level string | Show_warning string | Outbound jsv | Set_timer nat | Clear_timer nat

record open_notebook =
  nb_type :: string
  nb_uri :: string
  nb_metadata :: jsobj

definition HYDRATE_CONFIRMATION_TIMEOUT_MS :: nat where
  "HYDRATE_CONFIRMATION_TIMEOUT_MS = 10000"

definition readPersistedVersion :: "jsv \<Rightarrow> jsv" where
  "readPersistedVersion rts =
     (case jprop rts ''snapshot_version'' of JNum (Fin r) \<Rightarrow> JNum (Fin r) | _ \<Rightarrow> num 0)"

definition hydrate_envelope :: "jsv \<Rightarrow> jsv" where
  "hydrate_envelope rts =
     JObj [(''type'', JStr ''notebook.metadata''),
           (''payload'', JObj [(''mode'', JStr ''hydrate''), (''snapshot_version'', readPersistedVersion rts),
                               (''snapshot'', rts), (''trigger'', JStr ''open'')])]"

definition arm_watchdog :: "string \<Rightarrow> loader \<Rightarrow> loader \<times> ld_effect list" where
  "arm_watchdog key l =
     (l\<lparr>pending := map_set key (next_timer l) (pending l), next_timer := Suc (next_timer l)\<rparr>,
      (case map_of (pending l) key of Some t \<Rightarrow> [Clear_timer t] | None \<Rightarrow> []) @ [Set_timer (next_timer l)])"

definition shipHydrate :: "open_notebook \<Rightarrow> loader \<Rightarrow> loader \<times> ld_effect list \<times> outcome" where
  "shipHydrate nb l =
     (let rts = js_get (nb_metadata nb) ''rts'' in
      if \<not> truthy rts \<or> \<not> typeof_object rts
      then (l, [LLog LInfo (''[metadata-loader] no metadata.rts on '' @ nb_uri nb @ ''; skipping hydrate'')], Skipped_no_metadata)
      else if schema_major rts \<noteq> RFC005_SCHEMA_MAJOR
      then (l, [LLog LError (''[metadata-loader] schema_version major mismatch: expected='' @ [QUOTE] @ RFC005_SCHEMA_MAJOR @ [QUOTE] @
                  '' observed='' @ [QUOTE] @ schema_major rts @ [QUOTE] @ '' full='' @ [QUOTE] @
                  js_String (jprop rts ''schema_version'') @ [QUOTE]),
                Show_warning (''LLMNB: cannot resume '' @ [QUOTE] @ nb_uri nb @ [QUOTE] @ '' - incompatible file format (schema_version='' @
                  js_String (jprop rts ''schema_version'') @ ''; this build expects major '' @ RFC005_SCHEMA_MAJOR @ '')'')],
            Rejected_schema_mismatch (schema_major rts))
      else (let forbidden = scanForbiddenSecrets (coalesce (jprop rts ''config'') (JObj [])) ''metadata.rts.config'' in
        if forbidden \<noteq> []
        then (l, [LLog LError (''[metadata-loader] refusing hydrate: forbidden secret field(s) detected: '' @
                    join '', '' (map match_path forbidden)),
                  Show_warning (''LLMNB: refusing to load '' @ [QUOTE] @ nb_uri nb @ [QUOTE] @
                    '' - file contains forbidden secret-shaped fields under metadata.rts.config ('' @
                    show_nat (length forbidden) @ '' match'' @ (if length forbidden = 1 then [] else ''es'') @
                    ''). Remove them and reopen.'')],
              Rejected_forbidden_secret forbidden)
        else if \<not> has_router l
        then (l, [LLog LWarn (''[metadata-loader] no router available; skipping hydrate ship for '' @ nb_uri nb)], No_router)
        else (let (l', timers) = arm_watchdog (nb_uri nb) l in
              (l', LLog LInfo (''[metadata-loader] shipping hydrate envelope (uri='' @ nb_uri nb @ '' v='' @
                     js_String (readPersistedVersion rts) @ '')'') # Outbound (hydrate_envelope rts) # timers, Shipped))))"

definition onDidOpenNotebook :: "open_notebook \<Rightarrow> loader \<Rightarrow> loader \<times> ld_effect list \<times> outcome" where
  "onDidOpenNotebook nb l =
     (if nb_type nb \<noteq> notebookType l then (l, [], Skipped_no_metadata) else shipHydrate nb l)"

text \<open>The callback of a timer, and the confirmation of the kernel.\<close>

definition on_hydrate_timeout :: "string \<Rightarrow> loader \<Rightarrow> loader \<times> ld_effect list" where
  "on_hydrate_timeout key l =
     (l\<lparr>pending := map_delete key (pending l)\<rparr>,
      [LLog LWarn (''[metadata-loader] hydrate confirmation timed out for '' @ key @ '' (>'' @ show_nat HYDRATE_CONFIRMATION_TIMEOUT_MS @ ''ms)''),
       Show_warning (''LLMNB: kernel failed to hydrate '' @ [QUOTE] @ key @ [QUOTE] @ '' within '' @
         show_nat (HYDRATE_CONFIRMATION_TIMEOUT_MS div 1000) @
         ''s. Agents from config.recoverable.agents[] may not have respawned. Restart kernel to retry.'')])"

definition handleConfirmation :: "jsv \<Rightarrow> loader \<Rightarrow> loader \<times> ld_effect list" where
  "handleConfirmation payload l =
     (if jprop payload ''mode'' \<noteq> JStr ''snapshot'' then (l, [])
      else if jprop payload ''trigger'' \<noteq> JStr ''hydrate_complete'' then (l, [])
      else (l\<lparr>pending := []\<rparr>,
            concat (map (\<lambda>(uri, t). [Clear_timer t,
              LLog LInfo (''[metadata-loader] hydrate confirmed for '' @ uri @ '' (snapshot_version='' @
                js_String (jprop payload ''snapshot_version'') @ '')'')]) (pending l))))"

definition clearPendingFor :: "string \<Rightarrow> loader \<Rightarrow> loader \<times> ld_effect list \<times> bool" where
  "clearPendingFor uri l =
     (case map_of (pending l) uri of
        Some t \<Rightarrow> (l\<lparr>pending := map_delete uri (pending l)\<rparr>, [Clear_timer t], True)
      | None \<Rightarrow> (l, [], False))"

definition dispose_loader :: "loader \<Rightarrow> loader \<times> ld_effect list" where
  "dispose_loader l = (l\<lparr>pending := []\<rparr>, map (\<lambda>(uri, t). Clear_timer t) (pending l))"

subsection \<open>Runs of the loader\<close>

datatype ld_input = Open_nb open_notebook | Timeout_of nat | Metadata_in jsv | Clear_for string | Dispose_ld

text \<open>The timers that are set and have neither fired nor been cleared, as the effects tell;
  a timer that fires is no longer live.\<close>

fun live_after :: "nat list \<Rightarrow> ld_effect list \<Rightarrow> nat list" where
  "live_after ts [] = ts"
| "live_after ts (e # es) = live_after (case e of Set_timer t \<Rightarrow> ts @ [t] | Clear_timer t \<Rightarrow> remove1 t ts | _ \<Rightarrow> ts) es"

fun ld_perform :: "ld_input \<Rightarrow> loader \<Rightarrow> loader \<times> ld_effect list" where
  "ld_perform (Open_nb nb) l = (case onDidOpenNotebook nb l of (l', evs, _) \<Rightarrow> (l', evs))"
| "ld_perform (Timeout_of t) l =
     (case find (\<lambda>kt. snd kt = t) (pending l) of Some kt \<Rightarrow> on_hydrate_timeout (fst kt) l | None \<Rightarrow> (l, []))"
| "ld_perform (Metadata_in p) l = handleConfirmation p l"
| "ld_perform (Clear_for uri) l = (case clearPendingFor uri l of (l', evs, _) \<Rightarrow> (l', evs))"
| "ld_perform Dispose_ld l = dispose_loader l"

text \<open>A timer's callback is bound to the URI it was created for; the step finds it through
  the table, which is the same as long as every live timer stands in the table under its URI.
  A run carries the live timers; only a live timer can fire.\<close>

inductive ld_run :: "loader \<Rightarrow> nat list \<Rightarrow> loader \<Rightarrow> nat list \<Rightarrow> bool" where
  ld_refl: "ld_run l ts l ts"
| ld_step: "ld_run l ts l1 ts1 \<Longrightarrow> (\<forall>t. i = Timeout_of t \<longrightarrow> t \<in> set ts1) \<Longrightarrow> ld_perform i l1 = (l2, evs) \<Longrightarrow>
    ts2 = live_after (case i of Timeout_of t \<Rightarrow> remove1 t ts1 | _ \<Rightarrow> ts1) evs \<Longrightarrow> ld_run l ts l2 ts2"

definition watch_inv :: "loader \<Rightarrow> nat list \<Rightarrow> bool" where
  "watch_inv l ts \<longleftrightarrow>
     distinct (map fst (pending l)) \<and> distinct (map snd (pending l)) \<and> distinct ts \<and>
     set ts = snd ` set (pending l) \<and> (\<forall>t \<in> set ts. t < next_timer l)"

lemma live_append: "live_after ts (xs @ ys) = live_after (live_after ts xs) ys"
  by (induction xs arbitrary: ts) auto

lemma map_set_old:
  "distinct (map fst m) \<Longrightarrow> map_of m k = Some t \<Longrightarrow> distinct (map snd m) \<Longrightarrow> v \<notin> snd ` set m \<Longrightarrow>
   distinct (map fst (map_set k v m)) \<and> distinct (map snd (map_set k v m)) \<and>
   snd ` set (map_set k v m) = insert v (snd ` set m - {t})"
proof (induction m)
  case (Cons kv m)
  obtain k' v' where kv: "kv = (k', v')" by (cases kv)
  show ?case
  proof (cases "k' = k")
    case True
    then show ?thesis using Cons.prems kv by auto
  next
    case False
    then have IH: "distinct (map fst (map_set k v m))" "distinct (map snd (map_set k v m))"
      "snd ` set (map_set k v m) = insert v (snd ` set m - {t})"
      using Cons kv by auto
    moreover have "t \<in> snd ` set m" using Cons.prems False kv by (force dest: map_of_SomeD)
    ultimately show ?thesis using Cons.prems False kv keys_map_set [of k v m] by auto
  qed
qed simp

lemma fold_remove1: "distinct ts \<Longrightarrow> distinct (fold remove1 xs ts) \<and> set (fold remove1 xs ts) = set ts - set xs"
  by (induction xs arbitrary: ts) (auto simp: set_remove1_eq)

lemma live_dispose: "live_after ts (map (\<lambda>(uri, t). Clear_timer t) m) = fold remove1 (map snd m) ts"
  by (induction m arbitrary: ts) auto

lemma live_confirm:
  "live_after ts (concat (map (\<lambda>(uri, t). [Clear_timer t, LLog LInfo (f uri)]) m)) = fold remove1 (map snd m) ts"
  by (induction m arbitrary: ts) auto

lemma inv_empty: "watch_inv l ts \<Longrightarrow> watch_inv (l\<lparr>pending := []\<rparr>) (fold remove1 (map snd (pending l)) ts)"
  using fold_remove1 [of ts "map snd (pending l)"] by (auto simp: watch_inv_def)

lemma map_delete_props:
  assumes "distinct (map fst m)" "distinct (map snd m)" "(k, t) \<in> set m"
  shows "distinct (map fst (map_delete k m))" "distinct (map snd (map_delete k m))"
    "snd ` set (map_delete k m) = snd ` set m - {t}"
proof -
  show "distinct (map fst (map_delete k m))" "distinct (map snd (map_delete k m))"
    using assms by (simp_all add: map_delete_def distinct_map_filter)
  have "x = (k, t)" if "x \<in> set m" "fst x = k \<or> snd x = t" for x
    using that assms(1,2) inj_onD [of fst "set m" x "(k, t)"] inj_onD [of snd "set m" x "(k, t)"] assms(3)
    by (auto simp: distinct_map)
  then have "{x \<in> set m. fst x \<noteq> k} = {x \<in> set m. snd x \<noteq> t}"
    by (metis (no_types, lifting) fst_conv snd_conv)
  then have "set (map_delete k m) = {x \<in> set m. snd x \<noteq> t}"
    by (simp add: map_delete_def case_prod_beta)
  then show "snd ` set (map_delete k m) = snd ` set m - {t}" by auto
qed

lemma inv_drop:
  assumes "watch_inv l ts" "(k, t) \<in> set (pending l)"
  shows "watch_inv (l\<lparr>pending := map_delete k (pending l)\<rparr>) (remove1 t ts)"
  using assms map_delete_props [OF _ _ assms(2)] by (auto simp: watch_inv_def set_remove1_eq)

lemma inv_arm:
  assumes "watch_inv l ts"
  shows "watch_inv (fst (arm_watchdog k l)) (live_after ts (snd (arm_watchdog k l)))"
proof (cases "map_of (pending l) k")
  case None
  then have "k \<notin> fst ` set (pending l)" by (simp add: map_of_eq_None_iff)
  then show ?thesis using None assms
    by (auto simp: watch_inv_def arm_watchdog_def map_set_new) (metis less_SucI snd_conv)
next
  case (Some t)
  have fresh: "next_timer l \<notin> snd ` set (pending l)" using assms by (auto simp: watch_inv_def)
  have "distinct (map fst (pending l))" "distinct (map snd (pending l))" using assms by (simp_all add: watch_inv_def)
  from map_set_old [OF this(1) Some this(2) fresh] show ?thesis
    using Some assms fresh by (auto simp: watch_inv_def arm_watchdog_def set_remove1_eq less_SucI)
qed

lemma shipHydrate_cases:
  "(fst (shipHydrate nb l) = l \<and> (\<forall>ts. live_after ts (fst (snd (shipHydrate nb l))) = ts) \<and> snd (snd (shipHydrate nb l)) \<noteq> Shipped) \<or>
   (fst (shipHydrate nb l) = fst (arm_watchdog (nb_uri nb) l) \<and>
    (\<forall>ts. live_after ts (fst (snd (shipHydrate nb l))) = live_after ts (snd (arm_watchdog (nb_uri nb) l))) \<and>
    snd (snd (shipHydrate nb l)) = Shipped)"
  by (simp add: shipHydrate_def Let_def case_prod_beta)

lemma ld_step_inv:
  assumes "watch_inv l ts" "\<forall>t. i = Timeout_of t \<longrightarrow> t \<in> set ts"
  shows "watch_inv (fst (ld_perform i l)) (live_after (case i of Timeout_of t \<Rightarrow> remove1 t ts | _ \<Rightarrow> ts) (snd (ld_perform i l)))"
proof (cases i)
  case (Open_nb nb)
  then show ?thesis
    using shipHydrate_cases [of nb l] assms(1) inv_arm [OF assms(1)] by (auto simp: onDidOpenNotebook_def case_prod_beta)
next
  case (Timeout_of t)
  then have "t \<in> snd ` set (pending l)" using assms by (simp add: watch_inv_def)
  then obtain kt where f: "find (\<lambda>kt. snd kt = t) (pending l) = Some kt" by (cases "find (\<lambda>kt. snd kt = t) (pending l)") (auto simp: find_None_iff)
  then have "(fst kt, t) \<in> set (pending l)" by (auto simp: find_Some_iff)
  from inv_drop [OF assms(1) this] show ?thesis using Timeout_of f by (simp add: on_hydrate_timeout_def)
next
  case (Metadata_in p)
  then show ?thesis using assms(1) inv_empty [OF assms(1)] by (simp add: handleConfirmation_def live_confirm)
next
  case (Clear_for uri)
  then show ?thesis
    using assms(1) inv_drop [OF assms(1), of uri] by (auto simp: clearPendingFor_def dest: map_of_SomeD split: option.split)
next
  case Dispose_ld
  then show ?thesis using inv_empty [OF assms(1)] by (simp add: dispose_loader_def live_dispose)
qed

lemma ld_run_inv: "ld_run l ts l' ts' \<Longrightarrow> watch_inv l ts \<Longrightarrow> watch_inv l' ts'"
proof (induction rule: ld_run.induct)
  case (ld_step l ts l1 ts1 i l2 evs ts2)
  then show ?case using ld_step_inv [of l1 ts1 i] by simp
qed

subsection \<open>Properties\<close>



definition hydratable :: "open_notebook \<Rightarrow> loader \<Rightarrow> bool" where
  "hydratable nb l \<longleftrightarrow>
     nb_type nb = notebookType l \<and> is_objectlike (js_get (nb_metadata nb) ''rts'') \<and>
     schema_major (js_get (nb_metadata nb) ''rts'') = RFC005_SCHEMA_MAJOR \<and> has_router l \<and>
     (\<forall>(p, k) \<in> set (config_fields (coalesce (jprop (js_get (nb_metadata nb) ''rts'') ''config'') (JObj [])) ''metadata.rts.config''). \<not> forbidden_name k)"

fun outbound :: "ld_effect list \<Rightarrow> jsv list" where
  "outbound [] = []"
| "outbound (e # es) = (case e of Outbound v \<Rightarrow> [v] | _ \<Rightarrow> []) @ outbound es"

lemma outbound_append [simp]: "outbound (xs @ ys) = outbound xs @ outbound ys"
  by (induction xs) auto

lemma outbound_arm: "outbound (snd (arm_watchdog k l)) = []"
  by (simp add: arm_watchdog_def split: option.split)


definition demo_loader :: loader where
  "demo_loader = \<lparr>has_router = True, notebookType = ''llmnb'', pending = [], next_timer = 0\<rparr>"

definition demo_open :: open_notebook where
  "demo_open = \<lparr>nb_type = ''llmnb'', nb_uri = ''f'', nb_metadata = [(''rts'', JObj [(''schema_version'', JStr ''1.2'')])]\<rparr>"


text \<open>C34. Watchdogs. In every run of a new loader the timers that are running are exactly those
  in the table, one per notebook; so no notebook has two watchdogs, none is forgotten, and
  after a confirmation of the kernel or disposal none is running.\<close>

theorem hydrate_watchdogs:
  assumes "ld_run \<lparr>has_router = hr, notebookType = nt, pending = [], next_timer = 0\<rparr> [] l ts"
  shows "watch_inv l ts \<and>
         (\<forall>i. (i = Dispose_ld \<or> (\<exists>p. i = Metadata_in p \<and> jprop p ''mode'' = JStr ''snapshot'' \<and> jprop p ''trigger'' = JStr ''hydrate_complete'')) \<longrightarrow>
            live_after ts (snd (ld_perform i l)) = [])"
proof -
  have inv: "watch_inv l ts" using ld_run_inv [OF assms] by (simp add: watch_inv_def)
  have none: "fold remove1 (map snd (pending l)) ts = []"
    using fold_remove1 [of ts "map snd (pending l)"] inv by (auto simp: watch_inv_def)
  show ?thesis using inv none by (auto simp: dispose_loader_def live_dispose handleConfirmation_def live_confirm)
qed

theorem hydrate_watchdogs_witness:
  "\<exists>l ts. ld_run demo_loader [] l ts \<and> ts = [0] \<and> watch_inv l ts \<and> live_after ts (snd (ld_perform Dispose_ld l)) = []"
proof -
  obtain l evs where p: "ld_perform (Open_nb demo_open) demo_loader = (l, evs)" by (metis surj_pair)
  have ts: "live_after [] evs = [0]"
  proof -
    have "live_after [] (snd (ld_perform (Open_nb demo_open) demo_loader)) = [0]" by code_simp
    then show ?thesis using p by simp
  qed
  have r: "ld_run demo_loader [] l [0]"
    using ld_run.ld_step [OF ld_run.ld_refl [of demo_loader "[]"] _ p, of "[0]"] ts by simp
  from hydrate_watchdogs [OF this [unfolded demo_loader_def]] r show ?thesis by blast
qed

end
