(* ===== verification/Controller.thy ===== *)
theory Controller
  imports Pty_Client Serializer
begin

section \<open>The notebook controller (\<open>extension/src/notebook/controller.ts\<close>)\<close>

text \<open>
  \<open>LlmnbNotebookController\<close> runs cells: \<open>execute\<close> awaits \<open>runOne\<close> for each code cell in turn,
  \<open>runOne\<close> creates a VS Code cell execution, clears its output, connects and calls the kernel
  client, and the run observer hooks append the spans the kernel emits and end the execution
  at the terminal spanan.

  The asynchronous functions are split at their awaits. An execution object is its number, in
  the order of creation. \<open>active\<close> holds, for each \<open>runOne\<close> that has not returned, the execution
  it created, its cell, the await it is at and the cells its \<open>execute\<close> call still has to run;
  \<open>closing\<close> holds the asynchronous bodies of \<open>onRunComplete\<close> that wait for their append. The
  inputs say which await settles next, what the kernel emits and what it binds.
\<close>

subsection \<open>State\<close>

record ctl_cell =
  cell_uri :: string
  ctl_kind :: cell_kind
  ctl_text :: string
  ctl_language :: string
  executionOrder :: "nat option"

datatype phase = Clearing | Connecting | Executing

record run_call =
  run_cell :: ctl_cell
  run_phase :: phase
  run_rest :: "ctl_cell list"

record controller =
  inflight :: "(string \<times> nat) list"
  cellByCorrelation :: "(string \<times> string) list"
  active :: "(nat \<times> run_call) list"
  closing :: "(nat \<times> bool \<times> jsv) list"
  next_exec :: nat

datatype ctl_effect =
    Create_execution nat string
  | Set_order nat nat
  | Start_execution nat
  | Clear_output nat
  | Connect_kernel nat
  | Execute_cell nat execute_request string
  | Append_output nat jsv
  | End_execution nat bool
  | Ctl_log log_level string
  | Execute_returned
  | Execute_rejected nat

definition new_controller :: controller where
  "new_controller = \<lparr>inflight = [], cellByCorrelation = [], active = [], closing = [], next_exec = 0\<rparr>"

subsection \<open>Running cells\<close>

text \<open>\<open>runOne\<close> up to its first await.\<close>

definition runOne :: "ctl_cell \<Rightarrow> ctl_cell list \<Rightarrow> controller \<Rightarrow> controller \<times> ctl_effect list" where
  "runOne cell rest c =
     (let e = next_exec c in
      (c\<lparr>next_exec := Suc e,
         active := active c @ [(e, \<lparr>run_cell = cell, run_phase = Clearing, run_rest = rest\<rparr>)]\<rparr>,
       [Create_execution e (cell_uri cell),
        Set_order e ((case executionOrder cell of Some n \<Rightarrow> n | None \<Rightarrow> 0) + 1),
        Start_execution e, Clear_output e]))"

text \<open>The loop of \<open>execute\<close> up to the next cell that is run.\<close>

fun execute :: "ctl_cell list \<Rightarrow> controller \<Rightarrow> controller \<times> ctl_effect list" where
  "execute [] c = (c, [Execute_returned])"
| "execute (cell # rest) c =
     (if ctl_kind cell = Markup
      then let (c', evs) = execute rest c in
        (c', Ctl_log LInfo (''[controller] skipping Markup cell '' @ cell_uri cell @
               '' (BSP-005 M1: markdown cells have no agent)'') # evs)
      else runOne cell rest c)"

text \<open>\<open>connect()\<close> has returned, or there is none: the kernel gets the cell.\<close>

definition call_kernel :: "nat \<Rightarrow> run_call \<Rightarrow> controller \<Rightarrow> controller \<times> ctl_effect list" where
  "call_kernel e k c =
     (c\<lparr>active := map_set e (k\<lparr>run_phase := Executing\<rparr>) (active c)\<rparr>,
      [Execute_cell e \<lparr>cellUri = cell_uri (run_cell k), cell_text = ctl_text (run_cell k),
         directive = parseCellDirective (ctl_text (run_cell k))\<rparr> (ctl_language (run_cell k))])"

definition cleared :: "bool \<Rightarrow> nat \<Rightarrow> run_call \<Rightarrow> controller \<Rightarrow> controller \<times> ctl_effect list" where
  "cleared has_connect e k c =
     (let c1 = c\<lparr>inflight := map_set (cell_uri (run_cell k)) e (inflight c)\<rparr> in
      if has_connect
      then (c1\<lparr>active := map_set e (k\<lparr>run_phase := Connecting\<rparr>) (active c1)\<rparr>, [Connect_kernel e])
      else call_kernel e k c1)"

text \<open>\<open>clearOutput()\<close> rejects: outside the \<open>try\<close>, so \<open>runOne\<close> and its \<open>execute\<close> reject.\<close>

definition clear_failed :: "nat \<Rightarrow> controller \<Rightarrow> controller \<times> ctl_effect list" where
  "clear_failed e c = (c\<lparr>active := map_delete e (active c)\<rparr>, [Execute_rejected e])"

text \<open>The end of the \<open>try\<close>, or its \<open>catch\<close>: an execution still in flight ends unsuccessfully;
  then \<open>execute\<close> goes on with the next cell.\<close>

definition settle_inflight :: "nat \<Rightarrow> run_call \<Rightarrow> controller \<Rightarrow> controller \<times> ctl_effect list" where
  "settle_inflight e k c =
     (let u = cell_uri (run_cell k) in
      if map_of (inflight c) u \<noteq> None
      then (c\<lparr>inflight := map_delete u (inflight c)\<rparr>, [End_execution e False])
      else (c, []))"

definition run_returned :: "nat \<Rightarrow> run_call \<Rightarrow> string option \<Rightarrow> controller \<Rightarrow> controller \<times> ctl_effect list" where
  "run_returned e k err c =
     (let log = (case err of None \<Rightarrow> []
                 | Some msg \<Rightarrow> [Ctl_log LError (''[controller] kernel error for '' @ cell_uri (run_cell k) @ '': '' @ msg)]);
          (c1, ended) = settle_inflight e k c;
          (c2, evs) = execute (run_rest k) (c1\<lparr>active := map_delete e (active c1)\<rparr>)
      in (c2, log @ ended @ evs))"

subsection \<open>Run observer\<close>

definition span_key :: "jsv \<Rightarrow> string option" where
  "span_key payload = (case jprop payload ''spanId'' of JStr s \<Rightarrow> Some s | _ \<Rightarrow> None)"

definition findExecForCorrelation :: "string option \<Rightarrow> controller \<Rightarrow> nat option" where
  "findExecForCorrelation spanId c =
     (case Option.bind spanId (map_of (cellByCorrelation c)) of
        Some u \<Rightarrow> map_of (inflight c) u
      | None \<Rightarrow> (case inflight c of [(_, only)] \<Rightarrow> Some only | _ \<Rightarrow> None))"

definition onRunStart :: "jsv \<Rightarrow> controller \<Rightarrow> controller \<times> ctl_effect list" where
  "onRunStart sp c =
     (case findExecForCorrelation (span_key sp) c of
        None \<Rightarrow> (c, [])
      | Some e \<Rightarrow> (c, [Append_output e sp]))"

definition onRunEvent :: "jsv \<Rightarrow> controller \<Rightarrow> controller \<times> ctl_effect list" where
  "onRunEvent payload c =
     (case findExecForCorrelation (span_key payload) c of
        None \<Rightarrow> (c, [])
      | Some e \<Rightarrow> (c, [Append_output e payload]))"

definition status_ok :: "jsv \<Rightarrow> bool" where
  "status_ok sp \<longleftrightarrow> jprop (jprop sp ''status'') ''code'' = JStr ''STATUS_CODE_OK''"

fun claim_slot :: "nat \<Rightarrow> (string \<times> nat) list \<Rightarrow> (string \<times> nat) list" where
  "claim_slot e [] = []"
| "claim_slot e ((k, v) # m) = (if v = e then m else (k, v) # claim_slot e m)"

definition onRunComplete :: "jsv \<Rightarrow> controller \<Rightarrow> controller \<times> ctl_effect list" where
  "onRunComplete sp c =
     (case findExecForCorrelation (span_key sp) c of
        None \<Rightarrow> (c, [])
      | Some e \<Rightarrow>
          (c\<lparr>inflight := claim_slot e (inflight c),
             closing := closing c @ [(e, status_ok sp, jprop sp ''spanId'')]\<rparr>,
           [Append_output e sp]))"

text \<open>The append of the terminal span settles, either way: the \<open>finally\<close> block.\<close>

definition append_settled :: "nat \<Rightarrow> bool \<times> jsv \<Rightarrow> controller \<Rightarrow> controller \<times> ctl_effect list" where
  "append_settled e okspan c =
     (c\<lparr>closing := map_delete e (closing c),
        cellByCorrelation :=
          (case snd okspan of JStr s \<Rightarrow> map_delete s (cellByCorrelation c) | _ \<Rightarrow> cellByCorrelation c)\<rparr>,
      [End_execution e (fst okspan)])"

definition bindCorrelation :: "string \<Rightarrow> string \<Rightarrow> controller \<Rightarrow> controller" where
  "bindCorrelation spanId uri c = c\<lparr>cellByCorrelation := map_set spanId uri (cellByCorrelation c)\<rparr>"

text \<open>The sink of \<open>runOne\<close>: the payload goes through the router, which calls back the observers;
  \<open>self\<close> is this controller among them.\<close>

fun observe :: "observer \<Rightarrow> call \<Rightarrow> controller \<Rightarrow> controller \<times> ctl_effect list" where
  "observe self (OnRunStart obs p) c = (if obs = self then onRunStart p c else (c, []))"
| "observe self (OnRunEvent obs p) c = (if obs = self then onRunEvent p c else (c, []))"
| "observe self (OnRunComplete obs p) c = (if obs = self then onRunComplete p c else (c, []))"
| "observe self _ c = (c, [])"

fun observe_all :: "observer \<Rightarrow> call list \<Rightarrow> controller \<Rightarrow> controller \<times> ctl_effect list" where
  "observe_all self [] c = (c, [])"
| "observe_all self (k # ks) c =
     (let (c1, e1) = observe self k c; (c2, e2) = observe_all self ks c1 in (c2, e1 @ e2))"

definition sink_emit :: "observer \<Rightarrow> router \<Rightarrow> behaviour \<Rightarrow> jsv \<Rightarrow> controller \<Rightarrow> controller \<times> ctl_effect list" where
  "sink_emit self r bh payload c = observe_all self (calls (fst (routeRunMime r bh payload))) c"

subsection \<open>Runs\<close>

datatype ctl_input =
    Execute "ctl_cell list"
  | Cleared nat
  | Clear_rejected nat
  | Connected nat
  | Kernel_returned nat "string option"
  | Emit router behaviour jsv
  | Append_settled nat
  | Bind string string

text \<open>Which await can settle: \<open>Kernel_returned e (Some err)\<close> is also the rejection of \<open>connect()\<close>.\<close>

fun ctl_enabled :: "ctl_input \<Rightarrow> controller \<Rightarrow> bool" where
  "ctl_enabled (Cleared e) c = (map_option run_phase (map_of (active c) e) = Some Clearing)"
| "ctl_enabled (Clear_rejected e) c = (map_option run_phase (map_of (active c) e) = Some Clearing)"
| "ctl_enabled (Connected e) c = (map_option run_phase (map_of (active c) e) = Some Connecting)"
| "ctl_enabled (Kernel_returned e err) c =
     (map_option run_phase (map_of (active c) e) = Some Executing \<or>
      map_option run_phase (map_of (active c) e) = Some Connecting \<and> err \<noteq> None)"
| "ctl_enabled (Append_settled e) c = (map_of (closing c) e \<noteq> None)"
| "ctl_enabled _ c = True"

fun ctl_perform :: "bool \<Rightarrow> observer \<Rightarrow> ctl_input \<Rightarrow> controller \<Rightarrow> controller \<times> ctl_effect list" where
  "ctl_perform hc self (Execute cs) c = execute cs c"
| "ctl_perform hc self (Cleared e) c =
     (case map_of (active c) e of Some k \<Rightarrow> cleared hc e k c | None \<Rightarrow> (c, []))"
| "ctl_perform hc self (Clear_rejected e) c = clear_failed e c"
| "ctl_perform hc self (Connected e) c =
     (case map_of (active c) e of Some k \<Rightarrow> call_kernel e k c | None \<Rightarrow> (c, []))"
| "ctl_perform hc self (Kernel_returned e err) c =
     (case map_of (active c) e of Some k \<Rightarrow> run_returned e k err c | None \<Rightarrow> (c, []))"
| "ctl_perform hc self (Emit r bh p) c = sink_emit self r bh p c"
| "ctl_perform hc self (Append_settled e) c =
     (case map_of (closing c) e of Some okspan \<Rightarrow> append_settled e okspan c | None \<Rightarrow> (c, []))"
| "ctl_perform hc self (Bind s u) c = (bindCorrelation s u c, [])"

text \<open>No two active runs have the same cell. VS Code lets a cell run again once its execution has been
  ended, which can be before the earlier \<open>runOne\<close> has returned, so not every run stays in such states.\<close>

definition exclusive :: "controller \<Rightarrow> bool" where
  "exclusive c \<longleftrightarrow> distinct (map (\<lambda>(_, k). cell_uri (run_cell k)) (active c))"

text \<open>The runs: any input may come whenever what it answers is outstanding. The last argument tells
  whether so far no cell was run again before its previous run had returned.\<close>

inductive ctl_run :: "bool \<Rightarrow> observer \<Rightarrow> controller \<Rightarrow> ctl_effect list \<Rightarrow> bool \<Rightarrow> bool" for hc self where
  init: "ctl_run hc self new_controller [] True"
| step: "ctl_run hc self c tr alone \<Longrightarrow> ctl_enabled i c \<Longrightarrow>
     ctl_run hc self (fst (ctl_perform hc self i c)) (tr @ snd (ctl_perform hc self i c))
       (alone \<and> exclusive (fst (ctl_perform hc self i c)))"

fun ends :: "ctl_effect list \<Rightarrow> nat list" where
  "ends [] = []"
| "ends (End_execution e _ # tr) = e # ends tr"
| "ends (_ # tr) = ends tr"

fun abandoned :: "ctl_effect list \<Rightarrow> nat list" where
  "abandoned [] = []"
| "abandoned (Execute_rejected e # tr) = e # abandoned tr"
| "abandoned (_ # tr) = abandoned tr"

fun successes :: "ctl_effect list \<Rightarrow> nat list" where
  "successes [] = []"
| "successes (End_execution e True # tr) = e # successes tr"
| "successes (_ # tr) = successes tr"

lemma successes_append [simp]: "successes (xs @ ys) = successes xs @ successes ys"
  by (induction xs rule: successes.induct) auto

lemma ends_append [simp]: "ends (xs @ ys) = ends xs @ ends ys"
  by (induction xs rule: ends.induct) auto

lemma abandoned_append [simp]: "abandoned (xs @ ys) = abandoned xs @ abandoned ys"
  by (induction xs rule: abandoned.induct) auto

subsection \<open>Where each execution is\<close>

text \<open>Every execution created so far is in exactly one place: waiting for its output to be
  cleared, in flight, closing, ended, or abandoned by a failed clear.\<close>

definition clearing :: "controller \<Rightarrow> nat list" where
  "clearing c = map fst (filter (\<lambda>(_, k). run_phase k = Clearing) (active c))"

definition accounted :: "controller \<Rightarrow> nat multiset" where
  "accounted c = mset (map fst (closing c)) + mset (map snd (inflight c)) + mset (clearing c)"

definition runs_on :: "controller \<Rightarrow> string \<Rightarrow> nat \<Rightarrow> bool" where
  "runs_on c u e \<longleftrightarrow> (case map_of (active c) e of
     Some k \<Rightarrow> cell_uri (run_cell k) = u \<and> run_phase k \<noteq> Clearing | None \<Rightarrow> False)"

definition placed :: "controller \<Rightarrow> ctl_effect list \<Rightarrow> bool" where
  "placed c tr \<longleftrightarrow> distinct (map fst (active c)) \<and> (\<forall>e \<in> fst ` set (active c). e < next_exec c) \<and>
     distinct (map fst (inflight c)) \<and> (\<forall>(u, e) \<in> set (inflight c). runs_on c u e) \<and>
     mset (ends tr) + mset (abandoned tr) + accounted c = mset [0..<next_exec c]"

lemma execute_shape:
  "(fst (execute cs c) = c \<or>
    (\<exists>k. run_phase k = Clearing \<and>
       fst (execute cs c) = c\<lparr>next_exec := Suc (next_exec c), active := active c @ [(next_exec c, k)]\<rparr>)) \<and>
   ends (snd (execute cs c)) = [] \<and> abandoned (snd (execute cs c)) = []"
proof (induction cs)
  case (Cons cell rest)
  show ?case
  proof (cases "ctl_kind cell = Markup")
    case True
    then show ?thesis using Cons by (simp add: case_prod_beta)
  next
    case False
    then show ?thesis
      by (auto simp: runOne_def Let_def
          intro: exI [of _ "\<lparr>run_cell = cell, run_phase = Clearing, run_rest = rest\<rparr>"])
  qed
qed simp

lemma placed_execute: "placed c tr \<Longrightarrow> placed (fst (execute cs c)) (tr @ snd (execute cs c))"
proof -
  assume p: "placed c tr"
  then have new: "next_exec c \<notin> fst ` set (active c)" by (auto simp: placed_def)
  from execute_shape [of cs c] show ?thesis
  proof (elim conjE disjE exE)
    fix k assume k: "run_phase k = Clearing" "ends (snd (execute cs c)) = []" "abandoned (snd (execute cs c)) = []"
      and c': "fst (execute cs c) = c\<lparr>next_exec := Suc (next_exec c), active := active c @ [(next_exec c, k)]\<rparr>"
    have "runs_on c u e \<Longrightarrow> runs_on (fst (execute cs c)) u e" for u e
      by (auto simp: c' runs_on_def map_add_def split: option.splits)
    with p new k show ?thesis
      by (auto simp: placed_def c' accounted_def clearing_def)
  qed (use p in \<open>simp add: placed_def\<close>)
qed

text \<open>Keys selected by a predicate on the values, under an update and a deletion.\<close>

definition keys_where :: "('v \<Rightarrow> bool) \<Rightarrow> ('k \<times> 'v) list \<Rightarrow> 'k list" where
  "keys_where P m = map fst (filter (\<lambda>(_, v). P v) m)"

lemma keys_where_set:
  "distinct (map fst m) \<Longrightarrow> map_of m e = Some k \<Longrightarrow> \<not> P k' \<Longrightarrow>
   mset (keys_where P m) = mset (keys_where P (map_set e k' m)) + (if P k then {#e#} else {#})"
proof (induction m)
  case (Cons kv m)
  obtain e1 k1 where kv: "kv = (e1, k1)" by (cases kv)
  show ?case using Cons kv by (cases "e1 = e") (auto simp: keys_where_def)
qed simp

lemma keys_where_delete:
  "distinct (map fst m) \<Longrightarrow> map_of m e = Some k \<Longrightarrow>
   mset (keys_where P m) = mset (keys_where P (map_delete e m)) + (if P k then {#e#} else {#})"
proof (induction m)
  case (Cons kv m)
  obtain e1 k1 where kv: "kv = (e1, k1)" by (cases kv)
  show ?case
  proof (cases "e1 = e")
    case True
    then have "map_delete e m = m" using Cons.prems kv by (auto intro: map_delete_absent)
    then show ?thesis using True Cons.prems kv by (auto simp: keys_where_def map_delete_def)
  next
    case False
    then show ?thesis using Cons kv by (auto simp: keys_where_def map_delete_def)
  qed
qed simp

lemma clearing_keys: "clearing c = keys_where (\<lambda>k. run_phase k = Clearing) (active c)"
  by (simp add: clearing_def keys_where_def)

lemma exclusive_same:
  assumes "exclusive c" "map_of (active c) e = Some k" "map_of (active c) e' = Some k'"
    "cell_uri (run_cell k) = cell_uri (run_cell k')" "distinct (map fst (active c))"
  shows "e = e'"
proof -
  have "(e, k) \<in> set (active c)" "(e', k') \<in> set (active c)" using assms(2,3) by (auto dest: map_of_SomeD)
  then show ?thesis using assms(1,4) unfolding exclusive_def distinct_map inj_on_def by force
qed

lemma inflight_self:
  assumes "placed c tr" "exclusive c" "map_of (active c) e = Some k"
    "map_of (inflight c) (cell_uri (run_cell k)) = Some e'"
  shows "e' = e" "run_phase k \<noteq> Clearing"
proof -
  have "runs_on c (cell_uri (run_cell k)) e'" using assms by (auto simp: placed_def dest: map_of_SomeD)
  then obtain k' where k': "map_of (active c) e' = Some k'" "cell_uri (run_cell k') = cell_uri (run_cell k)"
      "run_phase k' \<noteq> Clearing"
    by (auto simp: runs_on_def split: option.splits)
  with assms exclusive_same [of c e k e' k'] show "e' = e" by (auto simp: placed_def)
  with k' assms(3) show "run_phase k \<noteq> Clearing" by simp
qed

text \<open>A step that moves a call past the clearing of its output.\<close>

lemma placed_advance:
  assumes p: "placed c tr" and k: "map_of (active c) e = Some k" and ph: "run_phase k \<noteq> Clearing"
    and q: "q \<noteq> Clearing"
  shows "placed (c\<lparr>active := map_set e (k\<lparr>run_phase := q\<rparr>) (active c)\<rparr>) tr"
proof -
  have key: "e \<in> fst ` set (active c)" using k by (force dest: map_of_SomeD)
  have "runs_on (c\<lparr>active := map_set e (k\<lparr>run_phase := q\<rparr>) (active c)\<rparr>) u e1 = runs_on c u e1" for u e1
    using k ph q by (simp add: runs_on_def)
  moreover have "mset (clearing (c\<lparr>active := map_set e (k\<lparr>run_phase := q\<rparr>) (active c)\<rparr>)) = mset (clearing c)"
    using keys_where_set [of "active c" e k "\<lambda>k. run_phase k = Clearing" "k\<lparr>run_phase := q\<rparr>"] p k ph q
    by (simp add: clearing_keys placed_def)
  ultimately show ?thesis using p key
    by (simp add: placed_def accounted_def distinct_map_set keys_map_set insert_absorb)
qed

lemma placed_cleared:
  assumes p: "placed c tr" and ex: "exclusive c" and k: "map_of (active c) e = Some k"
    and ph: "run_phase k = Clearing" and q: "q \<noteq> Clearing"
  shows "placed (c\<lparr>inflight := map_set (cell_uri (run_cell k)) e (inflight c),
                   active := map_set e (k\<lparr>run_phase := q\<rparr>) (active c)\<rparr>) tr"
    (is "placed ?c tr")
proof -
  let ?u = "cell_uri (run_cell k)"
  have key: "e \<in> fst ` set (active c)" using k by (force dest: map_of_SomeD)
  have "map_of (inflight c) ?u = None"
    using inflight_self(2) [OF p ex k] ph by (cases "map_of (inflight c) ?u") auto
  then have "?u \<notin> fst ` set (inflight c)" by (simp add: map_of_eq_None_iff)
  then have infl: "map_set ?u e (inflight c) = inflight c @ [(?u, e)]" by (rule map_set_new)
  have "runs_on c u e1 \<Longrightarrow> runs_on ?c u e1" for u e1
    using k ph q by (auto simp: runs_on_def)
  moreover have "runs_on ?c ?u e" using q by (simp add: runs_on_def)
  moreover have "mset (clearing c) = mset (clearing ?c) + {#e#}"
    using keys_where_set [of "active c" e k "\<lambda>k. run_phase k = Clearing" "k\<lparr>run_phase := q\<rparr>"] p k ph q
    by (simp add: clearing_keys placed_def)
  ultimately show ?thesis using p key \<open>?u \<notin> fst ` set (inflight c)\<close>
    by (auto simp: placed_def accounted_def infl distinct_map_set keys_map_set insert_absorb)
qed

text \<open>\<open>runOne\<close> returns: its execution leaves the active runs, ended here when it was still in
  flight.\<close>

lemma placed_retire:
  assumes p: "placed c tr" and ex: "exclusive c" and k: "map_of (active c) e = Some k"
    and ph: "run_phase k \<noteq> Clearing"
  defines "c1 \<equiv> fst (settle_inflight e k c)"
  shows "placed (c1\<lparr>active := map_delete e (active c1)\<rparr>) (tr @ snd (settle_inflight e k c))"
proof -
  let ?u = "cell_uri (run_cell k)"
  let ?c = "c1\<lparr>active := map_delete e (active c1)\<rparr>"
  have act: "active c1 = active c" "closing c1 = closing c" "next_exec c1 = next_exec c"
      "inflight c1 = map_delete ?u (inflight c)"
    by (auto simp: c1_def settle_inflight_def Let_def map_of_eq_None_iff map_delete_absent)
  have clr: "mset (clearing ?c) = mset (clearing c)"
    using keys_where_delete [of "active c" e k "\<lambda>k. run_phase k = Clearing"] p k ph
    by (simp add: clearing_keys placed_def act)
  have "runs_on ?c u e1" if "(u, e1) \<in> set (inflight c1)" for u e1
  proof -
    have "(u, e1) \<in> set (inflight c)" "u \<noteq> ?u" using that by (auto simp: act map_delete_def)
    then have "runs_on c u e1" "e1 \<noteq> e" using p k by (auto simp: placed_def runs_on_def)
    then show ?thesis by (simp add: runs_on_def act)
  qed
  then have runs: "\<forall>(u, e1) \<in> set (inflight ?c). runs_on ?c u e1" by auto
  have count: "mset (ends (snd (settle_inflight e k c))) + mset (map snd (inflight c1)) = mset (map snd (inflight c))"
  proof (cases "map_of (inflight c) ?u")
    case None
    then show ?thesis by (simp add: settle_inflight_def c1_def)
  next
    case (Some e')
    then have "e' = e" using inflight_self(1) [OF p ex k] by simp
    moreover have "snd (settle_inflight e k c) = [End_execution e False]"
      using Some by (simp only: settle_inflight_def Let_def) simp
    ultimately show ?thesis
      using Some p mset_map_delete [of "inflight c" ?u e] by (simp add: act placed_def)
  qed
  have ab: "abandoned (snd (settle_inflight e k c)) = []" by (simp add: settle_inflight_def Let_def)
  have "mset (ends (tr @ snd (settle_inflight e k c))) + mset (abandoned (tr @ snd (settle_inflight e k c))) + accounted ?c
      = mset (ends tr) + mset (abandoned tr) + accounted c"
    using clr ab by (simp add: accounted_def act count [unfolded act, simplified, symmetric])
  also have "\<dots> = mset [0..<next_exec ?c]" using p by (simp add: placed_def act)
  finally have all: "mset (ends (tr @ snd (settle_inflight e k c))) +
      mset (abandoned (tr @ snd (settle_inflight e k c))) + accounted ?c = mset [0..<next_exec ?c]" .
  have "\<forall>e1 \<in> fst ` set (active ?c). e1 < next_exec ?c"
    using p unfolding act by (auto simp: placed_def act map_delete_def)
  then show ?thesis using p runs all
    by (simp add: placed_def act distinct_map_delete)
qed

lemma placed_run_returned:
  assumes "placed c tr" "exclusive c" "map_of (active c) e = Some k" "run_phase k \<noteq> Clearing"
  shows "placed (fst (run_returned e k err c)) (tr @ snd (run_returned e k err c))"
proof -
  let ?log = "case err of None \<Rightarrow> []
     | Some msg \<Rightarrow> [Ctl_log LError (''[controller] kernel error for '' @ cell_uri (run_cell k) @ '': '' @ msg)]"
  have "placed c (tr @ ?log)" using assms(1) by (simp add: placed_def split: option.split)
  from placed_execute [OF placed_retire [OF this assms(2-4)]] show ?thesis
    by (simp add: run_returned_def Let_def case_prod_beta)
qed

lemma placed_clear_failed:
  assumes p: "placed c tr" and k: "map_of (active c) e = Some k" and ph: "run_phase k = Clearing"
  shows "placed (fst (clear_failed e c)) (tr @ snd (clear_failed e c))"
proof -
  let ?c = "fst (clear_failed e c)"
  have c: "?c = c\<lparr>active := map_delete e (active c)\<rparr>" "snd (clear_failed e c) = [Execute_rejected e]"
    by (simp_all add: clear_failed_def)
  have "mset (clearing c) = mset (clearing ?c) + {#e#}"
    using keys_where_delete [of "active c" e k "\<lambda>k. run_phase k = Clearing"] p k ph
    by (simp add: clearing_keys placed_def c)
  moreover have "runs_on ?c u e1" if "runs_on c u e1" for u e1
  proof -
    have "e1 \<noteq> e" using that k ph by (auto simp: runs_on_def)
    with that show ?thesis by (simp add: runs_on_def c)
  qed
  ultimately show ?thesis using p
    by (auto simp: placed_def c accounted_def distinct_map_delete keys_map_delete)
qed

lemma claim_slot_count: "e \<in> snd ` set m \<Longrightarrow> mset (map snd m) = mset (map snd (claim_slot e m)) + {#e#}"
  by (induction e m rule: claim_slot.induct) auto

lemma claim_slot_sub: "set (claim_slot e m) \<subseteq> set m"
  by (induction e m rule: claim_slot.induct) auto

lemma claim_slot_distinct: "distinct (map fst m) \<Longrightarrow> distinct (map fst (claim_slot e m))"
  by (induction e m rule: claim_slot.induct) (use claim_slot_sub in force)+

lemma findExec_inflight: "findExecForCorrelation s c = Some e \<Longrightarrow> e \<in> snd ` set (inflight c)"
  by (force simp: findExecForCorrelation_def split: option.splits list.splits prod.splits dest: map_of_SomeD)

lemma placed_complete:
  assumes p: "placed c tr"
  shows "placed (fst (onRunComplete sp c)) (tr @ snd (onRunComplete sp c))"
proof (cases "findExecForCorrelation (span_key sp) c")
  case None
  then show ?thesis using p by (simp add: onRunComplete_def)
next
  case (Some e)
  let ?c = "fst (onRunComplete sp c)"
  have c: "?c = c\<lparr>inflight := claim_slot e (inflight c),
      closing := closing c @ [(e, status_ok sp, jprop sp ''spanId'')]\<rparr>" and evs: "snd (onRunComplete sp c) = [Append_output e sp]"
    using Some by (simp_all add: onRunComplete_def)
  have "runs_on ?c u e1 = runs_on c u e1" for u e1 by (simp add: runs_on_def c)
  moreover have "accounted ?c = accounted c"
    using claim_slot_count [OF findExec_inflight [OF Some]] by (simp add: accounted_def clearing_def c)
  ultimately show ?thesis using p claim_slot_sub [of e "inflight c"]
    by (auto simp: placed_def c evs claim_slot_distinct)
qed

lemma placed_append: "placed c tr \<Longrightarrow> placed c (tr @ [Append_output e p])"
  by (simp add: placed_def)

lemma placed_observe: "placed c tr \<Longrightarrow> placed (fst (observe self k c)) (tr @ snd (observe self k c))"
  by (cases k) (simp_all add: placed_complete placed_append onRunStart_def onRunEvent_def split: option.splits)

lemma placed_observe_all: "placed c tr \<Longrightarrow> placed (fst (observe_all self ks c)) (tr @ snd (observe_all self ks c))"
proof (induction ks arbitrary: c tr)
  case (Cons k ks)
  from Cons.IH [OF placed_observe [OF Cons.prems]] show ?case by (simp add: case_prod_beta Let_def)
qed simp

lemma placed_distinct:
  assumes "placed c tr"
  shows "distinct (map fst (closing c))" "distinct (ends tr)" "set (ends tr) \<inter> set (abandoned tr) = {}"
proof -
  have "mset (ends tr @ abandoned tr @ map fst (closing c) @ map snd (inflight c) @ clearing c) = mset [0..<next_exec c]"
    using assms by (simp add: placed_def accounted_def add.assoc)
  then have "distinct (ends tr @ abandoned tr @ map fst (closing c) @ map snd (inflight c) @ clearing c)"
    using mset_eq_imp_distinct_iff distinct_upt by blast
  then show "distinct (map fst (closing c))" "distinct (ends tr)" "set (ends tr) \<inter> set (abandoned tr) = {}"
    by auto
qed

lemma placed_append_settled:
  assumes p: "placed c tr" and k: "map_of (closing c) e = Some okspan"
  shows "placed (fst (append_settled e okspan c)) (tr @ snd (append_settled e okspan c))"
proof -
  let ?c = "fst (append_settled e okspan c)"
  have c: "inflight ?c = inflight c" "active ?c = active c" "next_exec ?c = next_exec c"
      "closing ?c = map_delete e (closing c)"
    and evs: "snd (append_settled e okspan c) = [End_execution e (fst okspan)]"
    by (simp_all add: append_settled_def)
  have "runs_on ?c u e1 = runs_on c u e1" for u e1 by (simp add: runs_on_def c)
  moreover have "mset (map fst (closing c)) = mset (map fst (map_delete e (closing c))) + {#e#}"
    using keys_where_delete [OF placed_distinct(1) [OF p] k, of "\<lambda>_. True"]
    by (simp add: keys_where_def split_def)
  ultimately show ?thesis using p by (auto simp: placed_def c evs accounted_def clearing_def)
qed

lemma placed_step:
  assumes p: "placed c tr" and ex: "exclusive c" and en: "ctl_enabled i c"
  shows "placed (fst (ctl_perform hc self i c)) (tr @ snd (ctl_perform hc self i c))"
proof (cases i)
  case (Execute cs)
  then show ?thesis using placed_execute [OF p] by simp
next
  case (Cleared e)
  then obtain k where k: "map_of (active c) e = Some k" "run_phase k = Clearing" using en by auto
  show ?thesis
    using Cleared k(1) placed_cleared [OF p ex k, of Connecting] placed_cleared [OF p ex k, of Executing]
    by (simp add: cleared_def call_kernel_def Let_def placed_def)
next
  case (Clear_rejected e)
  then show ?thesis using en placed_clear_failed [OF p] by auto
next
  case (Connected e)
  then obtain k where "map_of (active c) e = Some k" "run_phase k = Connecting" using en by auto
  then show ?thesis using Connected placed_advance [OF p, of e k Executing]
    by (simp add: call_kernel_def placed_def)
next
  case (Kernel_returned e err)
  then obtain k where "map_of (active c) e = Some k" "run_phase k \<noteq> Clearing" using en by auto
  then show ?thesis using Kernel_returned placed_run_returned [OF p ex] by simp
next
  case (Emit r bh p')
  then show ?thesis using placed_observe_all [OF p] by (simp add: sink_emit_def)
next
  case (Append_settled e)
  then show ?thesis using en placed_append_settled [OF p] by auto
next
  case (Bind s u)
  then show ?thesis using p by (simp add: placed_def bindCorrelation_def accounted_def clearing_def runs_on_def)
qed

lemma placed_run: "ctl_run hc self c tr alone \<Longrightarrow> alone \<Longrightarrow> placed c tr \<and> exclusive c"
proof (induction rule: ctl_run.induct)
  case init
  then show ?case by (simp add: placed_def new_controller_def accounted_def clearing_def exclusive_def)
next
  case (step c tr alone i)
  then show ?case using placed_step by blast
qed

subsection \<open>What holds however cells are run again\<close>

text \<open>An execution cannot be in two of the places at once, even where one is lost from them.\<close>

definition unshared :: "controller \<Rightarrow> ctl_effect list \<Rightarrow> bool" where
  "unshared c tr \<longleftrightarrow> distinct (map fst (active c)) \<and> fst ` set (active c) \<subseteq> {..<next_exec c} - set (abandoned tr) \<and>
     set (ends tr) \<subseteq> {..<next_exec c} - set (abandoned tr) - set (clearing c) \<and>
     mset (successes tr) + mset (abandoned tr) + accounted c \<subseteq># mset [0..<next_exec c]"

lemma unshared_quiet:
  assumes "unshared c tr" "ends evs = []" "abandoned evs = []" "successes evs = []"
  shows "unshared c (tr @ evs)"
  using assms by (simp add: unshared_def)

lemma execute_no_success: "successes (snd (execute cs c)) = []"
  by (induction cs) (auto simp: case_prod_beta runOne_def Let_def)

lemma unshared_execute: "unshared c tr \<Longrightarrow> unshared (fst (execute cs c)) (tr @ snd (execute cs c))"
proof -
  assume p: "unshared c tr"
  from execute_shape [of cs c] show ?thesis
  proof (elim conjE disjE exE)
    fix k assume k: "run_phase k = Clearing" "ends (snd (execute cs c)) = []" "abandoned (snd (execute cs c)) = []"
      and c': "fst (execute cs c) = c\<lparr>next_exec := Suc (next_exec c), active := active c @ [(next_exec c, k)]\<rparr>"
    have "set (abandoned tr) \<subseteq> {..<next_exec c}"
      using p mset_subset_eqD [of "mset (successes tr) + mset (abandoned tr) + accounted c" "mset [0..<next_exec c]"]
      by (force simp: unshared_def)
    moreover have "accounted (fst (execute cs c)) = accounted c + {#next_exec c#}"
      using k(1) by (simp add: accounted_def clearing_def c')
    ultimately show ?thesis
      using p k execute_no_success [of cs c] by (auto simp: unshared_def c' clearing_def less_Suc_eq add.assoc)
  qed (use p in \<open>simp add: unshared_quiet execute_no_success\<close>)
qed

lemma mset_map_set_le: "mset (map snd (map_set k v m)) \<subseteq># mset (map snd m) + {#v#}"
proof (induction m)
  case (Cons kv m)
  then show ?case by (cases kv) (auto simp: subset_mset.add_increasing2)
qed simp

lemma mset_map_delete_le: "mset (map snd (map_delete k m)) \<subseteq># mset (map snd m)"
proof -
  have "mset (map_delete k m) \<subseteq># mset m" by (simp add: map_delete_def)
  from image_mset_subseteq_mono [OF this, of snd] show ?thesis by simp
qed

lemma upt_count: "A \<subseteq># mset [0..<n] \<Longrightarrow> count A x \<le> 1"
proof -
  assume "A \<subseteq># mset [0..<n]"
  then have "count A x \<le> count (mset [0..<n]) x" by (rule mset_subset_eq_count)
  also have "\<dots> \<le> 1" by (simp add: count_mset_set')
  finally show ?thesis .
qed

lemma member_count: "x \<in> set xs \<longleftrightarrow> 1 \<le> count (mset xs) x"
  by (simp add: Suc_le_eq)

lemma upt_distinct: "mset xs \<subseteq># mset [0..<n] \<Longrightarrow> distinct xs"
  unfolding distinct_count_atmost_1
proof
  fix x assume "mset xs \<subseteq># mset [0..<n]"
  then have "count (mset xs) x \<le> 1" by (rule upt_count)
  then show "count (mset xs) x = (if x \<in> set xs then 1 else 0)"
    unfolding member_count by (cases "1 \<le> count (mset xs) x"; simp only: if_True if_False; linarith)
qed

lemma unshared_less:
  assumes "unshared c tr" "e \<in># accounted c"
  shows "e < next_exec c" "e \<notin> set (abandoned tr)" "e \<notin> set (successes tr)"
proof -
  let ?m = "mset (successes tr) + mset (abandoned tr) + accounted c"
  have le: "?m \<subseteq># mset [0..<next_exec c]" using assms(1) by (simp add: unshared_def)
  have "e \<in># mset [0..<next_exec c]" using assms(2) mset_subset_eqD [OF le, of e] by simp
  then show "e < next_exec c" by simp
  have "count ?m e \<le> 1" using le by (rule upt_count)
  moreover have "1 \<le> count (accounted c) e" using assms(2) by (simp add: Suc_le_eq)
  ultimately show "e \<notin> set (abandoned tr)" "e \<notin> set (successes tr)"
    unfolding member_count count_union by linarith+
qed

lemma clearing_member:
  "distinct (map fst (active c)) \<Longrightarrow> e \<in> set (clearing c) \<longleftrightarrow> map_option run_phase (map_of (active c) e) = Some Clearing"
  by (force simp: clearing_def dest: map_of_SomeD)

lemma unshared_advance:
  assumes p: "unshared c tr" and k: "map_of (active c) e = Some k" and ph: "run_phase k \<noteq> Clearing" and q: "q \<noteq> Clearing"
  shows "unshared (c\<lparr>active := map_set e (k\<lparr>run_phase := q\<rparr>) (active c)\<rparr>) tr"
proof -
  let ?c = "c\<lparr>active := map_set e (k\<lparr>run_phase := q\<rparr>) (active c)\<rparr>"
  have key: "e \<in> fst ` set (active c)" using k by (force dest: map_of_SomeD)
  have m: "mset (clearing ?c) = mset (clearing c)"
    using keys_where_set [of "active c" e k "\<lambda>k. run_phase k = Clearing" "k\<lparr>run_phase := q\<rparr>"] p k ph q
    by (simp add: clearing_keys unshared_def)
  then have "set (clearing ?c) = set (clearing c)" by (metis set_mset_mset)
  then show ?thesis using p key m by (simp add: unshared_def accounted_def distinct_map_set keys_map_set insert_absorb)
qed

lemma unshared_cleared:
  assumes p: "unshared c tr" and k: "map_of (active c) e = Some k" and ph: "run_phase k = Clearing" and q: "q \<noteq> Clearing"
  shows "unshared (c\<lparr>inflight := map_set (cell_uri (run_cell k)) e (inflight c),
                     active := map_set e (k\<lparr>run_phase := q\<rparr>) (active c)\<rparr>) tr" (is "unshared ?c tr")
proof -
  have key: "e \<in> fst ` set (active c)" using k by (force dest: map_of_SomeD)
  have m: "mset (clearing c) = mset (clearing ?c) + {#e#}"
    using keys_where_set [of "active c" e k "\<lambda>k. run_phase k = Clearing" "k\<lparr>run_phase := q\<rparr>"] p k ph q
    by (simp add: clearing_keys unshared_def)
  have "accounted ?c \<subseteq># accounted c"
    using mset_map_set_le [of "cell_uri (run_cell k)" e "inflight c"] by (simp add: accounted_def m)
  then have "mset (successes tr) + mset (abandoned tr) + accounted ?c \<subseteq># mset [0..<next_exec c]"
    using p by (meson mset_subset_eq_mono_add_left_cancel subset_mset.order_trans unshared_def)
  moreover have "set (clearing ?c) \<subseteq> set (clearing c)" using m by (metis set_mset_mset set_mset_union sup_ge1)
  ultimately show ?thesis using p key by (auto simp: unshared_def distinct_map_set keys_map_set insert_absorb)
qed

lemma unshared_clear_failed:
  assumes p: "unshared c tr" and k: "map_of (active c) e = Some k" and ph: "run_phase k = Clearing"
  shows "unshared (fst (clear_failed e c)) (tr @ snd (clear_failed e c))"
proof -
  let ?c = "fst (clear_failed e c)"
  have c: "?c = c\<lparr>active := map_delete e (active c)\<rparr>" "snd (clear_failed e c) = [Execute_rejected e]"
    by (simp_all add: clear_failed_def)
  have d: "distinct (map fst (active c))" using p by (simp add: unshared_def)
  have m: "mset (clearing c) = mset (clearing ?c) + {#e#}"
    using keys_where_delete [of "active c" e k "\<lambda>k. run_phase k = Clearing"] d k ph by (simp add: clearing_keys c)
  have "e \<in> set (clearing c)" using clearing_member [OF d] k ph by simp
  moreover have "set (clearing ?c) \<subseteq> set (clearing c)" using m by (metis set_mset_mset set_mset_union sup_ge1)
  ultimately show ?thesis using p m
    by (auto simp: unshared_def c accounted_def distinct_map_delete keys_map_delete)
qed

lemma unshared_retire:
  assumes p: "unshared c tr" and k: "map_of (active c) e = Some k" and ph: "run_phase k \<noteq> Clearing"
  defines "c1 \<equiv> fst (settle_inflight e k c)"
  shows "unshared (c1\<lparr>active := map_delete e (active c1)\<rparr>) (tr @ snd (settle_inflight e k c))"
proof -
  let ?c = "c1\<lparr>active := map_delete e (active c1)\<rparr>"
  have act: "active c1 = active c" "closing c1 = closing c" "next_exec c1 = next_exec c"
      "inflight c1 = map_delete (cell_uri (run_cell k)) (inflight c)"
    by (auto simp: c1_def settle_inflight_def Let_def map_of_eq_None_iff map_delete_absent)
  have d: "distinct (map fst (active c))" using p by (simp add: unshared_def)
  have m: "mset (clearing ?c) = mset (clearing c)"
    using keys_where_delete [of "active c" e k "\<lambda>k. run_phase k = Clearing"] d k ph by (simp add: clearing_keys act)
  then have sc: "set (clearing ?c) = set (clearing c)" by (metis set_mset_mset)
  have "accounted ?c \<subseteq># accounted c"
    using mset_map_delete_le [of "cell_uri (run_cell k)" "inflight c"] m by (simp add: accounted_def act)
  then have le: "mset (successes tr) + mset (abandoned tr) + accounted ?c \<subseteq># mset [0..<next_exec c]"
    using p by (meson mset_subset_eq_mono_add_left_cancel subset_mset.order_trans unshared_def)
  have "e \<in> fst ` set (active c)" using k by (force dest: map_of_SomeD)
  then have e: "e < next_exec c" "e \<notin> set (abandoned tr)" using p by (auto simp: unshared_def)
  have "e \<notin> set (clearing c)" using clearing_member [OF d] k ph by simp
  moreover have "ends (snd (settle_inflight e k c)) \<in> {[], [e]}" "abandoned (snd (settle_inflight e k c)) = []"
      "successes (snd (settle_inflight e k c)) = []"
    by (simp_all add: settle_inflight_def Let_def)
  ultimately show ?thesis using p sc le e
    by (auto simp: unshared_def act distinct_map_delete keys_map_delete)
qed

lemma unshared_complete:
  assumes p: "unshared c tr"
  shows "unshared (fst (onRunComplete sp c)) (tr @ snd (onRunComplete sp c))"
proof (cases "findExecForCorrelation (span_key sp) c")
  case None
  then show ?thesis using p by (simp add: onRunComplete_def)
next
  case (Some e)
  then show ?thesis using p claim_slot_count [OF findExec_inflight [OF Some]]
    by (simp add: onRunComplete_def unshared_def accounted_def clearing_def)
qed

lemma unshared_observe: "unshared c tr \<Longrightarrow> unshared (fst (observe self k c)) (tr @ snd (observe self k c))"
  by (cases k) (simp_all add: unshared_complete unshared_quiet onRunStart_def onRunEvent_def split: option.splits)

lemma unshared_observe_all: "unshared c tr \<Longrightarrow> unshared (fst (observe_all self ks c)) (tr @ snd (observe_all self ks c))"
proof (induction ks arbitrary: c tr)
  case (Cons k ks)
  from Cons.IH [OF unshared_observe [OF Cons.prems]] show ?case by (simp add: case_prod_beta Let_def)
qed simp

lemma unshared_append_settled:
  assumes p: "unshared c tr" and k: "map_of (closing c) e = Some okspan"
  shows "unshared (fst (append_settled e okspan c)) (tr @ snd (append_settled e okspan c))"
proof -
  let ?c = "fst (append_settled e okspan c)"
  have c: "inflight ?c = inflight c" "active ?c = active c" "next_exec ?c = next_exec c"
      "closing ?c = map_delete e (closing c)"
    and evs: "snd (append_settled e okspan c) = [End_execution e (fst okspan)]"
    by (simp_all add: append_settled_def)
  have "e \<in> fst ` set (closing c)" using k by (force dest: map_of_SomeD)
  then have e: "e \<in># accounted c" by (simp add: accounted_def)
  note ul = unshared_less [OF p e]
  let ?m = "mset (successes tr) + mset (abandoned tr) + accounted c"
  have "distinct (map fst (closing c))" "e \<notin> set (clearing c)"
  proof -
    have le: "mset (map fst (closing c)) + mset (clearing c) \<subseteq># mset [0..<next_exec c]"
      using p by (auto simp: unshared_def accounted_def intro: subset_mset.order_trans [rotated])
    have one: "count (mset (map fst (closing c)) + mset (clearing c)) x \<le> 1" for x
      using le by (rule upt_count)
    have "mset (map fst (closing c)) \<subseteq># mset [0..<next_exec c]"
      using le by (auto intro: subset_mset.order_trans [rotated])
    then show "distinct (map fst (closing c))" by (rule upt_distinct)
    have "1 \<le> count (mset (map fst (closing c))) e" using \<open>e \<in> fst ` set (closing c)\<close> by (simp add: Suc_le_eq)
    then show "e \<notin> set (clearing c)" using one [of e] unfolding member_count count_union by linarith
  qed
  then have "mset (map fst (closing c)) = mset (map fst (map_delete e (closing c))) + {#e#}"
    using keys_where_delete [OF _ k, of "\<lambda>_. True"] by (simp add: keys_where_def split_def)
  then have "accounted c = accounted ?c + {#e#}" by (simp add: accounted_def clearing_def c)
  then have "mset (successes (tr @ [End_execution e (fst okspan)])) + mset (abandoned tr) + accounted ?c \<subseteq># mset [0..<next_exec c]"
    using p by (cases "fst okspan") (auto simp: unshared_def intro: subset_mset.order_trans [rotated])
  then show ?thesis using p ul(1,2) \<open>e \<notin> set (clearing c)\<close> by (auto simp: unshared_def c evs clearing_def)
qed

lemma unshared_step:
  assumes p: "unshared c tr" and en: "ctl_enabled i c"
  shows "unshared (fst (ctl_perform hc self i c)) (tr @ snd (ctl_perform hc self i c))"
proof (cases i)
  case (Execute cs)
  then show ?thesis using unshared_execute [OF p] by simp
next
  case (Cleared e)
  then obtain k where k: "map_of (active c) e = Some k" "run_phase k = Clearing" using en by auto
  show ?thesis
    using Cleared k(1) unshared_cleared [OF p k, of Connecting] unshared_cleared [OF p k, of Executing]
    by (simp add: cleared_def call_kernel_def Let_def unshared_quiet)
next
  case (Clear_rejected e)
  then show ?thesis using en unshared_clear_failed [OF p] by auto
next
  case (Connected e)
  then obtain k where "map_of (active c) e = Some k" "run_phase k = Connecting" using en by auto
  then show ?thesis using Connected unshared_advance [OF p, of e k Executing]
    by (simp add: call_kernel_def unshared_quiet)
next
  case (Kernel_returned e err)
  then obtain k where k: "map_of (active c) e = Some k" "run_phase k \<noteq> Clearing" using en by auto
  let ?log = "case err of None \<Rightarrow> []
     | Some msg \<Rightarrow> [Ctl_log LError (''[controller] kernel error for '' @ cell_uri (run_cell k) @ '': '' @ msg)]"
  have "unshared c (tr @ ?log)" using p by (rule unshared_quiet) (simp_all split: option.split)
  from unshared_execute [OF unshared_retire [OF this k]] show ?thesis
    using Kernel_returned k(1) by (simp add: run_returned_def Let_def case_prod_beta)
next
  case (Emit r bh p')
  then show ?thesis using unshared_observe_all [OF p] by (simp add: sink_emit_def)
next
  case (Append_settled e)
  then show ?thesis using en unshared_append_settled [OF p] by auto
next
  case (Bind s u)
  then show ?thesis using p by (simp add: unshared_def bindCorrelation_def accounted_def clearing_def)
qed

lemma unshared_run: "ctl_run hc self c tr alone \<Longrightarrow> unshared c tr"
proof (induction rule: ctl_run.induct)
  case init
  then show ?case by (simp add: unshared_def new_controller_def accounted_def clearing_def)
next
  case (step c tr alone i)
  then show ?case using unshared_step by blast
qed

lemma unshared_distinct: "unshared c tr \<Longrightarrow> distinct (successes tr)"
  by (rule upt_distinct [of _ "next_exec c"]) (auto simp: unshared_def intro: subset_mset.order_trans [rotated])

subsection \<open>Why an execution succeeds\<close>

definition ok_seen :: "ctl_effect list \<Rightarrow> nat \<Rightarrow> bool" where
  "ok_seen tr e \<longleftrightarrow> (\<exists>sp. Append_output e sp \<in> set tr \<and> status_ok sp \<and> nonempty_text (jprop sp ''endTimeUnixNano''))"

definition justified :: "ctl_effect list \<Rightarrow> bool" where
  "justified tr \<longleftrightarrow> (\<forall>xs e ys. tr = xs @ End_execution e True # ys \<longrightarrow> ok_seen xs e)"

definition closing_ok :: "controller \<Rightarrow> ctl_effect list \<Rightarrow> bool" where
  "closing_ok c tr \<longleftrightarrow> (\<forall>(e, ok, _) \<in> set (closing c). ok \<longrightarrow> ok_seen tr e)"

lemma ok_seen_append: "ok_seen tr e \<Longrightarrow> ok_seen (tr @ evs) e"
  by (auto simp: ok_seen_def)

lemma justified_append:
  assumes j: "justified tr" and new: "\<And>e. End_execution e True \<in> set evs \<Longrightarrow> ok_seen tr e"
  shows "justified (tr @ evs)"
  unfolding justified_def
proof (intro allI impI)
  fix xs e ys assume "tr @ evs = xs @ End_execution e True # ys"
  then consider us where "tr = xs @ us" "us @ evs = End_execution e True # ys"
    | us where "xs = tr @ us" "evs = us @ End_execution e True # ys"
    by (auto simp: append_eq_append_conv2)
  then show "ok_seen xs e"
  proof cases
    case 1
    then show ?thesis
    proof (cases us)
      case Nil
      with 1 new show ?thesis by simp
    next
      case (Cons a list)
      with 1 j show ?thesis by (auto simp: justified_def)
    qed
  next
    case 2
    with new show ?thesis by (simp add: ok_seen_append)
  qed
qed

definition verdicts :: "controller \<Rightarrow> ctl_effect list \<Rightarrow> bool" where
  "verdicts c tr \<longleftrightarrow> justified tr \<and> closing_ok c tr"

lemma verdicts_quiet:
  assumes "verdicts c tr" "closing c' = closing c" "\<And>e. End_execution e True \<notin> set evs"
  shows "verdicts c' (tr @ evs)"
  using assms by (auto simp: verdicts_def closing_ok_def intro!: justified_append ok_seen_append)

lemma execute_quiet: "closing (fst (execute cs c)) = closing c \<and> (\<forall>e b. End_execution e b \<notin> set (snd (execute cs c)))"
  by (induction cs) (auto simp: case_prod_beta runOne_def Let_def)

lemma run_returned_quiet:
  "closing (fst (run_returned e k err c)) = closing c" "End_execution e1 True \<notin> set (snd (run_returned e k err c))"
  by (auto simp: run_returned_def settle_inflight_def Let_def case_prod_beta execute_quiet split: option.splits if_splits)

lemma run_complete_calls:
  "OnRunComplete obs p \<in> set (calls (fst (routeRunMime r bh payload))) \<Longrightarrow> nonempty_text (jprop p ''endTimeUnixNano'')"
  by (auto simp: routeRunMime_def deliver_upto_throw Let_def split: if_splits dest!: in_set_takeD set_takeWhileD set_dropWhileD)

lemma verdicts_observe:
  assumes "verdicts c tr" "\<And>obs p. k = OnRunComplete obs p \<Longrightarrow> nonempty_text (jprop p ''endTimeUnixNano'')"
  shows "verdicts (fst (observe self k c)) (tr @ snd (observe self k c))"
proof (cases "\<exists>p e. k = OnRunComplete self p \<and> findExecForCorrelation (span_key p) c = Some e")
  case True
  then obtain p e where k: "k = OnRunComplete self p" "findExecForCorrelation (span_key p) c = Some e" by blast
  have "ok_seen (tr @ [Append_output e p]) e" if "status_ok p"
    using assms(2) [OF k(1)] that by (auto simp: ok_seen_def)
  with assms(1) k show ?thesis
    by (auto simp: onRunComplete_def verdicts_def closing_ok_def intro!: justified_append ok_seen_append)
next
  case False
  then show ?thesis using assms(1)
    by (cases k) (auto simp: onRunStart_def onRunEvent_def onRunComplete_def split: option.splits intro!: verdicts_quiet [of c tr c])
qed

lemma verdicts_observe_all:
  assumes "verdicts c tr" "\<And>obs p. OnRunComplete obs p \<in> set ks \<Longrightarrow> nonempty_text (jprop p ''endTimeUnixNano'')"
  shows "verdicts (fst (observe_all self ks c)) (tr @ snd (observe_all self ks c))"
  using assms
proof (induction ks arbitrary: c tr)
  case (Cons k ks)
  have "verdicts (fst (observe self k c)) (tr @ snd (observe self k c))"
    using Cons.prems by (intro verdicts_observe) auto
  moreover have "\<And>obs p. OnRunComplete obs p \<in> set ks \<Longrightarrow> nonempty_text (jprop p ''endTimeUnixNano'')"
    using Cons.prems(2) by (meson list.set_intros(2))
  ultimately have "verdicts (fst (observe_all self ks (fst (observe self k c))))
      ((tr @ snd (observe self k c)) @ snd (observe_all self ks (fst (observe self k c))))"
    by (rule Cons.IH)
  then show ?case by (simp add: case_prod_beta Let_def)
qed simp

lemma verdicts_bind: "verdicts (bindCorrelation s u c) tr = verdicts c tr"
  by (simp add: verdicts_def closing_ok_def bindCorrelation_def)

lemma verdicts_step:
  assumes v: "verdicts c tr" and en: "ctl_enabled i c"
  shows "verdicts (fst (ctl_perform hc self i c)) (tr @ snd (ctl_perform hc self i c))"
proof (cases i)
  case (Emit r bh p)
  then show ?thesis using verdicts_observe_all [OF v run_complete_calls] by (simp add: sink_emit_def)
next
  case (Append_settled e)
  then obtain ok sp where ok: "map_of (closing c) e = Some (ok, sp)" using en by auto
  then have "ok \<longrightarrow> ok_seen tr e" using v by (force simp: verdicts_def closing_ok_def dest: map_of_SomeD)
  with v ok Append_settled show ?thesis
    by (auto simp: append_settled_def verdicts_def closing_ok_def map_delete_def intro!: justified_append ok_seen_append)
qed (use v en in \<open>auto simp: execute_quiet run_returned_quiet cleared_def call_kernel_def clear_failed_def
       Let_def verdicts_bind split: if_splits intro!: verdicts_quiet [of c tr]\<close>)

lemma verdicts_run: "ctl_run hc self c tr alone \<Longrightarrow> verdicts c tr"
proof (induction rule: ctl_run.induct)
  case init
  then show ?case by (simp add: verdicts_def justified_def closing_ok_def new_controller_def)
next
  case (step c tr alone i)
  then show ?case using verdicts_step by blast
qed

subsection \<open>Properties\<close>

text \<open>Runs as input lists, for concrete runs; the last component as in \<open>ctl_run\<close>.\<close>

fun ctl_inputs :: "bool \<Rightarrow> observer \<Rightarrow> ctl_input list \<Rightarrow> controller \<Rightarrow> (controller \<times> ctl_effect list \<times> bool) option" where
  "ctl_inputs hc self [] c = Some (c, [], True)"
| "ctl_inputs hc self (i # is) c =
     (let (c1, e1) = ctl_perform hc self i c in
      if ctl_enabled i c
      then map_option (\<lambda>(c2, e2, b). (c2, e1 @ e2, exclusive c1 \<and> b)) (ctl_inputs hc self is c1) else None)"

lemma ctl_inputs_run:
  "ctl_run hc self c tr alone \<Longrightarrow> ctl_inputs hc self is c = Some (c', evs, b) \<Longrightarrow> ctl_run hc self c' (tr @ evs) (alone \<and> b)"
proof (induction "is" arbitrary: c tr evs alone b)
  case (Cons i "is")
  let ?c1 = "fst (ctl_perform hc self i c)" and ?e1 = "snd (ctl_perform hc self i c)"
  obtain e2 b2 where e2: "ctl_inputs hc self is ?c1 = Some (c', e2, b2)" "evs = ?e1 @ e2" "b = (exclusive ?c1 \<and> b2)"
      and en: "ctl_enabled i c"
    using Cons.prems(2) by (auto simp: case_prod_beta split: if_splits)
  from Cons.IH [OF ctl_run.step [OF Cons.prems(1) en] e2(1)] e2(2,3) show ?case by simp
qed simp

definition demo_cell :: "string \<Rightarrow> ctl_cell" where
  "demo_cell u = \<lparr>cell_uri = u, ctl_kind = Code, ctl_text = ''hi'', ctl_language = ''llmnb-cell'', executionOrder = None\<rparr>"

definition demo_span :: jsv where
  "demo_span = JObj [(''spanId'', JStr ''s''), (''endTimeUnixNano'', JStr ''1''),
     (''status'', JObj [(''code'', JStr ''STATUS_CODE_OK'')])]"

definition demo_inputs :: "ctl_input list" where
  "demo_inputs = [Execute [demo_cell ''a'', demo_cell ''b''], Cleared 0, Connected 0,
     Emit (registerRunObserver 7 new_router) (\<lambda>_. None) demo_span, Append_settled 0, Kernel_returned 0 None,
     Cleared 1, Kernel_returned 1 (Some ''E'')]"

lemma ctl_demo_run:
  "\<exists>c tr. ctl_run True 7 c tr True \<and> active c = [] \<and> closing c = [] \<and> next_exec c = 2 \<and>
     ends tr = [0, 1] \<and> abandoned tr = [] \<and> End_execution 0 True \<in> set tr"
proof -
  have ok: "case ctl_inputs True 7 demo_inputs new_controller of None \<Rightarrow> False
     | Some (c, tr, b) \<Rightarrow> active c = [] \<and> closing c = [] \<and> next_exec c = 2 \<and> ends tr = [0, 1] \<and>
         abandoned tr = [] \<and> End_execution 0 True \<in> set tr \<and> b"
    by code_simp
  obtain c tr b where r: "ctl_inputs True 7 demo_inputs new_controller = Some (c, tr, b)"
    using ok by (cases "ctl_inputs True 7 demo_inputs new_controller") auto
  have "ctl_run True 7 c tr b" using ctl_inputs_run [OF ctl_run.init r] by simp
  then show ?thesis using ok unfolding r by (intro exI [of _ c] exI [of _ tr]) simp
qed

text \<open>C4. Cell executions, for every interleaving of execute calls, kernel emissions, settled
  awaits and failures: only executions that were created and whose \<open>clearOutput()\<close> did not reject
  are ended, and none is ended successfully twice. As long as no cell is run again before its
  previous \<open>runOne\<close> has returned, no execution is ended twice at all, and once no run is active and
  no append is outstanding every execution created has been ended exactly once, except those
  whose \<open>clearOutput()\<close> rejected, which are never ended.\<close>

theorem executions_end_once:
  assumes "ctl_run hc self c tr alone"
  shows "set (ends tr) \<subseteq> {..<next_exec c} - set (abandoned tr) \<and> distinct (successes tr) \<and>
    (alone \<longrightarrow> distinct (ends tr) \<and>
      (active c = [] \<and> closing c = [] \<longrightarrow> set (ends tr) = {..<next_exec c} - set (abandoned tr)))"
proof -
  have u: "unshared c tr" using unshared_run [OF assms] .
  have "distinct (ends tr) \<and>
      (active c = [] \<and> closing c = [] \<longrightarrow> set (ends tr) = {..<next_exec c} - set (abandoned tr))" if alone
  proof -
    have p: "placed c tr" using placed_run [OF assms that] by simp
    then have eq: "mset (ends tr) + mset (abandoned tr) + accounted c = mset [0..<next_exec c]"
      by (simp only: placed_def)
    have "set_mset (mset (ends tr) + mset (abandoned tr) + accounted c) = set_mset (mset [0..<next_exec c])"
      by (simp only: eq)
    then have sets: "set (ends tr) \<union> set (abandoned tr) \<union> set_mset (accounted c) = {..<next_exec c}"
      by (simp only: set_mset_union set_mset_mset set_upt atLeast0LessThan)
    have "accounted c = {#}" if "active c = []" "closing c = []"
    proof -
      have "inflight c = []" using p that by (cases "inflight c") (auto simp: placed_def runs_on_def)
      with that show ?thesis by (simp add: accounted_def clearing_def)
    qed
    then have "set (ends tr) \<union> set (abandoned tr) = {..<next_exec c}" if "active c = []" "closing c = []"
      using sets that by simp
    with sets placed_distinct(2,3) [OF p] show ?thesis by blast
  qed
  then show ?thesis using u unshared_distinct [OF u] by (auto simp: unshared_def)
qed

theorem executions_end_once_witness:
  "\<exists>c tr. ctl_run True 7 c tr True \<and> next_exec c = 2 \<and> abandoned tr = [] \<and> set (ends tr) = {..<2} \<and> distinct (ends tr)"
proof -
  obtain c tr where "ctl_run True 7 c tr True" "active c = []" "closing c = []" "next_exec c = 2" "abandoned tr = []"
    using ctl_demo_run by blast
  then show ?thesis using executions_end_once [of True 7 c tr True] by (intro exI [of _ c] exI [of _ tr]) simp
qed

text \<open>The condition is needed. Execution 0 of cell a is ended by a closed span while its kernel call is
  still running; VS Code then lets the cell run again, as execution 1. When the first call
  returns, \<open>runOne\<close> finds the slot of the cell taken, by execution 1, and so ends execution 0 a second
  time and clears the slot; execution 1 is then never ended.\<close>

definition rerun_inputs :: "ctl_input list" where
  "rerun_inputs = [Execute [demo_cell ''a''], Cleared 0, Connected 0,
     Emit (registerRunObserver 7 new_router) (\<lambda>_. None) demo_span, Append_settled 0,
     Execute [demo_cell ''a''], Cleared 1, Connected 1, Kernel_returned 0 None, Kernel_returned 1 None]"

lemma rerun_ends_twice:
  "\<exists>c tr. ctl_run True 7 c tr False \<and> ends tr = [0, 0] \<and> active c = [] \<and> closing c = [] \<and> next_exec c = 2"
proof -
  have ok: "case ctl_inputs True 7 rerun_inputs new_controller of None \<Rightarrow> False
     | Some (c, tr, b) \<Rightarrow> active c = [] \<and> closing c = [] \<and> next_exec c = 2 \<and> ends tr = [0, 0] \<and> \<not> b"
    by code_simp
  obtain c tr b where r: "ctl_inputs True 7 rerun_inputs new_controller = Some (c, tr, b)"
    using ok by (cases "ctl_inputs True 7 rerun_inputs new_controller") auto
  have "ctl_run True 7 c tr b" using ctl_inputs_run [OF ctl_run.init r] by simp
  then show ?thesis using ok unfolding r by (intro exI [of _ c] exI [of _ tr]) simp
qed

text \<open>C10. Success is earned: an execution is ended successfully only after a terminal span
  (non-empty end time, status \<open>STATUS_CODE_OK\<close>) was appended to its outputs, whatever else the
  kernel emits, however its calls return and whenever cells are run again.\<close>

theorem success_needs_ok_span:
  assumes "ctl_run hc self c tr alone" "tr = before @ End_execution e True # after"
  shows "\<exists>sp. Append_output e sp \<in> set before \<and>
    jprop (jprop sp ''status'') ''code'' = JStr ''STATUS_CODE_OK'' \<and> nonempty_text (jprop sp ''endTimeUnixNano'')"
  using verdicts_run [OF assms(1)] assms(2) by (simp add: verdicts_def justified_def ok_seen_def status_ok_def)

theorem success_needs_ok_span_witness:
  "\<exists>c tr before after. ctl_run True 7 c tr True \<and> tr = before @ End_execution 0 True # after \<and>
     (\<exists>sp. Append_output 0 sp \<in> set before \<and> jprop (jprop sp ''status'') ''code'' = JStr ''STATUS_CODE_OK'')"
proof -
  obtain c tr where r: "ctl_run True 7 c tr True" "End_execution 0 True \<in> set tr" using ctl_demo_run by blast
  then obtain before after where tr: "tr = before @ End_execution 0 True # after" by (meson split_list)
  from success_needs_ok_span [OF r(1) tr] r(1) tr show ?thesis by blast
qed

end
