(* ===== verification/JS_Sort.thy ===== *)
theory JS_Sort
  imports RTS_Prelude "HOL-Library.Char_ord" "HOL-Library.List_Lexorder"
begin

section \<open>Sorting and grouping\<close>

text \<open>
  \<open>Array.prototype.sort\<close> is stable; for a comparator that is a total preorder the result is
  determined, and any stable sort computes it: here insertion. Strings compare by code units
  (the lexicographic order of \<open>List_Lexorder\<close> over \<open>Char_ord\<close>). The locale states what a
  comparator promises and what the sorted array then satisfies; each comparator of the
  sources is an interpretation.
\<close>

fun insort_by :: "('a \<Rightarrow> 'a \<Rightarrow> int) \<Rightarrow> 'a \<Rightarrow> 'a list \<Rightarrow> 'a list" where
  "insort_by cmp x [] = [x]"
| "insort_by cmp x (y # ys) = (if cmp x y \<le> 0 then x # y # ys else y # insort_by cmp x ys)"

definition js_sort :: "('a \<Rightarrow> 'a \<Rightarrow> int) \<Rightarrow> 'a list \<Rightarrow> 'a list" where
  "js_sort cmp xs = foldr (insort_by cmp) xs []"

lemma mset_insort_by [simp]: "mset (insort_by cmp x ys) = add_mset x (mset ys)"
  by (induction ys) auto

lemma mset_js_sort [simp]: "mset (js_sort cmp xs) = mset xs"
  by (induction xs) (simp_all add: js_sort_def)

lemma set_js_sort [simp]: "set (js_sort cmp xs) = set xs"
  by (metis mset_js_sort set_mset_mset)

lemma length_js_sort [simp]: "length (js_sort cmp xs) = length xs"
  by (metis mset_js_sort size_mset)

lemma js_sort_Nil [simp]: "js_sort cmp [] = []"
  by (simp add: js_sort_def)

lemma js_sort_Nil_iff [simp]: "js_sort cmp xs = [] \<longleftrightarrow> xs = []"
  by (metis length_js_sort length_0_conv)

lemma distinct_map_js_sort: "distinct (map f (js_sort cmp xs)) \<longleftrightarrow> distinct (map f xs)"
  by (rule mset_eq_imp_distinct_iff) simp

lemma sorted_wrt_conj: "sorted_wrt P xs \<Longrightarrow> sorted_wrt Q xs \<Longrightarrow> sorted_wrt (\<lambda>a b. P a b \<and> Q a b) xs"
  by (induction xs) auto

lemma sorted_wrt_distinct_map: "distinct (map f xs) \<Longrightarrow> sorted_wrt (\<lambda>a b. f a \<noteq> f b) xs"
  by (induction xs) auto

locale comparator =
  fixes cmp :: "'a \<Rightarrow> 'a \<Rightarrow> int"
  assumes total: "cmp x y \<le> 0 \<or> cmp y x \<le> 0"
    and trans: "cmp x y \<le> 0 \<Longrightarrow> cmp y z \<le> 0 \<Longrightarrow> cmp x z \<le> 0"
begin

lemma sorted_insort_by:
  "sorted_wrt (\<lambda>a b. cmp a b \<le> 0) ys \<Longrightarrow> sorted_wrt (\<lambda>a b. cmp a b \<le> 0) (insort_by cmp x ys)"
proof (induction ys)
  case (Cons y ys)
  have "set (insort_by cmp x ys) = insert x (set ys)"
    by (metis mset_insort_by set_mset_add_mset_insert set_mset_mset)
  with Cons total [of x y] trans show ?case by auto
qed simp

theorem sorted_js_sort: "sorted_wrt (\<lambda>a b. cmp a b \<le> 0) (js_sort cmp xs)"
  by (induction xs) (simp_all add: js_sort_def sorted_insort_by)

lemma hd_js_sort: "x \<in> set xs \<Longrightarrow> cmp (hd (js_sort cmp xs)) x \<le> 0"
proof -
  assume x: "x \<in> set xs"
  then obtain y ys where ys: "js_sort cmp xs = y # ys" by (cases "js_sort cmp xs") auto
  have "set (y # ys) = set xs" using set_js_sort [of cmp xs] ys by simp
  with x sorted_js_sort [of xs] ys total [of x x] show ?thesis by auto
qed

text \<open>Stability: elements that compare equal to \<open>x\<close> keep their order.\<close>

lemma insort_by_equal:
  "filter (\<lambda>z. cmp z x \<le> 0 \<and> cmp x z \<le> 0) (insort_by cmp y ys) =
     (if cmp y x \<le> 0 \<and> cmp x y \<le> 0 then [y] else []) @ filter (\<lambda>z. cmp z x \<le> 0 \<and> cmp x z \<le> 0) ys"
proof (induction ys)
  case (Cons z ys)
  show ?case
  proof (cases "cmp y z \<le> 0")
    case False
    then have "\<not> (cmp y x \<le> 0 \<and> cmp x y \<le> 0 \<and> cmp z x \<le> 0 \<and> cmp x z \<le> 0)"
      using trans by blast
    with False Cons show ?thesis by auto
  qed simp
qed simp

lemma js_sort_stable:
  "filter (\<lambda>z. cmp z x \<le> 0 \<and> cmp x z \<le> 0) (js_sort cmp xs) = filter (\<lambda>z. cmp z x \<le> 0 \<and> cmp x z \<le> 0) xs"
  by (induction xs) (simp_all add: js_sort_def insort_by_equal)

end

text \<open>The comparators \<open>(a, b) => f(a) - f(b)\<close> and \<open>a < b ? -1 : a > b ? 1 : 0\<close>.\<close>

definition compare_by :: "('a \<Rightarrow> int) \<Rightarrow> 'a \<Rightarrow> 'a \<Rightarrow> int" where
  "compare_by f a b = f a - f b"

definition compare_str :: "string \<Rightarrow> string \<Rightarrow> int" where
  "compare_str a b = (if a < b then -1 else if a > b then 1 else 0)"

interpretation by_key: comparator "compare_by f" for f
  by unfold_locales (auto simp: compare_by_def)

interpretation by_str: comparator compare_str
  by unfold_locales (auto simp: compare_str_def split: if_splits)

subsection \<open>Grouping in a \<open>Map\<close>\<close>

text \<open>\<open>Map.get\<close>-then-\<open>set\<close> loops that keep one element per key: the first one, replaced by a
  later one when \<open>better\<close> says so.\<close>

definition keep_best :: "('a \<Rightarrow> 'k) \<Rightarrow> ('a \<Rightarrow> 'a \<Rightarrow> bool) \<Rightarrow> 'a \<Rightarrow> ('k \<times> 'a) list \<Rightarrow> ('k \<times> 'a) list" where
  "keep_best key better x m =
     (case map_of m (key x) of
        None \<Rightarrow> map_set (key x) x m
      | Some prev \<Rightarrow> if better x prev then map_set (key x) x m else m)"

definition best_by :: "('a \<Rightarrow> 'k) \<Rightarrow> ('a \<Rightarrow> 'a \<Rightarrow> bool) \<Rightarrow> 'a list \<Rightarrow> ('k \<times> 'a) list" where
  "best_by key better xs = fold (keep_best key better) xs []"

lemma map_of_keep_best:
  "map_of (keep_best key better x m) k =
     (if key x = k then (case map_of m k of None \<Rightarrow> Some x | Some p \<Rightarrow> Some (if better x p then x else p))
      else map_of m k)"
  by (simp add: keep_best_def split: option.split)

lemma best_by_snoc: "best_by key better (xs @ [x]) = keep_best key better x (best_by key better xs)"
  by (simp add: best_by_def)

lemma keys_keep_best: "fst ` set (keep_best key better x m) = insert (key x) (fst ` set m)"
  by (auto simp: keep_best_def keys_map_set map_of_eq_None_iff insert_absorb split: option.splits)
    (metis fst_conv image_iff map_of_SomeD)+

lemma keys_best_by: "fst ` set (best_by key better xs) = key ` set xs"
  by (induction xs rule: rev_induct) (simp_all add: best_by_snoc keys_keep_best, simp add: best_by_def)

lemma distinct_best_by: "distinct (map fst (best_by key better xs))"
proof (induction xs rule: rev_induct)
  case (snoc x xs)
  then show ?case by (auto simp: best_by_snoc keep_best_def distinct_map_set split: option.splits)
qed (simp add: best_by_def)

lemma best_by_key: "(k, x) \<in> set (best_by key better xs) \<Longrightarrow> key x = k \<and> x \<in> set xs"
proof (induction xs arbitrary: k x rule: rev_induct)
  case (snoc y xs)
  have "map_of (best_by key better (xs @ [y])) k = Some x"
    using snoc.prems by (simp add: map_of_eq_Some_iff distinct_best_by)
  then have "map_of (best_by key better xs) k = Some x \<or> k = key y \<and> x = y"
    by (auto simp: best_by_snoc keep_best_def split: option.splits if_splits)
  with snoc.IH show ?case by (auto dest: map_of_SomeD)
qed (simp add: best_by_def)

lemma best_by_values:
  "x \<in> set (map snd (best_by key better xs)) \<longleftrightarrow> map_of (best_by key better xs) (key x) = Some x"
proof
  assume "x \<in> set (map snd (best_by key better xs))"
  then obtain k where k: "(k, x) \<in> set (best_by key better xs)" by auto
  then have "key x = k" using best_by_key [OF k] by simp
  with k show "map_of (best_by key better xs) (key x) = Some x"
    by (simp add: map_of_eq_Some_iff distinct_best_by)
next
  assume "map_of (best_by key better xs) (key x) = Some x"
  then have "(key x, x) \<in> set (best_by key better xs)" by (rule map_of_SomeD)
  then show "x \<in> set (map snd (best_by key better xs))" by force
qed

lemma distinct_best_values: "distinct (map (key \<circ> snd) (best_by key better xs))"
proof -
  have "map (key \<circ> snd) (best_by key better xs) = map fst (best_by key better xs)"
    using best_by_key [of _ _ key better xs] by (intro map_cong) auto
  then show ?thesis using distinct_best_by by metis
qed

text \<open>When \<open>better x prev\<close> is "\<open>x\<close> is terminal and \<open>prev\<close> is not", the element kept for a key is
  the first terminal one with that key, or else the first one.\<close>

lemma best_by_first:
  "map_of (best_by key (\<lambda>x prev. t x \<and> \<not> t prev) xs) k =
     (case find (\<lambda>x. key x = k \<and> t x) xs of Some x \<Rightarrow> Some x | None \<Rightarrow> find (\<lambda>x. key x = k) xs)"
proof (induction xs rule: rev_induct)
  case (snoc y xs)
  have app: "find P (xs @ [y]) = (case find P xs of None \<Rightarrow> if P y then Some y else None | r \<Rightarrow> r)" for P
    by (induction xs) auto
  have sub: "find (\<lambda>x. key x = k \<and> t x) xs = Some z \<Longrightarrow> find (\<lambda>x. key x = k) xs \<noteq> None" for z
    by (metis (mono_tags, lifting) find_None_iff find_Some_iff nth_mem)
  have tz: "find (\<lambda>x. key x = k \<and> t x) xs = Some z \<Longrightarrow> t z" for z by (auto simp: find_Some_iff)
  have nt: "find (\<lambda>x. key x = k \<and> t x) xs = None \<Longrightarrow> find (\<lambda>x. key x = k) xs = Some z \<Longrightarrow> \<not> t z" for z
    by (metis (mono_tags, lifting) find_None_iff find_Some_iff nth_mem)
  note step = best_by_snoc map_of_keep_best snoc.IH app
  show ?case
  proof (cases "find (\<lambda>x. key x = k \<and> t x) xs")
    case None
    then show ?thesis using nt by (cases "find (\<lambda>x. key x = k) xs") (simp_all add: step)
  next
    case (Some z)
    then show ?thesis using tz sub by (simp add: step)
  qed
qed (simp add: best_by_def)

end
