(* ===== verification/Run_Frames.thy ===== *)
theory Run_Frames
  imports JS_Sort JSON_Text Serializer "HOL-Library.Monad_Syntax"
begin

section \<open>Inspect mode (\<open>extension/src/inspect\<close>)\<close>

text \<open>
  The readers of \<open>metadata.rts.zone.run_frames\<close> and \<open>context_manifests\<close>
  (\<open>types.ts\<close>, \<open>run-frame-reader.ts\<close>), the texts rendered from them
  (\<open>manifest-detail-view.ts\<close>, \<open>manifest-detail-command.ts\<close>, \<open>cell-status-compute.ts\<close>), and the
  per-cell status item with its two metadata sources (\<open>cell-status-provider.ts\<close>). The readers
  take any value: the metadata comes from a file. The prefix of the badge is one character
  outside the modelled range of strings and is the argument \<open>pre\<close>.
\<close>

subsection \<open>Records\<close>

datatype run_status = Running | Complete | Failed | Interrupted

definition RUN_FRAME_TERMINAL_STATUSES :: "run_status list" where
  "RUN_FRAME_TERMINAL_STATUSES = [Complete, Failed, Interrupted]"

fun status_text :: "run_status \<Rightarrow> string" where
  "status_text Running = ''running''"
| "status_text Complete = ''complete''"
| "status_text Failed = ''failed''"
| "status_text Interrupted = ''interrupted''"

record run_frame =
  run_id :: string
  frame_cell :: string
  executor_id :: string
  context_manifest_id :: string
  status :: run_status
  started_at :: string
  ended_at :: "string option"
  turn_head_before :: "string option"
  turn_head_after :: "string option"

record inclusion_rule =
  rule :: string
  rule_cells :: "string list"
  rule_turn_ids :: "string list option"

record exclusion =
  reason :: string
  excluded_cells :: "string list"

record context_manifest =
  manifest_id :: string
  manifest_cell :: string
  section_id :: "string option"
  turn_ids :: "string list"
  cell_refs :: "string list"
  inclusion_rules_applied :: "inclusion_rule list"
  exclusions_applied :: "exclusion list"
  total_turn_count :: jsnum
  total_token_estimate :: "jsnum option"
  created_at :: string

subsection \<open>Parsers\<close>

definition strField :: "jsv \<Rightarrow> string \<Rightarrow> string option" where
  "strField v k = (case jprop v k of JStr s \<Rightarrow> if s \<noteq> [] then Some s else None | _ \<Rightarrow> None)"

text \<open>\<open>null\<close> is \<open>Some None\<close>, \<open>undefined\<close> is \<open>None\<close>.\<close>

definition strOrNull :: "jsv \<Rightarrow> string \<Rightarrow> string option option" where
  "strOrNull v k = (case jprop v k of JNull \<Rightarrow> Some None
     | JStr s \<Rightarrow> if s \<noteq> [] then Some (Some s) else None | _ \<Rightarrow> None)"

definition or_null :: "'a option option \<Rightarrow> 'a option" where
  "or_null x = (case x of None \<Rightarrow> None | Some y \<Rightarrow> y)"

definition or_else :: "'a option \<Rightarrow> 'a option \<Rightarrow> 'a option" where
  "or_else x y = (case x of None \<Rightarrow> y | Some _ \<Rightarrow> x)"

definition or_empty :: "string option \<Rightarrow> string" where
  "or_empty x = (case x of None \<Rightarrow> [] | Some s \<Rightarrow> s)"

definition nonempty_key :: "string \<Rightarrow> string option" where
  "nonempty_key k = (if k \<noteq> [] then Some k else None)"

definition isRunFrameStatus :: "string \<Rightarrow> run_status option" where
  "isRunFrameStatus s =
     (if s = ''running'' then Some Running else if s = ''complete'' then Some Complete
      else if s = ''failed'' then Some Failed else if s = ''interrupted'' then Some Interrupted else None)"

definition parseRunFrame :: "string \<Rightarrow> jsv \<Rightarrow> run_frame option" where
  "parseRunFrame key raw =
     (if \<not> is_objectlike raw then None else do {
        rid \<leftarrow> or_else (strField raw ''run_id'') (nonempty_key key);
        cid \<leftarrow> strField raw ''cell_id'';
        st \<leftarrow> Option.bind (strField raw ''status'') isRunFrameStatus;
        start \<leftarrow> strField raw ''started_at'';
        Some \<lparr>run_id = rid, frame_cell = cid, executor_id = or_empty (strField raw ''executor_id''),
          context_manifest_id = or_empty (strField raw ''context_manifest_id''), status = st,
          started_at = start, ended_at = strField raw ''ended_at'',
          turn_head_before = or_null (strOrNull raw ''turn_head_before''),
          turn_head_after = or_null (strOrNull raw ''turn_head_after'')\<rparr> })"

text \<open>\<open>Array.isArray(v) ? v.filter(s => typeof s === 'string') : []\<close>.\<close>

definition strings_of :: "jsv list \<Rightarrow> string list" where
  "strings_of xs = concat (map (\<lambda>v. case v of JStr s \<Rightarrow> [s] | _ \<Rightarrow> []) xs)"

definition string_array :: "jsv \<Rightarrow> string list option" where
  "string_array v = (case v of JArr xs \<Rightarrow> Some (strings_of xs) | _ \<Rightarrow> None)"

definition array_or_empty :: "jsv \<Rightarrow> string list" where
  "array_or_empty v = (case string_array v of Some ss \<Rightarrow> ss | None \<Rightarrow> [])"

definition parse_rule :: "jsv \<Rightarrow> inclusion_rule list" where
  "parse_rule entry =
     (if \<not> is_objectlike entry then []
      else case jprop entry ''rule'' of
        JStr r \<Rightarrow> if r = [] then []
          else [\<lparr>rule = r, rule_cells = array_or_empty (jprop entry ''cells''),
                 rule_turn_ids = string_array (jprop entry ''turn_ids'')\<rparr>]
      | _ \<Rightarrow> [])"

definition parseInclusionRules :: "jsv \<Rightarrow> inclusion_rule list" where
  "parseInclusionRules raw = (case raw of JArr xs \<Rightarrow> concat (map parse_rule xs) | _ \<Rightarrow> [])"

definition parse_exclusion :: "jsv \<Rightarrow> exclusion list" where
  "parse_exclusion entry =
     (if \<not> is_objectlike entry then []
      else case jprop entry ''reason'' of
        JStr r \<Rightarrow> if r = [] then []
          else [\<lparr>reason = r, excluded_cells = array_or_empty (jprop entry ''cells'')\<rparr>]
      | _ \<Rightarrow> [])"

definition parseExclusions :: "jsv \<Rightarrow> exclusion list" where
  "parseExclusions raw = (case raw of JArr xs \<Rightarrow> concat (map parse_exclusion xs) | _ \<Rightarrow> [])"

definition finite_number :: "jsv \<Rightarrow> jsnum option" where
  "finite_number v = (case v of JNum (Fin r) \<Rightarrow> Some (Fin r) | _ \<Rightarrow> None)"

definition parseContextManifest :: "string \<Rightarrow> jsv \<Rightarrow> context_manifest option" where
  "parseContextManifest key raw =
     (if \<not> is_objectlike raw then None else do {
        mid \<leftarrow> or_else (strField raw ''manifest_id'') (nonempty_key key);
        cid \<leftarrow> strField raw ''cell_id'';
        let tids = array_or_empty (jprop raw ''turn_ids'');
        Some \<lparr>manifest_id = mid, manifest_cell = cid,
          section_id = or_null (strOrNull raw ''section_id''),
          turn_ids = tids, cell_refs = array_or_empty (jprop raw ''cell_refs''),
          inclusion_rules_applied = parseInclusionRules (jprop raw ''inclusion_rules_applied''),
          exclusions_applied = parseExclusions (jprop raw ''exclusions_applied''),
          total_turn_count = (case finite_number (jprop raw ''total_turn_count'') of
             Some n \<Rightarrow> n | None \<Rightarrow> Fin (of_nat (length tids))),
          total_token_estimate = finite_number (jprop raw ''total_token_estimate''),
          created_at = or_empty (or_else (strField raw ''created_at'') (strField raw ''generated_at''))\<rparr> })"

definition parse_map :: "(string \<Rightarrow> jsv \<Rightarrow> 'r option) \<Rightarrow> jsv \<Rightarrow> (string \<times> 'r) list" where
  "parse_map parse raw =
     (if \<not> is_objectlike raw then []
      else fold (\<lambda>(k, v) out. case parse k v of Some r \<Rightarrow> js_assign k r out | None \<Rightarrow> out) (entries raw) [])"

definition zone_prop :: "jsv \<Rightarrow> string \<Rightarrow> jsv" where
  "zone_prop metadata k = jprop (jprop (jprop metadata ''rts'') ''zone'') k"

definition runFramesOf :: "jsv \<Rightarrow> (string \<times> run_frame) list" where
  "runFramesOf metadata = parse_map parseRunFrame (zone_prop metadata ''run_frames'')"

definition contextManifestsOf :: "jsv \<Rightarrow> (string \<times> context_manifest) list" where
  "contextManifestsOf metadata = parse_map parseContextManifest (zone_prop metadata ''context_manifests'')"

subsection \<open>Lookups\<close>

definition isTerminal :: "run_status \<Rightarrow> bool" where
  "isTerminal s \<longleftrightarrow> s \<in> set RUN_FRAME_TERMINAL_STATUSES"

definition compareStartedAtDesc :: "run_frame \<Rightarrow> run_frame \<Rightarrow> int" where
  "compareStartedAtDesc a b =
     (if started_at a = started_at b
      then (if run_id a < run_id b then -1 else if run_id a > run_id b then 1 else 0)
      else if started_at a < started_at b then 1 else -1)"

definition compareStartedAtAsc :: "run_frame \<Rightarrow> run_frame \<Rightarrow> int" where
  "compareStartedAtAsc a b = - compareStartedAtDesc a b"

definition frames_for :: "jsv \<Rightarrow> string \<Rightarrow> run_frame list" where
  "frames_for metadata cellId = filter (\<lambda>f. frame_cell f = cellId) (map snd (runFramesOf metadata))"

text \<open>The loop both lookups share: one frame for each run id, a terminal one replacing a running one.\<close>

definition bestByRunId :: "run_frame list \<Rightarrow> run_frame list" where
  "bestByRunId fs = map snd (best_by run_id (\<lambda>f prev. isTerminal (status f) \<and> \<not> isTerminal (status prev)) fs)"

definition latestRunFrameForCell :: "jsv \<Rightarrow> string \<Rightarrow> run_frame option" where
  "latestRunFrameForCell metadata cellId =
     (if cellId = [] then None
      else case js_sort compareStartedAtDesc (bestByRunId (frames_for metadata cellId)) of
        [] \<Rightarrow> None | f # _ \<Rightarrow> Some f)"

definition runFrameHistoryForCell :: "jsv \<Rightarrow> string \<Rightarrow> run_frame list" where
  "runFrameHistoryForCell metadata cellId =
     (if cellId = [] then []
      else js_sort compareStartedAtAsc
             (filter (\<lambda>f. isTerminal (status f)) (bestByRunId (frames_for metadata cellId))))"

definition manifestById :: "jsv \<Rightarrow> string \<Rightarrow> context_manifest option" where
  "manifestById metadata mid = (if mid = [] then None else map_of (contextManifestsOf metadata) mid)"

definition runCountForCell :: "jsv \<Rightarrow> string \<Rightarrow> nat" where
  "runCountForCell metadata cellId =
     (if cellId = [] then 0 else length (remdups (map run_id (frames_for metadata cellId))))"

subsection \<open>Rendered texts\<close>

definition MISSING_MANIFEST_DETAIL_LINES :: "string list" where
  "MISSING_MANIFEST_DETAIL_LINES = [''(manifest unavailable; run may be from a prior session)'']"

definition render_rule :: "context_manifest \<Rightarrow> inclusion_rule \<Rightarrow> string" where
  "render_rule m r =
     (if rule r = ''current_cell_sub_turns''
      then ''- included by rule current_cell_sub_turns: cell '' @
           (case rule_cells r of c # _ \<Rightarrow> c | [] \<Rightarrow> manifest_cell m) @ '', turns ['' @
           join '', '' (case rule_turn_ids r of Some ts \<Rightarrow> ts | None \<Rightarrow> []) @ '']''
      else ''- included by rule '' @ rule r @ '': cells ['' @ join '', '' (rule_cells r) @ '']'')"

definition render_exclusion :: "exclusion \<Rightarrow> string" where
  "render_exclusion e = ''- excluded as '' @ reason e @ '': cells ['' @ join '', '' (excluded_cells e) @ '']''"

definition renderManifestDetail :: "context_manifest \<Rightarrow> string list" where
  "renderManifestDetail m =
     [''manifest '' @ manifest_id m @ '':''] @ map (render_rule m) (inclusion_rules_applied m) @
     map render_exclusion (exclusions_applied m) @
     [''- total turns: '' @ show_num (total_turn_count m) @ ''; total tokens: '' @
      (case total_token_estimate m of None \<Rightarrow> ''(V1: not estimated)'' | Some n \<Rightarrow> show_num n)]"

definition included_count :: "context_manifest \<Rightarrow> nat" where
  "included_count m = sum_list (map (length \<circ> rule_cells) (inclusion_rules_applied m))"

definition excluded_count :: "context_manifest \<Rightarrow> nat" where
  "excluded_count m = sum_list (map (length \<circ> excluded_cells) (exclusions_applied m))"

definition or_text :: "string \<Rightarrow> string \<Rightarrow> string" where
  "or_text s d = (if s = [] then d else s)"

definition renderCellRunSummary :: "nat \<Rightarrow> run_frame \<Rightarrow> context_manifest option \<Rightarrow> string" where
  "renderCellRunSummary n f manifest =
     ''this cell ran '' @ (if n = 1 then ''1 time'' else show_nat n @ '' times'') @ ''; latest run = '' @
     run_id f @ '' (status: '' @ status_text (status f) @ '') with '' @
     (case manifest of
        Some m \<Rightarrow> ''manifest = '' @ manifest_id m @ '' ('' @ show_nat (included_count m) @ '' cells included, '' @
          show_nat (excluded_count m) @ '' excluded)''
      | None \<Rightarrow> ''manifest unavailable (id='' @ or_text (context_manifest_id f) ''n/a'' @ '')'')"

text \<open>\<open>openManifestDetail\<close>: the lines of the quick pick.\<close>

definition manifest_lines :: "jsv \<Rightarrow> string \<Rightarrow> string list" where
  "manifest_lines metadata mid =
     (case manifestById metadata mid of
        Some m \<Rightarrow> renderManifestDetail m | None \<Rightarrow> MISSING_MANIFEST_DETAIL_LINES)"

definition shortRunId :: "string \<Rightarrow> string" where
  "shortRunId rid = (if length rid \<le> 10 then rid else take 8 rid)"

definition middle_dot :: string where
  "middle_dot = [CHR '' '', CHR 0xB7, CHR '' '']"

definition shortBadgeText :: "string \<Rightarrow> run_frame \<Rightarrow> context_manifest option \<Rightarrow> string" where
  "shortBadgeText pre f manifest =
     pre @ '' '' @ shortRunId (run_id f) @ '' ('' @ status_text (status f) @ '')'' @ middle_dot @
     (case manifest of
        None \<Rightarrow> ''manifest unavailable''
      | Some m \<Rightarrow> show_nat (included_count m) @ '' cells / '' @ show_nat (excluded_count m) @ '' excluded'')"

record inspect_status =
  status_cell :: string
  status_label :: string
  status_tooltip :: string
  open_manifest :: string
  open_run :: string

definition computeInspectCellStatus :: "string \<Rightarrow> string \<Rightarrow> jsv \<Rightarrow> inspect_status option" where
  "computeInspectCellStatus pre cellId metadata =
     (if cellId = [] then None else do {
        f \<leftarrow> latestRunFrameForCell metadata cellId;
        let manifest = manifestById metadata (context_manifest_id f);
        Some \<lparr>status_cell = cellId, status_label = shortBadgeText pre f manifest,
          status_tooltip = renderCellRunSummary (runCountForCell metadata cellId) f manifest,
          open_manifest = context_manifest_id f, open_run = run_id f\<rparr> })"

subsection \<open>The status item and its metadata sources\<close>

definition candidateCellIds :: "jsv \<Rightarrow> string \<Rightarrow> string list" where
  "candidateCellIds meta uri =
     (case strField meta ''id'' of Some s \<Rightarrow> [s] | None \<Rightarrow> []) @
     (case strField (jprop (jprop meta ''rts'') ''cell'') ''id'' of Some s \<Rightarrow> [s] | None \<Rightarrow> []) @ [uri]"

fun first_status :: "string \<Rightarrow> jsv \<Rightarrow> string list \<Rightarrow> inspect_status option" where
  "first_status pre metadata [] = None"
| "first_status pre metadata (i # ids) =
     (case computeInspectCellStatus pre i metadata of Some s \<Rightarrow> Some s | None \<Rightarrow> first_status pre metadata ids)"

definition provideCellStatusBarItems :: "string \<Rightarrow> cell_kind \<Rightarrow> jsv \<Rightarrow> string \<Rightarrow> jsv \<Rightarrow> inspect_status list" where
  "provideCellStatusBarItems pre kind meta uri metadata =
     (if kind = Markup then []
      else case first_status pre metadata (candidateCellIds meta uri) of Some s \<Rightarrow> [s] | None \<Rightarrow> [])"

text \<open>The router-backed source caches the last snapshot; the result says whether it fires.\<close>

definition router_source_metadata :: "jsv \<Rightarrow> jsv \<Rightarrow> jsv \<times> bool" where
  "router_source_metadata payload latest =
     (if jprop payload ''mode'' \<noteq> JStr ''snapshot'' \<or> \<not> truthy (jprop payload ''snapshot'') then (latest, False)
      else (JObj [(''rts'', jprop payload ''snapshot'')], True))"

record notebook_doc =
  doc_type :: string
  doc_uri :: string
  doc_metadata :: jsv

definition document_source_metadata :: "string \<Rightarrow> string \<Rightarrow> notebook_doc list \<Rightarrow> jsv" where
  "document_source_metadata nbtype uri docs =
     (case find (\<lambda>d. doc_type d = nbtype \<and> doc_uri d = uri) docs of
        Some d \<Rightarrow> doc_metadata d | None \<Rightarrow> JUndef)"

subsection \<open>Well-formed records\<close>

definition frame_ok :: "run_frame \<Rightarrow> bool" where
  "frame_ok f \<longleftrightarrow> run_id f \<noteq> [] \<and> frame_cell f \<noteq> [] \<and> started_at f \<noteq> [] \<and>
     ended_at f \<noteq> Some [] \<and> turn_head_before f \<noteq> Some [] \<and> turn_head_after f \<noteq> Some []"

fun is_finite :: "jsnum \<Rightarrow> bool" where
  "is_finite (Fin _) = True"
| "is_finite _ = False"

definition manifest_ok :: "context_manifest \<Rightarrow> bool" where
  "manifest_ok m \<longleftrightarrow> manifest_id m \<noteq> [] \<and> manifest_cell m \<noteq> [] \<and> section_id m \<noteq> Some [] \<and>
     (\<forall>r \<in> set (inclusion_rules_applied m). rule r \<noteq> []) \<and>
     (\<forall>e \<in> set (exclusions_applied m). reason e \<noteq> []) \<and>
     is_finite (total_turn_count m) \<and> (\<forall>n \<in> set_option (total_token_estimate m). is_finite n)"

lemma strField_nonempty: "strField v k \<noteq> Some []"
  by (simp add: strField_def split: jsv.splits)

lemma or_null_nonempty: "or_null (strOrNull v k) \<noteq> Some []"
  by (simp add: or_null_def strOrNull_def split: jsv.splits)

lemma or_else_key_nonempty: "or_else (strField v k) (nonempty_key key) \<noteq> Some []"
  using strField_nonempty [of v k] by (auto simp: or_else_def nonempty_key_def split: option.splits)

lemma parseRunFrame_ok: "parseRunFrame key raw = Some f \<Longrightarrow> frame_ok f"
  using strField_nonempty [of raw] or_null_nonempty [of raw] or_else_key_nonempty [of raw _ key]
  by (auto simp: parseRunFrame_def frame_ok_def bind_eq_Some_conv split: if_splits)

lemma rules_ok: "r \<in> set (parseInclusionRules raw) \<Longrightarrow> rule r \<noteq> []"
  by (auto simp: parseInclusionRules_def parse_rule_def split: jsv.splits if_splits)

lemma exclusions_ok: "e \<in> set (parseExclusions raw) \<Longrightarrow> reason e \<noteq> []"
  by (auto simp: parseExclusions_def parse_exclusion_def split: jsv.splits if_splits)

lemma finite_number_ok: "finite_number v = Some n \<Longrightarrow> is_finite n"
  by (auto simp: finite_number_def split: jsv.splits jsnum.splits)

lemma parseContextManifest_ok: "parseContextManifest key raw = Some m \<Longrightarrow> manifest_ok m"
  using strField_nonempty [of raw] or_null_nonempty [of raw] or_else_key_nonempty [of raw _ key]
  by (auto simp: parseContextManifest_def manifest_ok_def bind_eq_Some_conv Let_def
      split: if_splits option.splits dest: finite_number_ok rules_ok exclusions_ok)

text \<open>A parsed map holds parsed entries only, under keys of the source.\<close>

lemma parse_map_entry:
  assumes "(k, r) \<in> set (parse_map parse raw)"
  shows "\<exists>v. (k, v) \<in> set (entries raw) \<and> parse k v = Some r"
proof -
  have put: "(k', r') \<in> set (js_put a b m) \<Longrightarrow> (k', r') = (a, b) \<or> (k', r') \<in> set m" for k' r' a b m
    by (induction a b m rule: js_put.induct) (auto split: if_splits)
  have "(k, r) \<in> set (fold (\<lambda>(k, v) out. case parse k v of Some r \<Rightarrow> js_assign k r out | None \<Rightarrow> out) kvs acc) \<Longrightarrow>
      (k, r) \<in> set acc \<or> (\<exists>v. (k, v) \<in> set kvs \<and> parse k v = Some r)" for kvs acc
  proof (induction kvs arbitrary: acc)
    case (Cons kv kvs)
    obtain a v where kv: "kv = (a, v)" by (cases kv)
    show ?case
    proof (cases "parse a v")
      case None
      then show ?thesis using Cons kv by auto
    next
      case (Some b)
      then have "(k, r) \<in> set (js_assign a b acc) \<or> (\<exists>v. (k, v) \<in> set kvs \<and> parse k v = Some r)"
        using Cons.prems kv by (intro Cons.IH) simp
      then show ?thesis using Some kv put [of k r a b acc] by (auto simp: js_assign_def split: if_splits)
    qed
  qed simp
  with assms show ?thesis by (fastforce simp: parse_map_def split: if_splits)
qed

subsection \<open>The lookups against their specification\<close>

interpretation started_desc: comparator compareStartedAtDesc
  by unfold_locales (auto simp: compareStartedAtDesc_def split: if_splits)

interpretation started_asc: comparator compareStartedAtAsc
  by unfold_locales (auto simp: compareStartedAtAsc_def compareStartedAtDesc_def split: if_splits)

lemma isTerminal_iff: "isTerminal s \<longleftrightarrow> s \<noteq> Running"
  by (cases s) (simp_all add: isTerminal_def RUN_FRAME_TERMINAL_STATUSES_def)

text \<open>The record that stands for a run: its first terminal record, or else its first record.\<close>

definition run_record :: "run_frame list \<Rightarrow> string \<Rightarrow> run_frame option" where
  "run_record fs r = (case find (\<lambda>f. run_id f = r \<and> status f \<noteq> Running) fs of
     Some f \<Rightarrow> Some f | None \<Rightarrow> find (\<lambda>f. run_id f = r) fs)"

lemma bestByRunId_set: "f \<in> set (bestByRunId fs) \<longleftrightarrow> run_record fs (run_id f) = Some f"
  unfolding bestByRunId_def best_by_values isTerminal_iff best_by_first run_record_def ..

lemma run_record_in: "run_record fs r = Some f \<Longrightarrow> f \<in> set fs \<and> run_id f = r"
  by (auto simp: run_record_def find_Some_iff split: option.splits)

lemma run_record_total: "g \<in> set fs \<Longrightarrow> \<exists>b. run_record fs (run_id g) = Some b"
  by (cases "run_record fs (run_id g)") (auto simp: run_record_def find_None_iff split: option.splits)

lemma run_record_terminal:
  "run_record fs r = Some f \<Longrightarrow> status f \<noteq> Running \<longleftrightarrow> (\<exists>g \<in> set fs. run_id g = r \<and> status g \<noteq> Running)"
  by (auto simp: run_record_def find_Some_iff find_None_iff split: option.splits)

lemma bestByRunId_Nil: "bestByRunId fs = [] \<longleftrightarrow> fs = []"
proof
  assume "bestByRunId fs = []"
  then have none: "run_record fs (run_id f) \<noteq> Some f" for f by (simp add: bestByRunId_set [symmetric])
  show "fs = []"
  proof (rule ccontr)
    assume "fs \<noteq> []"
    then have "hd fs \<in> set fs" by simp
    then obtain b where "run_record fs (run_id (hd fs)) = Some b" using run_record_total by blast
    then show False using none [of b] run_record_in [of fs "run_id (hd fs)" b] by simp
  qed
qed (simp add: bestByRunId_def best_by_def)

lemma distinct_bestByRunId: "distinct (map run_id (bestByRunId fs))"
  using distinct_best_values [of run_id] by (simp add: bestByRunId_def)

lemma frames_for_nil: "frames_for md [] = []"
proof -
  have "frame_cell f \<noteq> []" if "f \<in> snd ` set (runFramesOf md)" for f
    using that parse_map_entry parseRunFrame_ok by (fastforce simp: runFramesOf_def frame_ok_def)
  then show ?thesis by (auto simp: frames_for_def filter_empty_conv)
qed

lemma latestRunFrameForCell_eq:
  "latestRunFrameForCell md cid = (case js_sort compareStartedAtDesc (bestByRunId (frames_for md cid)) of
     [] \<Rightarrow> None | f # _ \<Rightarrow> Some f)"
proof -
  have "bestByRunId [] = []" by (simp only: bestByRunId_Nil)
  then show ?thesis by (simp add: latestRunFrameForCell_def frames_for_nil js_sort_def)
qed

lemma latest_None_iff: "latestRunFrameForCell md cid = None \<longleftrightarrow> frames_for md cid = []"
proof -
  have "latestRunFrameForCell md cid = None \<longleftrightarrow> js_sort compareStartedAtDesc (bestByRunId (frames_for md cid)) = []"
    by (cases "js_sort compareStartedAtDesc (bestByRunId (frames_for md cid))") (simp_all add: latestRunFrameForCell_eq)
  then show ?thesis by (simp only: js_sort_Nil_iff bestByRunId_Nil)
qed

lemma asc_strict:
  "compareStartedAtAsc a b \<le> 0 \<and> run_id a \<noteq> run_id b \<Longrightarrow>
   started_at a < started_at b \<or> started_at a = started_at b \<and> run_id b < run_id a"
  by (auto simp: compareStartedAtAsc_def compareStartedAtDesc_def split: if_splits)

lemma terminal_runs:
  "run_id ` {f. run_record fs (run_id f) = Some f \<and> status f \<noteq> Running} =
   run_id ` {f \<in> set fs. status f \<noteq> Running}"
proof (intro equalityI image_subsetI)
  fix f assume "f \<in> {f. run_record fs (run_id f) = Some f \<and> status f \<noteq> Running}"
  then show "run_id f \<in> run_id ` {f \<in> set fs. status f \<noteq> Running}"
    using run_record_in [of fs "run_id f" f] by simp
next
  fix g assume g: "g \<in> {f \<in> set fs. status f \<noteq> Running}"
  then obtain b where b: "run_record fs (run_id g) = Some b" using run_record_total [of g fs] by auto
  then have "status b \<noteq> Running" "run_id b = run_id g"
    using g run_record_terminal [OF b] run_record_in [OF b] by auto
  with b show "run_id g \<in> run_id ` {f. run_record fs (run_id f) = Some f \<and> status f \<noteq> Running}"
    by (intro image_eqI [of _ _ b]) simp_all
qed

text \<open>The item of a cell shows the first candidate id with a recorded run.\<close>

lemma computeInspectCellStatus_None:
  "computeInspectCellStatus pre cid md = None \<longleftrightarrow> frames_for md cid = []"
proof (cases "cid = []")
  case True
  then show ?thesis by (simp add: computeInspectCellStatus_def frames_for_nil)
next
  case False
  then show ?thesis using latest_None_iff [of md cid]
    by (cases "latestRunFrameForCell md cid") (simp_all add: computeInspectCellStatus_def Let_def)
qed

lemma first_status_find:
  "first_status pre md ids =
     Option.bind (find (\<lambda>i. frames_for md i \<noteq> []) ids) (\<lambda>i. computeInspectCellStatus pre i md)"
proof (induction ids)
  case (Cons i ids)
  then show ?case using computeInspectCellStatus_None [of pre i md]
    by (cases "computeInspectCellStatus pre i md") auto
qed simp

subsection \<open>Properties\<close>

text \<open>C35. Whatever the metadata of a notebook holds, every run frame and every context manifest
  the readers return is well-formed: ids, cell ids and start times are non-empty, optional
  strings are absent rather than empty, rules and reasons are named, and the counts are
  finite numbers. Malformed records are dropped, none makes a reader fail.\<close>

theorem inspect_records_well_typed:
  "list_all frame_ok (map snd (runFramesOf md)) \<and> list_all manifest_ok (map snd (contextManifestsOf md))"
proof
  show "list_all frame_ok (map snd (runFramesOf md))"
    using parse_map_entry parseRunFrame_ok by (fastforce simp: runFramesOf_def list_all_iff)
  show "list_all manifest_ok (map snd (contextManifestsOf md))"
    using parse_map_entry parseContextManifest_ok by (fastforce simp: contextManifestsOf_def list_all_iff)
qed

text \<open>The latest run of a cell: nothing exactly when the cell has no recorded frame; otherwise
  the record of a run (its terminal record when it has one), such that no run of the cell has
  a record started later, the smaller run id winning between equal start times.\<close>

theorem latest_run_frame_spec:
  "case latestRunFrameForCell md cid of
     None \<Rightarrow> frames_for md cid = []
   | Some f \<Rightarrow> run_record (frames_for md cid) (run_id f) = Some f \<and>
       list_all (\<lambda>g. \<exists>b. run_record (frames_for md cid) (run_id g) = Some b \<and>
         (started_at b < started_at f \<or> started_at b = started_at f \<and> run_id f \<le> run_id b)) (frames_for md cid)"
proof (cases "js_sort compareStartedAtDesc (bestByRunId (frames_for md cid))")
  case Nil
  then have none: "latestRunFrameForCell md cid = None" by (simp only: latestRunFrameForCell_eq list.case)
  then have "frames_for md cid = []" by (simp only: latest_None_iff)
  then show ?thesis by (simp only: none option.case)
next
  case (Cons f fs)
  let ?fs = "frames_for md cid"
  have "f \<in> set (bestByRunId ?fs)" using Cons set_js_sort [of compareStartedAtDesc "bestByRunId ?fs"] by auto
  then have f: "run_record ?fs (run_id f) = Some f" by (simp only: bestByRunId_set)
  have "\<exists>b. run_record ?fs (run_id g) = Some b \<and>
      (started_at b < started_at f \<or> started_at b = started_at f \<and> run_id f \<le> run_id b)" if "g \<in> set ?fs" for g
  proof -
    obtain b where b: "run_record ?fs (run_id g) = Some b" using run_record_total [OF \<open>g \<in> set ?fs\<close>] by blast
    then have "b \<in> set (bestByRunId ?fs)" using run_record_in [OF b] by (simp add: bestByRunId_set)
    from started_desc.hd_js_sort [OF this] have "compareStartedAtDesc f b \<le> 0" by (simp add: Cons)
    then have "started_at b < started_at f \<or> started_at b = started_at f \<and> run_id f \<le> run_id b"
      by (auto simp: compareStartedAtDesc_def split: if_splits)
    with b show ?thesis by blast
  qed
  with f show ?thesis by (simp add: latestRunFrameForCell_eq Cons list_all_iff)
qed

text \<open>C14. The history of a cell holds exactly the runs that have a terminal record, each once and
  by that record, oldest first (equal start times by decreasing run id), and never more runs
  than the run count, which counts the distinct run ids of the cell.\<close>

theorem run_history_spec:
  "sorted_wrt (\<lambda>a b. started_at a < started_at b \<or> started_at a = started_at b \<and> run_id b < run_id a)
     (runFrameHistoryForCell md cid) \<and>
   set (runFrameHistoryForCell md cid) =
     {f. run_record (frames_for md cid) (run_id f) = Some f \<and> status f \<noteq> Running} \<and>
   run_id ` set (runFrameHistoryForCell md cid) = run_id ` {f \<in> set (frames_for md cid). status f \<noteq> Running} \<and>
   length (runFrameHistoryForCell md cid) \<le> runCountForCell md cid \<and>
   runCountForCell md cid = card (run_id ` set (frames_for md cid))"
proof -
  let ?fs = "frames_for md cid" and ?h = "runFrameHistoryForCell md cid"
  have h: "?h = js_sort compareStartedAtAsc (filter (\<lambda>f. status f \<noteq> Running) (bestByRunId ?fs))"
    using bestByRunId_Nil [of "[]"] by (simp add: runFrameHistoryForCell_def frames_for_nil js_sort_def isTerminal_iff)
  have ids: "distinct (map run_id ?h)"
    unfolding h distinct_map_js_sort using distinct_bestByRunId by (rule distinct_map_filter)
  have "sorted_wrt (\<lambda>a b. compareStartedAtAsc a b \<le> 0) ?h" unfolding h by (rule started_asc.sorted_js_sort)
  from sorted_wrt_conj [OF this sorted_wrt_distinct_map [OF ids]]
  have sorted: "sorted_wrt (\<lambda>a b. started_at a < started_at b \<or> started_at a = started_at b \<and> run_id b < run_id a) ?h"
    by (rule sorted_wrt_mono_rel [rotated]) (rule asc_strict)
  have set_h: "set ?h = {f. run_record ?fs (run_id f) = Some f \<and> status f \<noteq> Running}"
    by (auto simp: h bestByRunId_set)
  have runs: "run_id ` set ?h = run_id ` {f \<in> set ?fs. status f \<noteq> Running}"
    unfolding set_h by (rule terminal_runs)
  have count: "runCountForCell md cid = card (run_id ` set ?fs)"
    by (simp add: runCountForCell_def frames_for_nil length_remdups_card_conv)
  have "length ?h = card (run_id ` set ?h)" using ids distinct_card by fastforce
  also have "\<dots> \<le> card (run_id ` set ?fs)" unfolding runs by (rule card_mono) auto
  finally have "length ?h \<le> runCountForCell md cid" by (simp add: count)
  with sorted set_h runs count show ?thesis by blast
qed

end
