(* ===== verification/Observables.thy ===== *)
theory Observables
  imports RTS_Prelude
begin

section \<open>Stores that notify on change\<close>

text \<open>
  The registries the status items read (agents, contamination, pin status, privileges,
  optimistic overrides, inspect metadata) share a contract: an operation that changes the
  state fires \<open>onDidChange\<close>. An operation is modelled as a function to the new state and
  whether it fires. A view that re-renders on every event, as the status bar providers do,
  is then never stale.
\<close>

text \<open>A view that is rendered again when the store fires, over a sequence of inputs.\<close>

definition observe_one :: "('p \<Rightarrow> 's \<Rightarrow> 's \<times> bool) \<Rightarrow> ('s \<Rightarrow> 'v) \<Rightarrow> 'p \<Rightarrow> 's \<times> 'v \<Rightarrow> 's \<times> 'v" where
  "observe_one oper render p sv =
     (let (s', fired) = oper p (fst sv) in (s', if fired then render s' else snd sv))"

definition observe_run :: "('p \<Rightarrow> 's \<Rightarrow> 's \<times> bool) \<Rightarrow> ('s \<Rightarrow> 'v) \<Rightarrow> 'p list \<Rightarrow> 's \<times> 'v \<Rightarrow> 's \<times> 'v" where
  "observe_run oper render ps sv = fold (observe_one oper render) ps sv"

locale change_notifier =
  fixes oper :: "'p \<Rightarrow> 's \<Rightarrow> 's \<times> bool"
  assumes quiet: "\<not> snd (oper p s) \<Longrightarrow> fst (oper p s) = s"
begin

lemma view_current_one: "snd (observe_one oper render p (s, render s)) = render (fst (oper p s))"
  using quiet [of p s] by (simp add: observe_one_def case_prod_beta)

lemma observe_run_current:
  "observe_run oper render ps (s, render s) =
     (fold (\<lambda>p s. fst (oper p s)) ps s, render (fold (\<lambda>p s. fst (oper p s)) ps s))"
proof (induction ps arbitrary: s)
  case (Cons p ps)
  have "observe_one oper render p (s, render s) = (fst (oper p s), render (fst (oper p s)))"
    using view_current_one [of render p s] by (simp add: observe_one_def case_prod_beta)
  then show ?case using Cons by (simp add: observe_run_def)
qed (simp add: observe_run_def)

text \<open>After inputs that change nothing the view shows the state the last other input has left.\<close>

lemma observe_run_last:
  assumes "\<And>q t. q \<in> set qs \<Longrightarrow> fst (oper q t) = t"
  shows "\<exists>t. snd (observe_run oper render (ps @ p # qs) (s, render s)) = render (fst (oper p t))"
proof -
  have "fold (\<lambda>p s. fst (oper p s)) qs t = t" for t
    using assms by (induction qs arbitrary: t) simp_all
  then show ?thesis by (auto simp: observe_run_current)
qed

end

text \<open>The loops behind such an operation thread the state and a \<open>changed\<close> flag: a step that leaves
  the flag unset has changed nothing.\<close>

locale flagged_step =
  fixes step :: "'x \<Rightarrow> 's \<times> bool \<Rightarrow> 's \<times> bool"
  assumes step_quiet: "step x (s, c) = (s', c') \<Longrightarrow> \<not> c' \<Longrightarrow> s' = s \<and> \<not> c"
begin

lemma fold_quiet: "\<not> snd (fold step xs (s, c)) \<Longrightarrow> fst (fold step xs (s, c)) = s \<and> \<not> c"
proof (induction xs arbitrary: s c)
  case (Cons x xs)
  obtain s1 c1 where s1: "step x (s, c) = (s1, c1)" by (cases "step x (s, c)")
  with Cons.prems Cons.IH [of s1 c1] have "fst (fold step xs (s1, c1)) = s1" "\<not> c1" by auto
  with step_quiet [OF s1] s1 show ?case by simp
qed simp

end

text \<open>\<open>payload.mode !== 'snapshot' || !payload.snapshot\<close>: the payloads the observers take.\<close>

definition snapshot_of :: "jsv \<Rightarrow> jsv option" where
  "snapshot_of payload =
     (if jprop payload ''mode'' \<noteq> JStr ''snapshot'' \<or> \<not> truthy (jprop payload ''snapshot'') then None
      else Some (jprop payload ''snapshot''))"

text \<open>An object whose members are objects, under distinct keys.\<close>

definition lists_objects :: "jsv \<Rightarrow> bool" where
  "lists_objects v \<longleftrightarrow> is_objectlike v \<and> distinct (map fst (entries v)) \<and> (\<forall>(k, x) \<in> set (entries v). is_objectlike x)"

definition opt_string :: "jsv \<Rightarrow> string option" where
  "opt_string v = (case v of JStr s \<Rightarrow> Some s | _ \<Rightarrow> None)"

end
