(* ===== verification/Cell_Badge.thy ===== *)
theory Cell_Badge
  imports Observables Otel_Attrs Serializer Router "HOL-Library.Word"
begin

section \<open>Cell badges (\<open>extension/src/notebook/cell-badge.ts\<close>, \<open>interrupt-button.ts\<close>)\<close>

text \<open>
  The agent registry, filled from metadata snapshots; the badge of a cell and its interrupt
  button, with the store of optimistic overrides and the observer of \<open>extension.ts\<close> that
  clears them; and the agent colours: a 32-bit FNV-1a hash, the conversion of a hue to a hex
  colour, and the manager that persists the colours in the workspace state.

  An output item is its MIME type and, when its data parses to an object, the declared
  \<open>attributes\<close> of that span. The glyph of the interrupt button is outside the modelled range
  of strings and is not part of the descriptor.
\<close>

subsection \<open>The agent registry\<close>

record agent_session =
  provider :: "string option"
  runtime_status :: "string option"

type_synonym agent_registry = "(string \<times> agent_session) list"

definition upsert :: "string \<Rightarrow> agent_session \<Rightarrow> agent_registry \<Rightarrow> agent_registry \<times> bool" where
  "upsert i st reg = (map_set i st reg, True)"

definition snapshot_agents :: "jsv \<Rightarrow> jsv" where
  "snapshot_agents snapshot =
     (let zone = jprop snapshot ''zone'' in
      coalesce (if is_objectlike zone then jprop zone ''agents'' else JUndef) (jprop snapshot ''agents''))"

definition session_source :: "jsv \<Rightarrow> jsv" where
  "session_source raw = (let session = jprop raw ''session'' in if is_objectlike session then session else raw)"

definition session_of :: "jsv \<Rightarrow> agent_session" where
  "session_of raw =
     \<lparr>provider = opt_string (jprop (session_source raw) ''provider''),
      runtime_status = opt_string (jprop (session_source raw) ''runtime_status'')\<rparr>"

definition absorb_agent :: "string \<times> jsv \<Rightarrow> agent_registry \<times> bool \<Rightarrow> agent_registry \<times> bool" where
  "absorb_agent idraw rc =
     (let (i, raw) = idraw; (reg, changed) = rc in
      if \<not> is_objectlike raw then (reg, changed)
      else if map_of reg i = Some (session_of raw) then (reg, changed)
      else (map_set i (session_of raw) reg, True))"

definition registry_metadata :: "jsv \<Rightarrow> agent_registry \<Rightarrow> agent_registry \<times> bool" where
  "registry_metadata payload reg =
     (case snapshot_of payload of
        None \<Rightarrow> (reg, False)
      | Some snapshot \<Rightarrow>
          if \<not> is_objectlike (snapshot_agents snapshot) then (reg, False)
          else fold absorb_agent (entries (snapshot_agents snapshot)) (reg, False))"

subsection \<open>The badge of a cell\<close>

record out_item =
  item_mime :: string
  item_span :: "otlp_attribute list option option"

record badge_cell =
  bc_kind :: cell_kind
  bc_metadata :: jsv
  bc_uri :: string
  bc_outputs :: "out_item list list"

definition item_agent :: "out_item \<Rightarrow> string option" where
  "item_agent item =
     (if item_mime item \<noteq> RTS_RUN_MIME then None
      else case item_span item of
        None \<Rightarrow> None
      | Some attrs \<Rightarrow>
          (let a = getStringAttr attrs ''llmnb.agent_id'' [] in if a \<noteq> [] then Some a else None))"

fun first_some :: "('a \<Rightarrow> 'b option) \<Rightarrow> 'a list \<Rightarrow> 'b option" where
  "first_some f [] = None"
| "first_some f (x # xs) = (case f x of Some y \<Rightarrow> Some y | None \<Rightarrow> first_some f xs)"

definition lastClosedAgentIdFromCell :: "badge_cell \<Rightarrow> string option" where
  "lastClosedAgentIdFromCell cell = first_some (\<lambda>out. first_some item_agent (rev out)) (rev (bc_outputs cell))"

definition readCellMetadataSlot :: "jsv \<Rightarrow> jsv" where
  "readCellMetadataSlot meta =
     (if \<not> is_objectlike meta \<or> \<not> truthy (jprop meta ''rts'') then JObj []
      else let rts = jprop meta ''rts'' in
        if is_objectlike (jprop rts ''cell'') then jprop rts ''cell''
        else JObj [(''kind'', jprop rts ''kind''), (''promoted'', jprop rts ''promoted''),
                   (''bound_agent_id'', jprop rts ''bound_agent_id'')])"

definition badgeIsApplicable :: "badge_cell \<Rightarrow> bool \<times> jsv" where
  "badgeIsApplicable cell =
     (if bc_kind cell = Markup then (False, JStr ''markdown'')
      else let kind = coalesce (jprop (readCellMetadataSlot (bc_metadata cell)) ''kind'') (JStr ''agent'') in
        if kind \<in> {JStr ''markdown'', JStr ''scratch'', JStr ''checkpoint''} then (False, kind)
        else if kind \<in> {JStr ''tool'', JStr ''artifact'', JStr ''control'', JStr ''native''} then (False, kind)
        else (True, kind))"

record cell_badge =
  badge_agent :: string
  badge_provider :: string
  badge_status :: string
  badge_promoted :: bool
  badge_text :: string

definition dot_sep :: string where
  "dot_sep = [CHR '' '', CHR 0xB7, CHR '' '']"

text \<open>\<open>resolveAgentIdForInterrupt\<close> and the same steps of \<open>computeCellBadge\<close>.\<close>

definition resolve_agent :: "badge_cell \<Rightarrow> string option" where
  "resolve_agent cell =
     (case opt_string (jprop (readCellMetadataSlot (bc_metadata cell)) ''bound_agent_id'') of
        Some a \<Rightarrow> Some a
      | None \<Rightarrow> lastClosedAgentIdFromCell cell)"

definition computeCellBadge :: "badge_cell \<Rightarrow> agent_registry \<Rightarrow> cell_badge option" where
  "computeCellBadge cell reg =
     (if \<not> fst (badgeIsApplicable cell) then None
      else case resolve_agent cell of
        None \<Rightarrow> None
      | Some a \<Rightarrow>
          if a = [] then None
          else let session = map_of reg a;
                   prov = (case Option.bind session provider of Some p \<Rightarrow> p | None \<Rightarrow> ''claude-code'');
                   stat = (case Option.bind session runtime_status of Some s \<Rightarrow> s | None \<Rightarrow> ''idle'');
                   prom = (jprop (readCellMetadataSlot (bc_metadata cell)) ''promoted'' = JBool True)
               in Some \<lparr>badge_agent = a, badge_provider = prov, badge_status = stat, badge_promoted = prom,
                    badge_text = a @ dot_sep @ prov @ dot_sep @ stat @ (if prom then '' (promoted)'' else [])\<rparr>)"

subsection \<open>The interrupt button\<close>

type_synonym overrides = "(string \<times> string) list"

definition override_set :: "string \<Rightarrow> string \<Rightarrow> overrides \<Rightarrow> overrides \<times> bool" where
  "override_set a st m = (if map_of m a = Some st then (m, False) else (map_set a st m, True))"

definition override_clear :: "string \<Rightarrow> overrides \<Rightarrow> overrides \<times> bool" where
  "override_clear a m = (map_delete a m, map_of m a \<noteq> None)"

definition INTERRUPTIBLE_STATUSES :: "string list" where
  "INTERRUPTIBLE_STATUSES = [''active'', ''alive'', ''spawning'']"

definition TRANSIENT_INTERRUPTING_STATUS :: string where
  "TRANSIENT_INTERRUPTING_STATUS = ''interrupting''"

text \<open>The button: its agent and cell.\<close>

definition computeInterruptButton :: "badge_cell \<Rightarrow> agent_registry \<Rightarrow> overrides \<Rightarrow> (string \<times> string) option" where
  "computeInterruptButton cell reg ov =
     (if \<not> fst (badgeIsApplicable cell) then None
      else case resolve_agent cell of
        None \<Rightarrow> None
      | Some a \<Rightarrow>
          if a = [] then None
          else let over = map_of ov a;
                   effective = (case over of Some s \<Rightarrow> Some s | None \<Rightarrow> Option.bind (map_of reg a) runtime_status)
               in case over of
                 Some s \<Rightarrow> if s \<notin> set INTERRUPTIBLE_STATUSES then None else Some (a, bc_uri cell)
               | None \<Rightarrow> (case effective of
                   None \<Rightarrow> None
                 | Some s \<Rightarrow> if s \<notin> set INTERRUPTIBLE_STATUSES then None else Some (a, bc_uri cell)))"

definition buildInterruptEnvelope :: "string \<Rightarrow> string \<Rightarrow> jsv" where
  "buildInterruptEnvelope a cell_id =
     JObj [(''type'', JStr ''operator.action''),
           (''payload'', JObj [(''action_type'', JStr ''agent_interrupt''), (''agent_id'', JStr a),
              (''parameters'', JObj [(''agent_id'', JStr a), (''cell_id'', JStr cell_id)]),
              (''originating_cell_id'', JStr cell_id)])]"

definition postAgentInterrupt :: "router \<Rightarrow> behaviour \<Rightarrow> string \<Rightarrow> string \<Rightarrow> overrides \<Rightarrow> (overrides \<times> bool) \<times> event list" where
  "postAgentInterrupt r bh a cell_id ov =
     (override_set a TRANSIENT_INTERRUPTING_STATUS ov, enqueueOutbound r bh (buildInterruptEnvelope a cell_id))"

text \<open>The metadata observer of \<open>extension.ts\<close> that drops overrides the kernel has answered.\<close>

definition clear_answered :: "string \<times> jsv \<Rightarrow> overrides \<times> bool \<Rightarrow> overrides \<times> bool" where
  "clear_answered idraw mc =
     (let (i, raw) = idraw; (m, fired) = mc in
      if is_objectlike raw \<and> is_string (jprop (session_source raw) ''runtime_status'')
      then let (m', f) = override_clear i m in (m', fired \<or> f)
      else (m, fired))"

definition overrides_metadata :: "jsv \<Rightarrow> overrides \<Rightarrow> overrides \<times> bool" where
  "overrides_metadata payload m =
     (case snapshot_of payload of
        None \<Rightarrow> (m, False)
      | Some snapshot \<Rightarrow>
          if \<not> is_objectlike (snapshot_agents snapshot) then (m, False)
          else fold clear_answered (entries (snapshot_agents snapshot)) (m, False))"

subsection \<open>Agent colours\<close>

unbundle bit_operations_syntax

definition fnv1a :: "string \<Rightarrow> 32 word" where
  "fnv1a s = fold (\<lambda>c hash. (hash XOR of_nat (of_char c)) * 0x01000193) s 0x811c9dc5"

text \<open>Colour arithmetic in exact rationals. With the saturation and lightness of the source and
  a whole hue below 360 every channel is at least 1/800 away from a rounding boundary
  (\<open>channels_off_ties\<close>), so double precision rounds to the same byte.\<close>

definition js_mod2 :: "rat \<Rightarrow> rat" where
  "js_mod2 r = r - 2 * of_int \<lfloor>r / 2\<rfloor>"

definition js_round :: "rat \<Rightarrow> int" where
  "js_round r = \<lfloor>r + 1 / 2\<rfloor>"

definition channels :: "rat \<Rightarrow> rat \<Rightarrow> rat \<Rightarrow> rat list" where
  "channels h s l =
     (let c = (1 - \<bar>2 * l - 1\<bar>) * s;
          x = c * (1 - \<bar>js_mod2 (h / 60) - 1\<bar>);
          m = l - c / 2;
          rgb = (if h < 60 then [c, x, 0] else if h < 120 then [x, c, 0] else if h < 180 then [0, c, x]
                 else if h < 240 then [0, x, c] else if h < 300 then [x, 0, c] else [c, 0, x])
      in map (\<lambda>v. (v + m) * 255) rgb)"

definition to8 :: "rat \<Rightarrow> string" where
  "to8 v = (let n = nat (max 0 (min 255 (js_round v))) in [hex_digit (n div 16), hex_digit (n mod 16)])"

definition hslToHex :: "rat \<Rightarrow> rat \<Rightarrow> rat \<Rightarrow> string" where
  "hslToHex h s l = ''#'' @ concat (map to8 (channels h s l))"

definition GUTTER_SATURATION :: rat where "GUTTER_SATURATION = 65 / 100"
definition GUTTER_LIGHTNESS :: rat where "GUTTER_LIGHTNESS = 55 / 100"

definition agentIdToColor :: "string \<Rightarrow> string" where
  "agentIdToColor a = hslToHex (of_nat (unat (fnv1a a) mod 360)) GUTTER_SATURATION GUTTER_LIGHTNESS"

record gutter =
  cache :: jsobj
  stored :: jsv

definition load_colors :: "jsv \<Rightarrow> gutter" where
  "load_colors persisted =
     \<lparr>cache = (if is_objectlike persisted then js_copy (entries persisted) else []), stored = persisted\<rparr>"

definition is_hex_color :: "string \<Rightarrow> bool" where
  "is_hex_color s \<longleftrightarrow> length s = 7 \<and> hd s = CHR ''#'' \<and> list_all (\<lambda>c. hex_val c \<noteq> None) (tl s)"

definition colorFor :: "string \<Rightarrow> gutter \<Rightarrow> string \<times> gutter" where
  "colorFor a g =
     (case js_get (cache g) a of
        JStr s \<Rightarrow> if is_hex_color s then (s, g)
          else (let c = js_assign a (JStr (agentIdToColor a)) (cache g) in
            (agentIdToColor a, g\<lparr>cache := c, stored := JObj (js_copy c)\<rparr>))
      | _ \<Rightarrow> (let c = js_assign a (JStr (agentIdToColor a)) (cache g) in
            (agentIdToColor a, g\<lparr>cache := c, stored := JObj (js_copy c)\<rparr>)))"

definition colors_after :: "string list \<Rightarrow> gutter \<Rightarrow> gutter" where
  "colors_after agents g = fold (\<lambda>a g. snd (colorFor a g)) agents g"

subsection \<open>Lemmas\<close>

lemma absorb_agents:
  "distinct (map fst kvs) \<Longrightarrow>
   map_of (fst (fold absorb_agent kvs (reg, ch))) i =
     (case map_of kvs i of
        Some raw \<Rightarrow> if is_objectlike raw then Some (session_of raw) else map_of reg i
      | None \<Rightarrow> map_of reg i)"
proof (induction kvs arbitrary: reg ch)
  case (Cons kv kvs)
  obtain k v where kv: "kv = (k, v)" by (cases kv)
  obtain reg1 ch1 where s: "absorb_agent (k, v) (reg, ch) = (reg1, ch1)" by (cases "absorb_agent (k, v) (reg, ch)")
  have "map_of reg1 i = (if i = k \<and> is_objectlike v then Some (session_of v) else map_of reg i)"
    using s by (auto simp: absorb_agent_def split: if_splits)
  moreover have "map_of kvs k = None" using Cons.prems kv by (simp add: map_of_eq_None_iff)
  ultimately show ?case using Cons kv s by (auto split: option.splits)
qed simp

lemma cleared_overrides:
  "map_of (fst (fold clear_answered kvs (m, f))) i =
     (if \<exists>raw. (i, raw) \<in> set kvs \<and> is_objectlike raw \<and> is_string (jprop (session_source raw) ''runtime_status'')
      then None else map_of m i)"
proof (induction kvs arbitrary: m f)
  case (Cons kv kvs)
  obtain k v where kv: "kv = (k, v)" by (cases kv)
  show ?case using Cons by (auto simp: kv clear_answered_def override_clear_def)
qed simp

interpretation absorb: flagged_step absorb_agent
  by unfold_locales (auto simp: absorb_agent_def split: prod.splits if_splits)

interpretation clear: flagged_step clear_answered
  by unfold_locales
    (auto simp: clear_answered_def override_clear_def map_of_eq_None_iff map_delete_absent split: prod.splits if_splits)

interpretation agent_notifier: change_notifier registry_metadata
  by unfold_locales (auto simp: registry_metadata_def dest: absorb.fold_quiet split: option.splits if_splits)

text \<open>After a snapshot the registry has, for every agent it lists, the session it gives.\<close>

lemma absorb_agent_lookup:
  "is_objectlike raw \<Longrightarrow> map_of (fst (absorb_agent (i, raw) rc)) a = (if a = i then Some (session_of raw) else map_of (fst rc) a)"
  by (simp add: absorb_agent_def case_prod_beta)

lemma absorb_agents_lookup:
  assumes "distinct (map fst es)" "\<forall>(k, x) \<in> set es. is_objectlike x"
  shows "map_of (fst (fold absorb_agent es rc)) a =
    (case map_of es a of Some raw \<Rightarrow> Some (session_of raw) | None \<Rightarrow> map_of (fst rc) a)"
  using assms
proof (induction es arbitrary: rc)
  case (Cons e es)
  obtain i raw where e: "e = (i, raw)" by (cases e)
  have "map_of es i = None" using Cons.prems(1) e by (simp add: map_of_eq_None_iff)
  then show ?case using Cons e by (auto simp: absorb_agent_lookup split: option.split)
qed simp

definition listed_sessions :: "jsv \<Rightarrow> agent_registry" where
  "listed_sessions snap = map (\<lambda>(i, raw). (i, session_of raw)) (entries (snapshot_agents snap))"

lemma registry_after:
  assumes "snapshot_of payload = Some snap" "lists_objects (snapshot_agents snap)" "a \<in> fst ` set (entries (snapshot_agents snap))"
  shows "map_of (fst (registry_metadata payload reg)) a = map_of (listed_sessions snap) a"
proof -
  obtain raw where "map_of (entries (snapshot_agents snap)) a = Some raw"
    using assms(3) by (metis map_of_eq_None_iff not_Some_eq)
  moreover have "map_of (listed_sessions snap) a = map_option session_of (map_of (entries (snapshot_agents snap)) a)"
    by (simp add: listed_sessions_def map_of_map)
  ultimately show ?thesis
    using assms(1,2) by (simp add: registry_metadata_def lists_objects_def absorb_agents_lookup)
qed

lemma badge_after:
  assumes "snapshot_of payload = Some snap" "lists_objects (snapshot_agents snap)"
    and "\<forall>a. resolve_agent cell = Some a \<longrightarrow> a \<in> fst ` set (entries (snapshot_agents snap))"
  shows "computeCellBadge cell (fst (registry_metadata payload reg)) = computeCellBadge cell (listed_sessions snap)"
  using assms(3) registry_after [OF assms(1,2)] by (auto simp: computeCellBadge_def split: option.split)

interpretation override_notifier: change_notifier overrides_metadata
  by unfold_locales (auto simp: overrides_metadata_def dest: clear.fold_quiet split: option.splits if_splits)

text \<open>What a snapshot says of an agent, and the registries after it.\<close>

definition reported_status :: "jsv \<Rightarrow> string \<Rightarrow> string option" where
  "reported_status payload a =
     Option.bind (snapshot_of payload) (\<lambda>snap.
       Option.bind (map_of (entries (snapshot_agents snap)) a) (\<lambda>raw.
         if is_objectlike raw then opt_string (jprop (session_source raw) ''runtime_status'') else None))"

lemma entries_nonobject: "\<not> is_objectlike v \<Longrightarrow> entries v = []"
  by (cases v) auto

lemma opt_string_is_string: "opt_string v = Some s \<Longrightarrow> is_string v"
  by (cases v) (auto simp: opt_string_def)

lemma reported_registry:
  assumes "reported_status payload a = Some s"
    and "distinct (map fst (entries (snapshot_agents (the (snapshot_of payload)))))"
  shows "Option.bind (map_of (fst (registry_metadata payload reg)) a) runtime_status = Some s"
    and "map_of (fst (overrides_metadata payload ov)) a = None"
proof -
  obtain snap raw where p: "snapshot_of payload = Some snap"
      "map_of (entries (snapshot_agents snap)) a = Some raw" "is_objectlike raw"
      "opt_string (jprop (session_source raw) ''runtime_status'') = Some s"
    using assms(1) by (auto simp: reported_status_def bind_eq_Some_conv split: if_splits)
  then have obj: "is_objectlike (snapshot_agents snap)" using entries_nonobject by fastforce
  show "Option.bind (map_of (fst (registry_metadata payload reg)) a) runtime_status = Some s"
    using p obj assms(2) by (simp add: registry_metadata_def absorb_agents session_of_def)
  show "map_of (fst (overrides_metadata payload ov)) a = None"
    using p obj opt_string_is_string [OF p(4)] by (auto simp: overrides_metadata_def cleared_overrides dest: map_of_SomeD)
qed

lemma to8_ok: "length (to8 v) = 2 \<and> list_all (\<lambda>c. hex_val c \<noteq> None) (to8 v)"
proof -
  define n where "n = nat (max 0 (min 255 (js_round v)))"
  have "n < 256" by (simp add: n_def) 
  then show ?thesis using hex_val_digit [of "n div 16"] hex_val_digit [of "n mod 16"]
    by (simp add: to8_def n_def [symmetric] Let_def less_mult_imp_div_less)
qed

lemma length_channels: "length (channels h s l) = 3"
  unfolding channels_def Let_def by (simp only: length_map) simp

lemma bytes_ok: "length (concat (map to8 vs)) = 2 * length vs \<and> list_all (\<lambda>c. hex_val c \<noteq> None) (concat (map to8 vs))"
proof (induction vs)
  case (Cons v vs)
  with to8_ok [of v] show ?case by simp
qed simp

lemma hslToHex_ok: "is_hex_color (hslToHex h s l)"
  using bytes_ok [of "channels h s l"] by (simp add: hslToHex_def is_hex_color_def length_channels)

text \<open>The fractional position of the hue on its side of the colour hexagon, in sixtieths.\<close>

lemma hue_fraction:
  assumes "h < 360"
  shows "\<exists>k \<le> 60. 1 - \<bar>js_mod2 (of_nat h / 60) - 1\<bar> = (of_nat k :: rat) / 60"
proof -
  define r where "r = h mod 120"
  have h: "(of_nat h :: rat) = 120 * of_nat (h div 120) + of_nat r"
    unfolding r_def by (metis mult_div_mod_eq of_nat_add of_nat_mult of_nat_numeral)
  have r: "r < 120" by (simp add: r_def)
  have "\<lfloor>(of_nat h :: rat) / 60 / 2\<rfloor> = int (h div 120)"
    using r by (simp add: h floor_eq_iff divide_simps)
  then have m: "js_mod2 (of_nat h / 60) = of_nat r / 60" by (simp add: js_mod2_def h divide_simps)
  show ?thesis
  proof (cases "r \<le> 60")
    case True
    then have "1 - \<bar>(of_nat r :: rat) / 60 - 1\<bar> = of_nat r / 60" by (simp add: abs_if divide_simps)
    with m have "1 - \<bar>js_mod2 (of_nat h / 60) - 1\<bar> = (of_nat r :: rat) / 60" by (simp only: m)
    with True show ?thesis by blast
  next
    case False
    then have "1 - \<bar>(of_nat r :: rat) / 60 - 1\<bar> = of_nat (120 - r) / 60"
      using r by (simp add: abs_if divide_simps of_nat_diff)
    with m have "1 - \<bar>js_mod2 (of_nat h / 60) - 1\<bar> = (of_nat (120 - r) :: rat) / 60" by (simp only: m)
    moreover have "120 - r \<le> 60" using False by simp
    ultimately show ?thesis by blast
  qed
qed

lemma off_tie:
  assumes "v = (of_int p :: rat) / 800" "p mod 800 \<noteq> 400"
  shows "1 / 800 \<le> \<bar>v - of_int \<lfloor>v\<rfloor> - 1 / 2\<bar>"
proof -
  have p: "(of_int p :: rat) = 800 * of_int (p div 800) + of_int (p mod 800)"
    by (metis mult_div_mod_eq of_int_add of_int_mult of_int_numeral)
  have f: "\<lfloor>v\<rfloor> = p div 800"
    using floor_divide_of_int_eq [of p 800, where 'a = rat] by (simp only: assms(1) of_int_numeral)
  have eq: "v - of_int \<lfloor>v\<rfloor> - 1 / 2 = of_int (p mod 800 - 400) / 800"
    unfolding f unfolding assms(1) unfolding p by (simp add: divide_simps)
  have one: "1 \<le> \<bar>(of_int (p mod 800 - 400) :: rat)\<bar>"
  proof -
    have "1 \<le> \<bar>p mod 800 - 400\<bar>" using assms(2) by linarith
    then have "(of_int 1 :: rat) \<le> of_int \<bar>p mod 800 - 400\<bar>" by (simp only: of_int_le_iff)
    then show ?thesis by (simp only: of_int_1 of_int_abs)
  qed
  show ?thesis unfolding eq abs_divide using one by simp
qed

lemma channels_off_ties:
  assumes "h < 360" "v \<in> set (channels (of_nat h) GUTTER_SATURATION GUTTER_LIGHTNESS)"
  shows "1 / 800 \<le> \<bar>v - of_int \<lfloor>v\<rfloor> - 1 / 2\<bar>"
proof -
  obtain k where k: "k \<le> 60" "1 - \<bar>js_mod2 (of_nat h / 60) - 1\<bar> = (of_nat k :: rat) / 60"
    using hue_fraction [OF assms(1)] by blast
  have "v = of_int 171870 / 800 \<or> v = of_int (52530 + 1989 * int k) / 800 \<or> v = of_int 52530 / 800"
    using assms(2) unfolding channels_def Let_def k(2) GUTTER_SATURATION_def GUTTER_LIGHTNESS_def
    by (auto simp: abs_if divide_simps split: if_splits)
  moreover have "(52530 + 1989 * int k) mod 800 \<noteq> 400"
  proof -
    have "list_all (\<lambda>k. (52530 + 1989 * int k) mod 800 \<noteq> 400) [0..<61]" by code_simp
    then have "\<forall>k \<in> set [0..<61]. (52530 + 1989 * int k) mod 800 \<noteq> 400" by (simp only: list_all_iff)
    then show ?thesis by (rule bspec) (use k in \<open>simp only: set_upt atLeastLessThan_iff\<close>, simp)
  qed
  ultimately show ?thesis using off_tie [of v 171870] off_tie [of v "52530 + 1989 * int k"] off_tie [of v 52530]
    by auto
qed

text \<open>The colour of an agent is a function of its cached entry.\<close>

definition entry_color :: "jsv \<Rightarrow> string \<Rightarrow> string" where
  "entry_color v a = (case v of JStr s \<Rightarrow> if is_hex_color s then s else agentIdToColor a | _ \<Rightarrow> agentIdToColor a)"

lemma colorFor_fst: "fst (colorFor a g) = entry_color (js_get (cache g) a) a"
  by (simp add: colorFor_def entry_color_def Let_def split: jsv.split)

lemma entry_color_ok: "is_hex_color (entry_color v a)"
  using hslToHex_ok by (simp add: entry_color_def agentIdToColor_def split: jsv.split)

lemma entry_color_computed: "entry_color (JStr (agentIdToColor a)) a = agentIdToColor a"
  by (simp add: entry_color_def)

lemma js_get_assign: "js_get (js_assign a v kvs) b = (if a = b \<and> a \<noteq> ''__proto__'' then v else js_get kvs b)"
  by (simp add: js_get_def js_assign_def)

lemma colorFor_state:
  "snd (colorFor b g) = g \<or>
   entry_color (js_get (cache g) b) b = agentIdToColor b \<and>
   cache (snd (colorFor b g)) = js_assign b (JStr (agentIdToColor b)) (cache g) \<and>
   stored (snd (colorFor b g)) = JObj (js_copy (cache (snd (colorFor b g))))"
  by (simp add: colorFor_def entry_color_def Let_def split: jsv.split)

lemma colorFor_keeps: "fst (colorFor a (snd (colorFor b g))) = fst (colorFor a g)"
  using colorFor_state [of b g]
  by (auto simp: colorFor_fst js_get_assign entry_color_computed)

definition saved :: "gutter \<Rightarrow> bool" where
  "saved g \<longleftrightarrow> canonical (cache g) \<and> cache (load_colors (stored g)) = cache g"

lemma saved_load: "saved (load_colors st)"
  by (simp add: saved_def load_colors_def js_copy_def canonical_fold_put)

lemma saved_colorFor: "saved g \<Longrightarrow> saved (snd (colorFor a g))"
proof -
  assume g: "saved g"
  have "canonical (js_assign a (JStr (agentIdToColor a)) (cache g))"
    using g by (simp add: saved_def js_assign_def canonical_js_put)
  with colorFor_state [of a g] g show ?thesis by (auto simp: saved_def load_colors_def)
qed

lemma colors_after_inv:
  "saved g \<Longrightarrow> saved (colors_after as g) \<and> fst (colorFor a (colors_after as g)) = fst (colorFor a g)"
  by (induction as arbitrary: g) (simp_all add: colors_after_def saved_colorFor colorFor_keeps)

subsection \<open>Properties\<close>

text \<open>Gutter colours: whatever the workspace state holds, an agent gets a colour of the form
  \<open>#rrggbb\<close>; the colour does not change however many agents are coloured before it is asked
  for again, nor when the manager is rebuilt from the state it persisted; and without a valid
  persisted entry it is the hash colour of the agent id.\<close>

theorem gutter_colors_stable:
  "is_hex_color (fst (colorFor a (load_colors st))) \<and>
   fst (colorFor a (colors_after as (load_colors st))) = fst (colorFor a (load_colors st)) \<and>
   fst (colorFor a (load_colors (stored (colors_after as (load_colors st))))) = fst (colorFor a (load_colors st)) \<and>
   fst (colorFor a (load_colors JUndef)) = agentIdToColor a"
proof -
  have "saved (colors_after as (load_colors st))" using colors_after_inv [OF saved_load] by blast
  then have "js_get (cache (load_colors (stored (colors_after as (load_colors st))))) a =
      js_get (cache (colors_after as (load_colors st))) a"
    by (simp add: saved_def)
  then have "fst (colorFor a (load_colors (stored (colors_after as (load_colors st))))) =
      fst (colorFor a (colors_after as (load_colors st)))"
    by (simp add: colorFor_fst)
  moreover have "fst (colorFor a (load_colors JUndef)) = agentIdToColor a"
    by (simp add: colorFor_fst load_colors_def js_get_def entry_color_def)
  ultimately show ?thesis using colors_after_inv [OF saved_load, where a = a and as = as] entry_color_ok
    by (simp add: colorFor_fst)
qed

text \<open>The interrupt button is optimistic and self-correcting: a click hides it for every cell
  of that agent whatever the registry says, and sends one interrupt envelope naming agent and
  cell; the next snapshot that reports a status for the agent (the keys of an object being
  distinct) decides alone, whatever was overridden or known before: the button of a cell that
  can carry one shows exactly when the reported status is interruptible.\<close>

theorem interrupt_button_optimistic:
  assumes "resolve_agent cell = Some a" "a \<noteq> []"
    and "reported_status payload a = Some s"
    and "distinct (map fst (entries (snapshot_agents (the (snapshot_of payload)))))"
  shows "computeInterruptButton cell reg (fst (fst (postAgentInterrupt r bh a u ov))) = None \<and>
    snd (postAgentInterrupt r bh a u ov) = enqueueOutbound r bh (buildInterruptEnvelope a u) \<and>
    computeInterruptButton cell (fst (registry_metadata payload reg)) (fst (overrides_metadata payload ov)) =
      (if fst (badgeIsApplicable cell) \<and> s \<in> set INTERRUPTIBLE_STATUSES then Some (a, bc_uri cell) else None)"
proof -
  have "map_of (fst (fst (postAgentInterrupt r bh a u ov))) a = Some ''interrupting''"
    by (simp add: postAgentInterrupt_def override_set_def TRANSIENT_INTERRUPTING_STATUS_def)
  then have "computeInterruptButton cell reg (fst (fst (postAgentInterrupt r bh a u ov))) = None"
    using assms(1,2) by (simp add: computeInterruptButton_def INTERRUPTIBLE_STATUSES_def)
  moreover have "computeInterruptButton cell (fst (registry_metadata payload reg)) (fst (overrides_metadata payload ov)) =
      (if fst (badgeIsApplicable cell) \<and> s \<in> set INTERRUPTIBLE_STATUSES then Some (a, bc_uri cell) else None)"
    using reported_registry [OF assms(3,4)] assms(1,2) by (simp add: computeInterruptButton_def Let_def)
  ultimately show ?thesis by (simp add: postAgentInterrupt_def)
qed

definition demo_badge_cell :: badge_cell where
  "demo_badge_cell = \<lparr>bc_kind = Code, bc_metadata = JObj [(''rts'', JObj [(''bound_agent_id'', JStr ''a'')])],
     bc_uri = ''u'', bc_outputs = []\<rparr>"

definition demo_snapshot :: jsv where
  "demo_snapshot = JObj [(''mode'', JStr ''snapshot''), (''snapshot'', JObj [(''zone'',
     JObj [(''agents'', JObj [(''a'', JObj [(''session'', JObj [(''runtime_status'', JStr ''active'')])])])])])]"

theorem interrupt_button_optimistic_witness:
  "computeInterruptButton demo_badge_cell [] (fst (fst (postAgentInterrupt new_router (\<lambda>_. None) ''a'' ''u'' []))) = None \<and>
   computeInterruptButton demo_badge_cell (fst (registry_metadata demo_snapshot []))
     (fst (overrides_metadata demo_snapshot [(''a'', ''interrupting'')])) = Some (''a'', ''u'')"
proof -
  have r: "resolve_agent demo_badge_cell = Some ''a''" by code_simp
  have s: "reported_status demo_snapshot ''a'' = Some ''active''" by code_simp
  have d: "distinct (map fst (entries (snapshot_agents (the (snapshot_of demo_snapshot)))))" by code_simp
  have ok: "fst (badgeIsApplicable demo_badge_cell)" "''active'' \<in> set INTERRUPTIBLE_STATUSES" "bc_uri demo_badge_cell = ''u''"
    by code_simp+
  show ?thesis
    using interrupt_button_optimistic [OF r _ s d, of "[]" new_router "\<lambda>_. None" "''u''" "[]"]
      interrupt_button_optimistic [OF r _ s d, of "[]" new_router "\<lambda>_. None" "''u''" "[(''a'', ''interrupting'')]"] ok
    by simp
qed

end
