(* ===== verification/Contamination.thy ===== *)
theory Contamination
  imports Observables Run_Frames Metadata_Applier
begin

section \<open>Contamination badge, promotion chips, privilege header\<close>

text \<open>
  \<open>contamination-badge.ts\<close> (registry of contaminated cells, badge, promotion chips),
  \<open>commands/reset-contamination.ts\<close> and \<open>header-chips.ts\<close> (registry of magic-emit grants,
  header chip, revoke menu), all under \<open>extension/src/notebook\<close>. Glyphs outside the modelled
  range of strings (the warning sign, the ellipsis, the arrow) are arguments of the functions
  that print them. A log entry is kept as the value the snapshot has.
\<close>

subsection \<open>The contamination registry\<close>

record contamination_slot =
  contaminated :: bool
  contamination_log :: "jsv list"
  bound_agent :: "string option"

type_synonym contamination_registry = "(string \<times> contamination_slot) list"

definition slot_of :: "jsv \<Rightarrow> contamination_slot" where
  "slot_of raw =
     \<lparr>contaminated = (jprop raw ''contaminated'' = JBool True),
      contamination_log = (case jprop raw ''contamination_log'' of JArr xs \<Rightarrow> xs | _ \<Rightarrow> []),
      bound_agent = opt_string (jprop raw ''bound_agent_id'')\<rparr>"

text \<open>The change test of the source looks at the length of the log, not at its entries.\<close>

definition same_slot :: "contamination_slot \<Rightarrow> contamination_slot \<Rightarrow> bool" where
  "same_slot prev new \<longleftrightarrow> contaminated prev = contaminated new \<and>
     length (contamination_log prev) = length (contamination_log new) \<and> bound_agent prev = bound_agent new"

definition absorb_cell :: "string \<times> jsv \<Rightarrow> contamination_registry \<times> bool \<Rightarrow> contamination_registry \<times> bool" where
  "absorb_cell idraw rc =
     (let (i, raw) = idraw; (reg, changed) = rc in
      if \<not> is_objectlike raw then (reg, changed)
      else if (case map_of reg i of Some prev \<Rightarrow> same_slot prev (slot_of raw) | None \<Rightarrow> False) then (reg, changed)
      else (map_set i (slot_of raw) reg, True))"

definition drop_unseen :: "string set \<Rightarrow> contamination_registry \<times> bool \<Rightarrow> contamination_registry \<times> bool" where
  "drop_unseen seen rc =
     (filter (\<lambda>(i, _). i \<in> seen) (fst rc), snd rc \<or> (\<exists>i \<in> set (map fst (fst rc)). i \<notin> seen))"

definition contamination_metadata :: "jsv \<Rightarrow> contamination_registry \<Rightarrow> contamination_registry \<times> bool" where
  "contamination_metadata payload reg =
     (case snapshot_of payload of
        None \<Rightarrow> (reg, False)
      | Some snap \<Rightarrow>
          let cs = jprop snap ''cells'' in
          if \<not> is_objectlike cs then (reg, False)
          else drop_unseen (set (map fst (entries cs))) (fold absorb_cell (entries cs) (reg, False)))"

definition contamination_upsert :: "string \<Rightarrow> contamination_slot \<Rightarrow> contamination_registry \<Rightarrow> contamination_registry \<times> bool" where
  "contamination_upsert i slot reg = (map_set i slot reg, True)"

definition contamination_clear :: "contamination_registry \<Rightarrow> contamination_registry \<times> bool" where
  "contamination_clear reg = (if reg = [] then (reg, False) else ([], True))"

subsection \<open>The badge\<close>

definition formatBadgeText :: "string \<Rightarrow> nat \<Rightarrow> string" where
  "formatBadgeText warning n = warning @ '' contamination ('' @ show_nat n @ '')''"

record contamination_badge =
  cb_cell :: string
  cb_count :: nat
  cb_text :: string
  cb_tail :: "jsv list"

definition last3 :: "'a list \<Rightarrow> 'a list" where
  "last3 xs = drop (length xs - 3) xs"

definition badge_for :: "string \<Rightarrow> contamination_registry \<Rightarrow> string \<Rightarrow> contamination_badge option" where
  "badge_for warning reg i =
     (case map_of reg i of
        Some slot \<Rightarrow> if contaminated slot
          then Some \<lparr>cb_cell = i, cb_count = length (contamination_log slot),
                 cb_text = formatBadgeText warning (length (contamination_log slot)),
                 cb_tail = last3 (contamination_log slot)\<rparr>
          else None
      | None \<Rightarrow> None)"

fun first_badge :: "string \<Rightarrow> contamination_registry \<Rightarrow> string list \<Rightarrow> contamination_badge option" where
  "first_badge warning reg [] = None"
| "first_badge warning reg (i # ids) =
     (case badge_for warning reg i of Some b \<Rightarrow> Some b | None \<Rightarrow> first_badge warning reg ids)"

definition computeContaminationBadge :: "string \<Rightarrow> jsv \<Rightarrow> string \<Rightarrow> contamination_registry \<Rightarrow> contamination_badge option" where
  "computeContaminationBadge warning meta uri reg = first_badge warning reg (candidateCellIds meta uri)"

text \<open>\<open>truncate\<close>: the ellipsis is one code unit.\<close>

definition truncate_text :: "string \<Rightarrow> jsv \<Rightarrow> nat \<Rightarrow> string" where
  "truncate_text ellipsis v n =
     (case v of JStr s \<Rightarrow> if length s \<le> n then s else take (n - 1) s @ ellipsis | _ \<Rightarrow> [])"

definition tail_line :: "string \<Rightarrow> jsv \<Rightarrow> string" where
  "tail_line ellipsis e =
     ''  ['' @ js_String (jprop e ''layer'') @ ''@'' @ js_String (jprop e ''ts'') @ '' '' @ js_String (jprop e ''source'') @ ''] '' @
     truncate_text ellipsis (jprop e ''line'') 80"

definition badge_tooltip :: "string \<Rightarrow> contamination_badge \<Rightarrow> string" where
  "badge_tooltip ellipsis b =
     ''Contamination detected: '' @ show_nat (cb_count b) @ '' entr'' @ (if cb_count b = 1 then ''y'' else ''ies'') @ ''.'' @ [LF] @
     ''Click to review and clear.'' @ [LF, LF] @ ''Recent entries (most recent first):'' @ [LF] @
     join [LF] (map (tail_line ellipsis) (cb_tail b))"

subsection \<open>Promotion chips\<close>

datatype magics = All_Magics | Magics "string list"

record privilege =
  priv_agent :: string
  priv_zone :: string
  granted_at :: string
  scope :: magics

definition hasGrant :: "string \<Rightarrow> privilege list \<Rightarrow> bool" where
  "hasGrant a ps \<longleftrightarrow> a \<noteq> [] \<and> (\<exists>p \<in> set ps. priv_agent p = a)"

record promotion_chip =
  chip_cell :: string
  chip_agent :: string
  chip_line :: jsv
  chip_text :: string

definition formatPromotionChipText :: "string \<Rightarrow> string \<Rightarrow> string \<Rightarrow> string" where
  "formatPromotionChipText arrow ellipsis line =
     arrow @ '' promote '' @ truncate_text ellipsis (JStr (case split_lines line of h # _ \<Rightarrow> h | [] \<Rightarrow> [])) 32"

definition chips_of :: "string \<Rightarrow> string \<Rightarrow> string \<Rightarrow> string \<Rightarrow> jsv list \<Rightarrow> promotion_chip list" where
  "chips_of arrow ellipsis i a es =
     map (\<lambda>e. \<lparr>chip_cell = i, chip_agent = a, chip_line = jprop e ''line'',
                chip_text = formatPromotionChipText arrow ellipsis (str_of (jprop e ''line''))\<rparr>)
       (filter (\<lambda>e. jprop e ''k_class'' = JStr ''K3L'') es)"

fun computePromotionChips ::
  "string \<Rightarrow> string \<Rightarrow> string list \<Rightarrow> contamination_registry \<Rightarrow> privilege list \<Rightarrow> promotion_chip list" where
  "computePromotionChips arrow ellipsis [] reg ps = []"
| "computePromotionChips arrow ellipsis (i # ids) reg ps =
     (case map_of reg i of
        None \<Rightarrow> computePromotionChips arrow ellipsis ids reg ps
      | Some slot \<Rightarrow>
          if \<not> contaminated slot then computePromotionChips arrow ellipsis ids reg ps
          else case bound_agent slot of
            None \<Rightarrow> []
          | Some a \<Rightarrow> if a = [] \<or> \<not> hasGrant a ps then []
                     else chips_of arrow ellipsis i a (contamination_log slot))"

subsection \<open>Resetting contamination\<close>

definition buildResetContaminationEnvelope :: "string \<Rightarrow> jsv" where
  "buildResetContaminationEnvelope c =
     JObj [(''type'', JStr ''operator.action''),
           (''payload'', JObj [(''action_type'', JStr ''reset_contamination''), (''cell_id'', JStr c),
              (''parameters'', JObj [(''cell_id'', JStr c)]), (''originating_cell_id'', JStr c)])]"

definition reset_cell_id :: "jsv \<Rightarrow> string" where
  "reset_cell_id args =
     (case strField args ''cell_id'' of Some c \<Rightarrow> c
      | None \<Rightarrow> (case strField args ''cellId'' of Some c \<Rightarrow> c | None \<Rightarrow> []))"

text \<open>The answer to the confirmation is an argument; the result says whether the envelope went
  out, with the router's calls.\<close>

definition runResetContaminationCommand ::
  "jsv \<Rightarrow> router \<Rightarrow> behaviour \<Rightarrow> string option \<Rightarrow> bool \<times> event list" where
  "runResetContaminationCommand args r bh choice =
     (let c = reset_cell_id args in
      if c = [] then (False, [])
      else if choice \<noteq> Some ''Reset'' then (False, [])
      else (True, enqueueOutbound r bh (buildResetContaminationEnvelope c)))"

subsection \<open>The privilege registry and its menu\<close>

definition str_or_empty :: "jsv \<Rightarrow> string" where
  "str_or_empty v = (case v of JStr s \<Rightarrow> s | _ \<Rightarrow> [])"

definition parse_privilege :: "jsv \<Rightarrow> privilege list" where
  "parse_privilege r =
     (if \<not> is_objectlike r then []
      else let a = str_or_empty (jprop r ''agent_id''); z = str_or_empty (jprop r ''zone_id'') in
        if a = [] \<or> z = [] then []
        else [\<lparr>priv_agent = a, priv_zone = z, granted_at = str_or_empty (jprop r ''granted_at''),
               scope = (case jprop (jprop r ''scope'') ''magics'' of
                  JArr xs \<Rightarrow> Magics (strings_of xs) | _ \<Rightarrow> All_Magics)\<rparr>])"

fun same_magics :: "magics \<Rightarrow> magics \<Rightarrow> bool" where
  "same_magics All_Magics All_Magics = True"
| "same_magics (Magics a) (Magics b) = (length a = length b \<and> list_all (\<lambda>(x, y). x = y) (zip a b))"
| "same_magics _ _ = False"

definition same_privilege :: "privilege \<Rightarrow> privilege \<Rightarrow> bool" where
  "same_privilege a b \<longleftrightarrow> priv_agent a = priv_agent b \<and> priv_zone a = priv_zone b \<and>
     granted_at a = granted_at b \<and> same_magics (scope a) (scope b)"

definition sameEntries :: "privilege list \<Rightarrow> privilege list \<Rightarrow> bool" where
  "sameEntries a b \<longleftrightarrow> length a = length b \<and> list_all (\<lambda>(x, y). same_privilege x y) (zip a b)"

definition privileges_set :: "privilege list \<Rightarrow> privilege list \<Rightarrow> privilege list \<times> bool" where
  "privileges_set new ps = (if sameEntries ps new then (ps, False) else (new, True))"

definition privileges_metadata :: "jsv \<Rightarrow> privilege list \<Rightarrow> privilege list \<times> bool" where
  "privileges_metadata payload ps =
     (case snapshot_of payload of
        None \<Rightarrow> (ps, False)
      | Some snap \<Rightarrow>
          let cfg = jprop snap ''config'' in
          if \<not> is_objectlike cfg then privileges_set [] ps
          else case jprop cfg ''magic_emit_privileges'' of
            JArr xs \<Rightarrow> privileges_set (concat (map parse_privilege xs)) ps
          | _ \<Rightarrow> privileges_set [] ps)"

definition grant_label :: "privilege \<Rightarrow> string" where
  "grant_label p = ''Revoke: '' @ priv_agent p @ '' in '' @ priv_zone p @ '' ('' @
     (case scope p of All_Magics \<Rightarrow> ''all'' | Magics ms \<Rightarrow> join '','' ms) @ '')''"

definition buildMenuItems :: "privilege list \<Rightarrow> string list" where
  "buildMenuItems ps = (if ps = [] then [''(no active grants)''] else map grant_label ps)"

definition parseMenuPick :: "string \<Rightarrow> privilege list \<Rightarrow> privilege option" where
  "parseMenuPick pick ps =
     (if pick = [] \<or> \<not> startsWith pick ''Revoke: '' then None else find (\<lambda>p. pick = grant_label p) ps)"

text \<open>The menu: the operator's pick is an argument; a revocation is its agent and zone.\<close>

definition openPrivilegeMenu :: "string option \<Rightarrow> privilege list \<Rightarrow> (string \<times> string) option" where
  "openPrivilegeMenu picked ps =
     Option.bind picked (\<lambda>pick. map_option (\<lambda>p. (priv_agent p, priv_zone p)) (parseMenuPick pick ps))"

definition chip_tooltip_line :: "string \<Rightarrow> string \<Rightarrow> privilege \<Rightarrow> string" where
  "chip_tooltip_line bullet dash p = ''  '' @ bullet @ '' '' @ priv_agent p @ '' in '' @ priv_zone p @ '' '' @ dash @ '' '' @
     (case scope p of All_Magics \<Rightarrow> ''all magics'' | Magics ms \<Rightarrow> ''['' @ join '', '' ms @ '']'')"

definition computePrivilegeHeaderChip :: "string \<Rightarrow> string \<Rightarrow> privilege list \<Rightarrow> string \<times> string \<times> nat" where
  "computePrivilegeHeaderChip bullet dash ps =
     (let n = length ps in
      (''$(key) magic-emit ('' @ show_nat n @ '')'',
       (if n = 0
        then ''No magic-emit privilege grants are active.'' @ [LF] @
             ''Click to manage grants (no agent can currently invoke emit_magic_cell).''
        else show_nat n @ '' active magic-emit privilege grant'' @ (if n = 1 then [] else ''s'') @ '':'' @ [LF] @
             join [LF] (map (chip_tooltip_line bullet dash) ps) @ [LF] @ ''Click to review or revoke.''), n))"

subsection \<open>The registries notify\<close>

interpretation cells: flagged_step absorb_cell
  by unfold_locales (auto simp: absorb_cell_def split: prod.splits if_splits option.splits)

lemma drop_unseen_quiet: "\<not> snd (drop_unseen seen rc) \<Longrightarrow> fst (drop_unseen seen rc) = fst rc \<and> \<not> snd rc"
  by (force simp: drop_unseen_def filter_id_conv)

interpretation contamination_notifier: change_notifier contamination_metadata
proof
  fix p s assume q: "\<not> snd (contamination_metadata p s)"
  show "fst (contamination_metadata p s) = s"
  proof (cases "snapshot_of p")
    case None
    then show ?thesis by (simp add: contamination_metadata_def)
  next
    case (Some snap)
    show ?thesis
    proof (cases "is_objectlike (jprop snap ''cells'')")
      case True
      let ?rc = "fold absorb_cell (entries (jprop snap ''cells'')) (s, False)"
      have e: "contamination_metadata p s = drop_unseen (set (map fst (entries (jprop snap ''cells'')))) ?rc"
        using Some True by (simp add: contamination_metadata_def Let_def)
      from drop_unseen_quiet [OF q [unfolded e]]
      have "fst (contamination_metadata p s) = fst ?rc" "\<not> snd ?rc" unfolding e by blast+
      then show ?thesis using cells.fold_quiet by metis
    next
      case False
      with Some show ?thesis by (simp add: contamination_metadata_def Let_def)
    qed
  qed
qed

lemma privileges_set_quiet: "\<not> snd (privileges_set new ps) \<Longrightarrow> fst (privileges_set new ps) = ps"
  by (simp add: privileges_set_def split: if_splits)

interpretation privilege_notifier: change_notifier privileges_metadata
  by unfold_locales
    (auto simp: privileges_metadata_def Let_def dest: privileges_set_quiet split: option.splits if_splits jsv.splits)

interpretation inspect_notifier: change_notifier router_source_metadata
  by unfold_locales (auto simp: router_source_metadata_def split: if_splits)

subsection \<open>Grants\<close>

lemma zip_eq: "length a = length b \<and> list_all (\<lambda>(x, y). x = y) (zip a b) \<longleftrightarrow> a = b"
proof (induction a arbitrary: b)
  case (Cons x a)
  then show ?case by (cases b) auto
qed auto

lemma same_magics_eq: "same_magics m n \<longleftrightarrow> m = n"
  by (cases m; cases n) (simp_all add: zip_eq)

lemma same_privilege_eq: "same_privilege = (\<lambda>a b. a = b)"
  by (intro ext) (auto simp: same_privilege_def same_magics_eq)

lemma sameEntries_eq: "sameEntries a b \<longleftrightarrow> a = b"
  unfolding sameEntries_def same_privilege_eq by (rule zip_eq)

text \<open>After a snapshot the registry has exactly the cells it lists, each with a slot that agrees with
  the listed one up to the entries of the log.\<close>

lemma absorb_cell_lookup:
  "is_objectlike raw \<Longrightarrow>
   (\<exists>slot. map_of (fst (absorb_cell (i, raw) rc)) i = Some slot \<and> same_slot slot (slot_of raw)) \<and>
   (a \<noteq> i \<longrightarrow> map_of (fst (absorb_cell (i, raw) rc)) a = map_of (fst rc) a)"
  by (auto simp: absorb_cell_def case_prod_beta same_slot_def split: option.splits)

lemma absorb_cells_lookup:
  assumes "distinct (map fst es)" "\<forall>(k, x) \<in> set es. is_objectlike x"
  shows "case map_of es a of
      Some raw \<Rightarrow> \<exists>slot. map_of (fst (fold absorb_cell es rc)) a = Some slot \<and> same_slot slot (slot_of raw)
    | None \<Rightarrow> map_of (fst (fold absorb_cell es rc)) a = map_of (fst rc) a"
  using assms
proof (induction es arbitrary: rc)
  case (Cons e es)
  obtain i raw where e: "e = (i, raw)" by (cases e)
  have i: "map_of es i = None" using Cons.prems(1) e by (simp add: map_of_eq_None_iff)
  have IH: "case map_of es a of
      Some raw \<Rightarrow> \<exists>slot. map_of (fst (fold absorb_cell es (absorb_cell e rc))) a = Some slot \<and> same_slot slot (slot_of raw)
    | None \<Rightarrow> map_of (fst (fold absorb_cell es (absorb_cell e rc))) a = map_of (fst (absorb_cell e rc)) a"
    using Cons by simp
  then show ?case using absorb_cell_lookup [of raw i rc a] Cons.prems(2) e i
    by (cases "a = i") (auto split: option.splits)
qed simp

lemma map_of_filter_keys: "map_of (filter (\<lambda>(i, _). i \<in> S) m) k = (if k \<in> S then map_of m k else None)"
  by (induction m) auto

definition listed_slots :: "jsv \<Rightarrow> contamination_registry" where
  "listed_slots snap = map (\<lambda>(i, raw). (i, slot_of raw)) (entries (jprop snap ''cells''))"

lemma contamination_after:
  assumes "snapshot_of payload = Some snap" "lists_objects (jprop snap ''cells'')"
  shows "rel_option same_slot (map_of (fst (contamination_metadata payload reg)) a) (map_of (listed_slots snap) a)"
proof -
  let ?es = "entries (jprop snap ''cells'')"
  have m: "map_of (listed_slots snap) a = map_option slot_of (map_of ?es a)"
    by (simp add: listed_slots_def map_of_map)
  have c: "map_of (fst (contamination_metadata payload reg)) a =
      (if a \<in> fst ` set ?es then map_of (fst (fold absorb_cell ?es (reg, False))) a else None)"
    using assms by (simp add: contamination_metadata_def lists_objects_def drop_unseen_def map_of_filter_keys Let_def)
  show ?thesis
  proof (cases "map_of ?es a")
    case None
    then have "a \<notin> fst ` set ?es" by (simp add: map_of_eq_None_iff)
    then show ?thesis using None by (simp add: m c)
  next
    case (Some raw)
    then have "a \<in> fst ` set ?es" by (force dest: map_of_SomeD)
    then show ?thesis
      using absorb_cells_lookup [where es = ?es and a = a and rc = "(reg, False)"] assms(2) Some by (auto simp: m c lists_objects_def)
  qed
qed

text \<open>What a badge shows apart from the quoted entries.\<close>

definition badge_face :: "contamination_badge \<Rightarrow> string \<times> nat \<times> string" where
  "badge_face b = (cb_cell b, cb_count b, cb_text b)"

lemma badge_for_face:
  "rel_option same_slot (map_of reg i) (map_of reg' i) \<Longrightarrow>
   map_option badge_face (badge_for w reg i) = map_option badge_face (badge_for w reg' i)"
  by (cases "map_of reg i"; cases "map_of reg' i") (auto simp: badge_for_def same_slot_def badge_face_def)

lemma first_badge_face:
  assumes "\<And>i. rel_option same_slot (map_of reg i) (map_of reg' i)"
  shows "map_option badge_face (first_badge w reg ids) = map_option badge_face (first_badge w reg' ids)"
proof (induction ids)
  case (Cons i ids)
  then show ?case using badge_for_face [OF assms [of i], of w]
    by (cases "badge_for w reg i"; cases "badge_for w reg' i") auto
qed simp

lemma contamination_badge_after:
  assumes "snapshot_of payload = Some snap" "lists_objects (jprop snap ''cells'')"
  shows "map_option badge_face (computeContaminationBadge w meta uri (fst (contamination_metadata payload reg))) =
    map_option badge_face (computeContaminationBadge w meta uri (listed_slots snap))"
  unfolding computeContaminationBadge_def by (rule first_badge_face) (rule contamination_after [OF assms])

text \<open>The grants a snapshot lists.\<close>

definition listed_grants :: "jsv \<Rightarrow> privilege list" where
  "listed_grants snap =
     (case jprop (jprop snap ''config'') ''magic_emit_privileges'' of
        JArr xs \<Rightarrow> concat (map parse_privilege xs) | _ \<Rightarrow> [])"

lemma jprop_nonobject: "\<not> is_objectlike v \<Longrightarrow> jprop v k = JUndef"
  by (cases v) auto

lemma privileges_after:
  "snapshot_of payload = Some snap \<Longrightarrow> fst (privileges_metadata payload ps) = listed_grants snap"
  by (auto simp: privileges_metadata_def listed_grants_def privileges_set_def sameEntries_eq Let_def jprop_nonobject
      split: jsv.split)

lemma chips_guarded:
  "c \<in> set (computePromotionChips arrow ellipsis ids reg ps) \<Longrightarrow>
   \<exists>slot. map_of reg (chip_cell c) = Some slot \<and> chip_cell c \<in> set ids \<and> contaminated slot \<and>
     bound_agent slot = Some (chip_agent c) \<and> hasGrant (chip_agent c) ps \<and>
     (\<exists>e \<in> set (contamination_log slot). jprop e ''k_class'' = JStr ''K3L'' \<and> jprop e ''line'' = chip_line c)"
  by (induction arrow ellipsis ids reg ps rule: computePromotionChips.induct)
    (auto simp: chips_of_def split: option.splits if_splits)

text \<open>The labels of the revoke menu, for ids without spaces.\<close>

definition no_space :: "string \<Rightarrow> bool" where
  "no_space s \<longleftrightarrow> CHR '' '' \<notin> set s"

lemma cut_space: "no_space a \<Longrightarrow> no_space b \<Longrightarrow> a @ CHR '' '' # x = b @ CHR '' '' # y \<Longrightarrow> a = b \<and> x = y"
proof (induction a arbitrary: b)
  case Nil
  then show ?case by (cases b) (auto simp: no_space_def)
next
  case (Cons c a)
  then show ?case by (cases b) (auto simp: no_space_def)
qed

lemma grant_label_inj:
  assumes "no_space (priv_agent p)" "no_space (priv_agent q)" "no_space (priv_zone p)" "no_space (priv_zone q)"
    and eq: "grant_label p = grant_label q"
  shows "priv_agent p = priv_agent q \<and> priv_zone p = priv_zone q"
proof -
  obtain x y where "priv_agent p @ CHR '' '' # ''in '' @ priv_zone p @ CHR '' '' # x =
      priv_agent q @ CHR '' '' # ''in '' @ priv_zone q @ CHR '' '' # y"
    using eq by (simp add: grant_label_def)
  from cut_space [OF assms(1,2) this] have a: "priv_agent p = priv_agent q"
      and z: "priv_zone p @ CHR '' '' # x = priv_zone q @ CHR '' '' # y" by simp_all
  from a cut_space [OF assms(3,4) z] show ?thesis by blast
qed

lemma revoke_menu_roundtrip:
  assumes "p \<in> set ps" "\<forall>q \<in> set ps. no_space (priv_agent q) \<and> no_space (priv_zone q)"
  shows "grant_label p \<in> set (buildMenuItems ps) \<and>
    openPrivilegeMenu (Some (grant_label p)) ps = Some (priv_agent p, priv_zone p)"
proof -
  have "find (\<lambda>q. grant_label p = grant_label q) ps \<noteq> None" using assms(1) by (auto simp: find_None_iff)
  then obtain q where q: "find (\<lambda>q. grant_label p = grant_label q) ps = Some q" by blast
  then have "q \<in> set ps" "grant_label p = grant_label q" by (auto simp: find_Some_iff)
  then have "priv_agent p = priv_agent q \<and> priv_zone p = priv_zone q"
    using assms grant_label_inj [of p q] by blast
  moreover have "startsWith (grant_label p) ''Revoke: ''" "grant_label p \<noteq> []"
    by (simp_all add: grant_label_def startsWith_def)
  moreover have "grant_label p \<in> set (buildMenuItems ps)" using assms(1) by (auto simp: buildMenuItems_def)
  ultimately show ?thesis using q by (simp add: openPrivilegeMenu_def parseMenuPick_def)
qed

subsection \<open>Properties\<close>

text \<open>C16. Promotion chips are guarded: after a snapshot, whatever was granted before, a chip is
  offered only for a contaminated cell among the candidate ids, for an entry of its log that
  the kernel marked K3L, and only when that very snapshot lists a grant for the agent the cell
  is bound to; so a grant that a snapshot no longer lists offers nothing any more.\<close>

theorem promotion_chips_guarded:
  assumes "snapshot_of payload = Some snap"
    and "c \<in> set (computePromotionChips arrow ellipsis ids reg (fst (privileges_metadata payload ps)))"
  shows "chip_cell c \<in> set ids \<and>
    (\<exists>slot. map_of reg (chip_cell c) = Some slot \<and> contaminated slot \<and> bound_agent slot = Some (chip_agent c) \<and>
       (\<exists>e \<in> set (contamination_log slot). jprop e ''k_class'' = JStr ''K3L'' \<and> jprop e ''line'' = chip_line c)) \<and>
    (\<exists>p \<in> set (listed_grants snap). priv_agent p = chip_agent c)"
  using chips_guarded [OF assms(2)] by (auto simp: privileges_after [OF assms(1)] hasGrant_def)

definition demo_grants :: jsv where
  "demo_grants = JObj [(''mode'', JStr ''snapshot''), (''snapshot'', JObj [(''config'', JObj [(''magic_emit_privileges'',
     JArr [JObj [(''agent_id'', JStr ''a''), (''zone_id'', JStr ''z'')]])])])]"

definition demo_cells :: contamination_registry where
  "demo_cells = [(''u'', \<lparr>contaminated = True,
     contamination_log = [JObj [(''line'', JStr ''@@spawn''), (''k_class'', JStr ''K3L'')]], bound_agent = Some ''a''\<rparr>)]"

theorem promotion_chips_guarded_witness:
  "\<exists>c snap. snapshot_of demo_grants = Some snap \<and>
     c \<in> set (computePromotionChips ''^'' [] [''u''] demo_cells (fst (privileges_metadata demo_grants []))) \<and>
     chip_agent c = ''a'' \<and> chip_cell c \<in> set [''u''] \<and> (\<exists>p \<in> set (listed_grants snap). priv_agent p = chip_agent c)"
proof -
  have ne: "map chip_agent (computePromotionChips ''^'' [] [''u''] demo_cells (fst (privileges_metadata demo_grants []))) = [''a'']"
    by code_simp
  obtain snap where s: "snapshot_of demo_grants = Some snap" by (simp add: demo_grants_def snapshot_of_def js_get_def)
  obtain c where c: "c \<in> set (computePromotionChips ''^'' [] [''u''] demo_cells (fst (privileges_metadata demo_grants [])))"
      "chip_agent c = ''a''"
    using ne by (cases "computePromotionChips ''^'' [] [''u''] demo_cells (fst (privileges_metadata demo_grants []))") auto
  from promotion_chips_guarded [OF s c(1)] s c show ?thesis by blast
qed

end
