(* ===== verification/Pin_Status.thy ===== *)
theory Pin_Status
  imports Observables JS_Strings
begin

section \<open>Pin status and the \<open>@auth\<close> prompts\<close>

text \<open>
  \<open>extension/src/notebook/pin-status-header.ts\<close> and \<open>commands/auth-prompts.ts\<close>: the registry
  of the hash-mode configuration, the header chip, the menu of actions and the flows that
  prompt the operator and insert an \<open>@auth\<close> cell. Answers of the operator are arguments: the
  entered pin, the picked action, and for the warning that is shown until it is answered the
  sequence of answers \<open>warn\<close>. Inserting a cell is an operation on the state the inserter
  keeps; the ellipsis of the chip is an argument.
\<close>

subsection \<open>Configuration\<close>

record rts_config =
  magic_hash_enabled :: bool
  magic_pin_fingerprint :: "string option"
  injection_acceptance :: "string option"

definition new_config :: rts_config where
  "new_config = \<lparr>magic_hash_enabled = False, magic_pin_fingerprint = None, injection_acceptance = None\<rparr>"

definition config_set :: "rts_config \<Rightarrow> rts_config \<Rightarrow> rts_config \<times> bool" where
  "config_set new cfg =
     (if magic_hash_enabled cfg = magic_hash_enabled new \<and> magic_pin_fingerprint cfg = magic_pin_fingerprint new \<and>
         injection_acceptance cfg = injection_acceptance new
      then (cfg, False) else (new, True))"

definition config_metadata :: "jsv \<Rightarrow> rts_config \<Rightarrow> rts_config \<times> bool" where
  "config_metadata payload cfg =
     (case snapshot_of payload of
        None \<Rightarrow> (cfg, False)
      | Some snap \<Rightarrow>
          let c = jprop snap ''config'' in
          if \<not> is_objectlike c then (cfg, False)
          else config_set \<lparr>magic_hash_enabled = (jprop c ''magic_hash_enabled'' = JBool True),
                 magic_pin_fingerprint = opt_string (jprop c ''magic_pin_fingerprint''),
                 injection_acceptance = opt_string (jprop c ''injection_acceptance'')\<rparr> cfg)"

interpretation config_notifier: change_notifier config_metadata
  by unfold_locales (auto simp: config_metadata_def config_set_def Let_def split: option.splits if_splits)

text \<open>The configuration a snapshot gives, and that it is the one in force after it.\<close>

definition listed_config :: "jsv \<Rightarrow> rts_config" where
  "listed_config snap =
     (let c = jprop snap ''config'' in
      \<lparr>magic_hash_enabled = (jprop c ''magic_hash_enabled'' = JBool True),
       magic_pin_fingerprint = opt_string (jprop c ''magic_pin_fingerprint''),
       injection_acceptance = opt_string (jprop c ''injection_acceptance'')\<rparr>)"

lemma config_after:
  assumes "snapshot_of payload = Some snap" "is_objectlike (jprop snap ''config'')"
  shows "fst (config_metadata payload cfg) = listed_config snap"
  using assms by (cases cfg) (auto simp: config_metadata_def config_set_def listed_config_def Let_def)

subsection \<open>The chip and its actions\<close>

record pin_chip =
  chip_label :: string
  chip_tooltip :: string
  hashEnabled :: bool
  injectionAccepted :: bool
  fingerprintTail :: "string option"

definition fingerprint_tail :: "rts_config \<Rightarrow> string option" where
  "fingerprint_tail cfg =
     (case magic_pin_fingerprint cfg of
        Some f \<Rightarrow> if 4 \<le> length f then Some (drop (length f - 4) f) else None
      | None \<Rightarrow> None)"

definition chip_base_text :: "string \<Rightarrow> bool \<Rightarrow> string option \<Rightarrow> string" where
  "chip_base_text ellipsis hash tail =
     (if hash then (case tail of Some t \<Rightarrow> ''$(lock) hash mode ('' @ ellipsis @ t @ '')'' | None \<Rightarrow> ''$(lock) hash mode'')
      else ''$(unlock) unprotected'')"

definition chip_base_tooltip :: "string \<Rightarrow> bool \<Rightarrow> string option \<Rightarrow> string" where
  "chip_base_tooltip ellipsis hash tail =
     (if hash
      then ''Magic-cell hash mode is ON.'' @
           (case tail of Some t \<Rightarrow> '' Pin fingerprint ends '' @ ellipsis @ t @ ''.'' | None \<Rightarrow> []) @ [LF] @
           ''Click to verify pin / rotate pin / disable hash mode.''
      else ''Magic-cell hash mode is OFF.'' @ [LF] @
           ''Click to set pin (enables hash mode) or refuse hash mode (records arbitrary-injection acceptance).'')"

definition computePinStatusChip :: "string \<Rightarrow> rts_config \<Rightarrow> pin_chip" where
  "computePinStatusChip ellipsis cfg =
     (let tail = fingerprint_tail cfg; hash = magic_hash_enabled cfg in
      \<lparr>chip_label = (case injection_acceptance cfg of Some _ \<Rightarrow> ''$(warning) injection-accepted '' | None \<Rightarrow> []) @
         chip_base_text ellipsis hash tail,
       chip_tooltip = (case injection_acceptance cfg of
           Some txt \<Rightarrow> ''WARNING: this notebook accepts arbitrary code injection from agent outputs.'' @ [LF] @
             ''Verbatim record: '' @ txt @ [LF, LF]
         | None \<Rightarrow> []) @ chip_base_tooltip ellipsis hash tail,
       hashEnabled = hash, injectionAccepted = (injection_acceptance cfg \<noteq> None), fingerprintTail = tail\<rparr>)"

definition ACTION_SET_PIN :: string where "ACTION_SET_PIN = ''Set pin (enable hash mode)''"
definition ACTION_ROTATE_PIN :: string where "ACTION_ROTATE_PIN = ''Rotate pin''"
definition ACTION_VERIFY_PIN :: string where "ACTION_VERIFY_PIN = ''Verify pin''"
definition ACTION_DISABLE_HASH_MODE :: string where "ACTION_DISABLE_HASH_MODE = ''Disable hash mode''"
definition ACTION_REFUSE_HASH_MODE :: string where
  "ACTION_REFUSE_HASH_MODE = ''Refuse hash mode (accept injection risk)''"

lemmas action_defs = ACTION_SET_PIN_def ACTION_ROTATE_PIN_def ACTION_VERIFY_PIN_def
  ACTION_DISABLE_HASH_MODE_def ACTION_REFUSE_HASH_MODE_def

definition actionsForChip :: "pin_chip \<Rightarrow> string list" where
  "actionsForChip chip =
     (if hashEnabled chip then [ACTION_VERIFY_PIN, ACTION_ROTATE_PIN, ACTION_DISABLE_HASH_MODE]
      else if injectionAccepted chip then [ACTION_SET_PIN]
      else [ACTION_SET_PIN, ACTION_REFUSE_HASH_MODE])"

text \<open>\<open>refresh\<close>: \<open>None\<close> is a hidden item, else its text, tooltip and warning background.\<close>

definition refresh_header :: "string \<Rightarrow> string \<Rightarrow> string option \<Rightarrow> rts_config \<Rightarrow> (string \<times> string \<times> bool) option" where
  "refresh_header ellipsis notebookType active cfg =
     (if active \<noteq> Some notebookType then None
      else let chip = computePinStatusChip ellipsis cfg in
        Some (chip_label chip, chip_tooltip chip, injectionAccepted chip))"

subsection \<open>The flows\<close>

datatype auth_kind = Auth_set | Auth_rotate | Auth_off | Auth_verify | Auth_refuse

definition authCellText :: "auth_kind \<Rightarrow> string option \<Rightarrow> string" where
  "authCellText kind arg =
     (let a = (case arg of Some s \<Rightarrow> s | None \<Rightarrow> []) in
      case kind of
        Auth_set \<Rightarrow> trimEnd (''@auth set '' @ a)
      | Auth_rotate \<Rightarrow> trimEnd (''@auth rotate '' @ a)
      | Auth_off \<Rightarrow> ''@auth off''
      | Auth_verify \<Rightarrow> trimEnd (''@auth verify '' @ a)
      | Auth_refuse \<Rightarrow> ''@auth refuse'')"

text \<open>\<open>insertTopCell\<close> of the inserter: success and the new state.\<close>

type_synonym 's inserter = "string \<Rightarrow> 's \<Rightarrow> bool \<times> 's"

definition insert_cell :: "'s inserter \<Rightarrow> string \<Rightarrow> 's \<Rightarrow> string option \<times> 's" where
  "insert_cell ins txt s = (let (ok, s') = ins txt s in (if ok then Some txt else None, s'))"

definition pin_flow :: "auth_kind \<Rightarrow> string option \<Rightarrow> 's inserter \<Rightarrow> 's \<Rightarrow> string option \<times> 's" where
  "pin_flow kind pin ins s =
     (case pin of
        None \<Rightarrow> (None, s)
      | Some p \<Rightarrow> if p = [] then (None, s) else insert_cell ins (authCellText kind (Some p)) s)"

definition setPinFlow :: "string option \<Rightarrow> 's inserter \<Rightarrow> 's \<Rightarrow> string option \<times> 's" where
  "setPinFlow pin ins s = pin_flow Auth_set pin ins s"
definition rotatePinFlow :: "string option \<Rightarrow> 's inserter \<Rightarrow> 's \<Rightarrow> string option \<times> 's" where
  "rotatePinFlow pin ins s = pin_flow Auth_rotate pin ins s"
definition verifyPinFlow :: "string option \<Rightarrow> 's inserter \<Rightarrow> 's \<Rightarrow> string option \<times> 's" where
  "verifyPinFlow pin ins s = pin_flow Auth_verify pin ins s"
definition disableHashModeFlow :: "'s inserter \<Rightarrow> 's \<Rightarrow> string option \<times> 's" where
  "disableHashModeFlow ins s = insert_cell ins (authCellText Auth_off None) s"

definition REFUSE_BUTTON_ACCEPT :: string where "REFUSE_BUTTON_ACCEPT = ''I understand, accept anyway''"
definition REFUSE_BUTTON_TELL_ME :: string where "REFUSE_BUTTON_TELL_ME = ''Tell me more''"

text \<open>The loop of \<open>refuseHashModeFlow\<close> may run forever: the \<open>n\<close>-th warning is answered \<open>warn n\<close>.\<close>

partial_function (option) refuse_from ::
  "(nat \<Rightarrow> string option) \<Rightarrow> 's inserter \<Rightarrow> nat \<Rightarrow> 's \<Rightarrow> (string option \<times> 's) option" where
  "refuse_from warn ins n s =
     (if warn n = Some REFUSE_BUTTON_TELL_ME then refuse_from warn ins (Suc n) s
      else if warn n \<noteq> Some REFUSE_BUTTON_ACCEPT then Some (None, s)
      else Some (insert_cell ins (authCellText Auth_refuse None) s))"

definition refuseHashModeFlow :: "(nat \<Rightarrow> string option) \<Rightarrow> 's inserter \<Rightarrow> 's \<Rightarrow> (string option \<times> 's) option" where
  "refuseHashModeFlow warn ins s = refuse_from warn ins 0 s"

definition dispatchPinAction ::
  "string \<Rightarrow> string option \<Rightarrow> (nat \<Rightarrow> string option) \<Rightarrow> 's inserter \<Rightarrow> 's \<Rightarrow> (string option \<times> 's) option" where
  "dispatchPinAction action pin warn ins s =
     (if action = ACTION_SET_PIN then Some (setPinFlow pin ins s)
      else if action = ACTION_ROTATE_PIN then Some (rotatePinFlow pin ins s)
      else if action = ACTION_VERIFY_PIN then Some (verifyPinFlow pin ins s)
      else if action = ACTION_DISABLE_HASH_MODE then Some (disableHashModeFlow ins s)
      else if action = ACTION_REFUSE_HASH_MODE then refuseHashModeFlow warn ins s
      else Some (None, s))"

text \<open>The menu; \<open>pick\<close> is the operator's choice among the offered actions.\<close>

definition openPinStatusMenu ::
  "rts_config \<Rightarrow> (string list \<Rightarrow> string option) \<Rightarrow> string option \<Rightarrow> (nat \<Rightarrow> string option) \<Rightarrow> 's inserter \<Rightarrow> 's \<Rightarrow>
   (string option \<times> 's) option" where
  "openPinStatusMenu cfg pick pin warn ins s =
     (let actions = actionsForChip (computePinStatusChip [] cfg) in
      if actions = [] then Some (None, s)
      else case pick actions of None \<Rightarrow> Some (None, s) | Some a \<Rightarrow> dispatchPinAction a pin warn ins s)"

subsection \<open>The inserter\<close>

record auth_notebook =
  anb_uri :: string
  anb_type :: string
  anb_cells :: "string list"

record workspace =
  active_editor :: "auth_notebook option"
  notebooks :: "auth_notebook list"

definition findActiveLlmnb :: "string \<Rightarrow> workspace \<Rightarrow> string option" where
  "findActiveLlmnb nbtype w =
     (case active_editor w of
        Some n \<Rightarrow> if anb_type n = nbtype then Some (anb_uri n)
                 else map_option anb_uri (find (\<lambda>n. anb_type n = nbtype) (notebooks w))
      | None \<Rightarrow> map_option anb_uri (find (\<lambda>n. anb_type n = nbtype) (notebooks w)))"

definition put_top :: "string \<Rightarrow> string \<Rightarrow> auth_notebook \<Rightarrow> auth_notebook" where
  "put_top uri txt n = (if anb_uri n = uri then n\<lparr>anb_cells := txt # anb_cells n\<rparr> else n)"

text \<open>\<open>applied\<close> is the answer of \<open>applyEdit\<close>.\<close>

definition insertTopCell :: "string \<Rightarrow> bool \<Rightarrow> string \<Rightarrow> workspace \<Rightarrow> bool \<times> workspace" where
  "insertTopCell nbtype applied txt w =
     (case findActiveLlmnb nbtype w of
        None \<Rightarrow> (False, w)
      | Some uri \<Rightarrow>
          if \<not> applied then (False, w)
          else (True, \<lparr>active_editor = map_option (put_top uri txt) (active_editor w),
                       notebooks = map (put_top uri txt) (notebooks w)\<rparr>))"

text \<open>The notebook that receives the cell.\<close>

definition target_notebook :: "string \<Rightarrow> workspace \<Rightarrow> auth_notebook option" where
  "target_notebook nbtype w =
     (case active_editor w of
        Some n \<Rightarrow> if anb_type n = nbtype then Some n else find (\<lambda>n. anb_type n = nbtype) (notebooks w)
      | None \<Rightarrow> find (\<lambda>n. anb_type n = nbtype) (notebooks w))"

definition target_cells :: "string \<Rightarrow> workspace \<Rightarrow> string list" where
  "target_cells nbtype w = (case target_notebook nbtype w of Some n \<Rightarrow> anb_cells n | None \<Rightarrow> [])"

lemma findActive_target: "findActiveLlmnb nbtype w = map_option anb_uri (target_notebook nbtype w)"
  by (simp add: findActiveLlmnb_def target_notebook_def split: option.split)

lemma put_top_type [simp]: "anb_type (put_top u t n) = anb_type n"
  by (simp add: put_top_def)

lemma find_put_top: "find (\<lambda>n. anb_type n = ty) (map (put_top u t) ns) = map_option (put_top u t) (find (\<lambda>n. anb_type n = ty) ns)"
  by (induction ns) auto

lemma target_put_top:
  "target_notebook nbtype \<lparr>active_editor = map_option (put_top u t) (active_editor w), notebooks = map (put_top u t) (notebooks w)\<rparr> =
   map_option (put_top u t) (target_notebook nbtype w)"
  by (simp add: target_notebook_def find_put_top split: option.split)

subsection \<open>The inserter as an interface\<close>

definition or_blank :: "string option \<Rightarrow> string" where
  "or_blank x = (case x of Some s \<Rightarrow> s | None \<Rightarrow> [])"

locale cell_inserter =
  fixes ins :: "'s inserter" and cells :: "'s \<Rightarrow> string list"
  assumes inserted: "fst (ins t s) \<Longrightarrow> cells (snd (ins t s)) = t # cells s"
    and refused: "\<not> fst (ins t s) \<Longrightarrow> snd (ins t s) = s"
begin

definition logged :: "'s \<Rightarrow> string option \<times> 's \<Rightarrow> bool" where
  "logged s rs \<longleftrightarrow> (case fst rs of None \<Rightarrow> snd rs = s | Some t \<Rightarrow> cells (snd rs) = t # cells s \<and> startsWith t ''@auth '')"

lemma logged_none: "logged s (None, s)"
  by (simp add: logged_def)

lemma insert_logged: "startsWith t ''@auth '' \<Longrightarrow> logged s (insert_cell ins t s)"
  using inserted [of t s] refused [of t s] by (auto simp: insert_cell_def logged_def case_prod_beta)

end

lemma trimEnd_keeps: "\<not> is_ws y \<Longrightarrow> trimEnd (a @ y # ys) = a @ y # trimEnd ys"
  by (simp add: trimEnd_def dropWhile_append)

lemma auth_texts:
  "authCellText Auth_set p = ''@auth '' @ CHR ''s'' # trimEnd (''et '' @ or_blank p)"
  "authCellText Auth_rotate p = ''@auth '' @ CHR ''r'' # CHR ''o'' # trimEnd (''tate '' @ or_blank p)"
  "authCellText Auth_verify p = ''@auth '' @ CHR ''v'' # trimEnd (''erify '' @ or_blank p)"
  using trimEnd_keeps [of "CHR ''s''" "''@auth ''" "''et '' @ or_blank p"]
    trimEnd_keeps [of "CHR ''o''" "''@auth r''" "''tate '' @ or_blank p"]
    trimEnd_keeps [of "CHR ''v''" "''@auth ''" "''erify '' @ or_blank p"]
  by (simp_all add: authCellText_def or_blank_def is_ws_def Let_def)

lemma auth_text_shape: "startsWith (authCellText kind p) ''@auth ''"
proof (cases kind)
  case Auth_set
  show ?thesis unfolding Auth_set auth_texts startsWith_def by (rule prefixI [OF refl])
next
  case Auth_rotate
  show ?thesis unfolding Auth_rotate auth_texts startsWith_def by (rule prefixI [OF refl])
next
  case Auth_verify
  show ?thesis unfolding Auth_verify auth_texts startsWith_def by (rule prefixI [OF refl])
qed (simp_all add: authCellText_def startsWith_def)

context cell_inserter
begin

lemma pin_flow_logged: "logged s (pin_flow kind pin ins s)"
  by (cases pin) (auto simp: pin_flow_def logged_none neq_Nil_conv intro!: insert_logged auth_text_shape)

lemma disable_logged: "logged s (disableHashModeFlow ins s)"
  unfolding disableHashModeFlow_def by (rule insert_logged) (simp add: authCellText_def startsWith_def)

lemma refuse_logged: "logged s (insert_cell ins (authCellText Auth_refuse None) s)"
  by (rule insert_logged) (simp add: authCellText_def startsWith_def)

end

interpretation auth_log: cell_inserter "insertTopCell nbtype applied" "target_cells nbtype" for nbtype applied
proof
  fix t s
  show "fst (insertTopCell nbtype applied t s) \<Longrightarrow>
      target_cells nbtype (snd (insertTopCell nbtype applied t s)) = t # target_cells nbtype s"
    by (auto simp: insertTopCell_def findActive_target target_cells_def target_put_top put_top_def split: option.splits if_splits)
  show "\<not> fst (insertTopCell nbtype applied t s) \<Longrightarrow> snd (insertTopCell nbtype applied t s) = s"
    by (auto simp: insertTopCell_def split: option.splits if_splits)
qed

subsection \<open>The refusal loop\<close>

lemma refuse_from_returns:
  "warn m \<noteq> Some REFUSE_BUTTON_TELL_ME \<Longrightarrow> n \<le> m \<Longrightarrow> \<forall>k. n \<le> k \<and> k < m \<longrightarrow> warn k = Some REFUSE_BUTTON_TELL_ME \<Longrightarrow>
   refuse_from warn ins n s =
     Some (if warn m = Some REFUSE_BUTTON_ACCEPT then insert_cell ins (authCellText Auth_refuse None) s else (None, s))"
proof (induction "m - n" arbitrary: n)
  case 0
  then have "n = m" by simp
  then show ?case using 0 by (subst refuse_from.simps) simp
next
  case (Suc d)
  then have "warn n = Some REFUSE_BUTTON_TELL_ME" by simp
  moreover have "refuse_from warn ins (Suc n) s =
     Some (if warn m = Some REFUSE_BUTTON_ACCEPT then insert_cell ins (authCellText Auth_refuse None) s else (None, s))"
    using Suc by (intro Suc.hyps) auto
  ultimately show ?case by (subst refuse_from.simps) simp
qed

lemma refuse_from_answered: "refuse_from warn ins n s = Some r \<Longrightarrow> \<exists>m. warn m \<noteq> Some REFUSE_BUTTON_TELL_ME"
  by (erule refuse_from.raw_induct [where P = "\<lambda>warn ins n s r. \<exists>m. warn m \<noteq> Some REFUSE_BUTTON_TELL_ME", rotated])
    (metis option.distinct(1))

definition decisive :: "(nat \<Rightarrow> string option) \<Rightarrow> nat \<Rightarrow> bool" where
  "decisive warn m \<longleftrightarrow> warn m \<noteq> Some REFUSE_BUTTON_TELL_ME \<and> (\<forall>k < m. warn k = Some REFUSE_BUTTON_TELL_ME)"

lemma decisive_exists: "warn n \<noteq> Some REFUSE_BUTTON_TELL_ME \<Longrightarrow> \<exists>m. decisive warn m"
  unfolding decisive_def by (rule exI [of _ "LEAST m. warn m \<noteq> Some REFUSE_BUTTON_TELL_ME"])
    (metis (mono_tags, lifting) LeastI not_less_Least)

lemma refuse_flow_result:
  "decisive warn m \<Longrightarrow> refuseHashModeFlow warn ins s =
     Some (if warn m = Some REFUSE_BUTTON_ACCEPT then insert_cell ins (authCellText Auth_refuse None) s else (None, s))"
  unfolding refuseHashModeFlow_def decisive_def by (rule refuse_from_returns) auto

lemma pin_text_not_refuse: "authCellText Auth_set p \<noteq> ''@auth refuse'' \<and> authCellText Auth_rotate p \<noteq> ''@auth refuse'' \<and>
   authCellText Auth_verify p \<noteq> ''@auth refuse'' \<and> authCellText Auth_off p \<noteq> ''@auth refuse''"
  by (simp add: auth_texts) (simp add: authCellText_def)

text \<open>What a run of a flow leaves behind.\<close>

definition flow_ok :: "(nat \<Rightarrow> string option) \<Rightarrow> string \<Rightarrow> workspace \<Rightarrow> string option \<times> workspace \<Rightarrow> bool" where
  "flow_ok warn nbtype w rw \<longleftrightarrow>
     (case fst rw of None \<Rightarrow> snd rw = w
      | Some t \<Rightarrow> target_cells nbtype (snd rw) = t # target_cells nbtype w \<and> startsWith t ''@auth '') \<and>
     (fst rw = Some ''@auth refuse'' \<longrightarrow> (\<exists>m. decisive warn m \<and> warn m = Some REFUSE_BUTTON_ACCEPT))"

lemma flow_ok_logged:
  "flow_ok warn nbtype w rw \<longleftrightarrow> auth_log.logged nbtype w rw \<and>
     (fst rw = Some ''@auth refuse'' \<longrightarrow> (\<exists>m. decisive warn m \<and> warn m = Some REFUSE_BUTTON_ACCEPT))"
  by (simp only: flow_ok_def auth_log.logged_def)

lemma insert_cell_fst: "fst (insert_cell ins t s) = Some t \<or> fst (insert_cell ins t s) = None"
  by (simp add: insert_cell_def case_prod_beta)

lemma flow_ok_none: "flow_ok warn nbtype w (None, w)"
  by (simp add: flow_ok_def)

lemma pin_flow_ok:
  assumes "k \<noteq> Auth_refuse"
  shows "flow_ok warn nbtype w (pin_flow k pin (insertTopCell nbtype applied) w)"
proof -
  have "fst (pin_flow k pin (insertTopCell nbtype applied) w) \<noteq> Some ''@auth refuse''"
    using pin_text_not_refuse [of pin] insert_cell_fst [of "insertTopCell nbtype applied" "authCellText k pin" w] assms
    by (cases k) (auto simp: pin_flow_def split: option.split)
  then show ?thesis using auth_log.pin_flow_logged by (simp add: flow_ok_logged)
qed

lemma disable_flow_ok: "flow_ok warn nbtype w (disableHashModeFlow (insertTopCell nbtype applied) w)"
proof -
  have "fst (disableHashModeFlow (insertTopCell nbtype applied) w) \<noteq> Some ''@auth refuse''"
    using pin_text_not_refuse [of None] insert_cell_fst [of "insertTopCell nbtype applied" "authCellText Auth_off None" w]
    by (auto simp: disableHashModeFlow_def)
  then show ?thesis using auth_log.disable_logged by (simp add: flow_ok_logged)
qed

lemma refuse_flow_ok:
  assumes "decisive warn m"
  shows "\<exists>rw. refuseHashModeFlow warn (insertTopCell nbtype applied) w = Some rw \<and> flow_ok warn nbtype w rw"
proof (cases "warn m = Some REFUSE_BUTTON_ACCEPT")
  case True
  then show ?thesis using assms auth_log.refuse_logged
    by (simp add: refuse_flow_result [OF assms] flow_ok_logged) blast
qed (simp add: refuse_flow_result [OF assms] flow_ok_none)

definition returns_ok :: "(nat \<Rightarrow> string option) \<Rightarrow> string \<Rightarrow> workspace \<Rightarrow> (string option \<times> workspace) option \<Rightarrow> bool" where
  "returns_ok warn nbtype w x = (case x of None \<Rightarrow> False | Some rw \<Rightarrow> flow_ok warn nbtype w rw)"

lemma returns_ok_Some [simp]: "returns_ok warn nbtype w (Some rw) = flow_ok warn nbtype w rw"
  by (simp add: returns_ok_def)

lemma menu_ok:
  assumes "decisive warn m"
  shows "returns_ok warn nbtype w (openPinStatusMenu cfg pick pin warn (insertTopCell nbtype applied) w)"
proof -
  have "returns_ok warn nbtype w (refuseHashModeFlow warn (insertTopCell nbtype applied) w)"
    using refuse_flow_ok [OF assms, of nbtype applied w] by (auto simp: returns_ok_def)
  then have "returns_ok warn nbtype w (dispatchPinAction a pin warn (insertTopCell nbtype applied) w)" for a
    by (simp add: dispatchPinAction_def flow_ok_none setPinFlow_def rotatePinFlow_def verifyPinFlow_def pin_flow_ok disable_flow_ok)
  then show ?thesis by (simp add: openPinStatusMenu_def Let_def flow_ok_none split: option.split)
qed

subsection \<open>Properties\<close>

text \<open>C15. The pin menu: it returns unless the refusal warning is answered "tell me more" for ever
  (then it never returns), so one other answer is enough. Whatever the configuration, the
  picked action and the entered pin, a run either changes no notebook, or puts exactly one
  cell, the returned text, on top of the target notebook; that text is an \<open>@auth\<close> line, and it
  is the refusal only when the first answer that is not "tell me more" is the explicit
  acceptance.\<close>

theorem pin_menu_terminates:
  "((\<exists>r. refuseHashModeFlow warn (insertTopCell nbtype applied) w = Some r) \<longleftrightarrow>
      (\<exists>n. warn n \<noteq> Some REFUSE_BUTTON_TELL_ME)) \<and>
    (warn n \<noteq> Some REFUSE_BUTTON_TELL_ME \<longrightarrow>
      (\<exists>r w'. openPinStatusMenu cfg pick pin warn (insertTopCell nbtype applied) w = Some (r, w') \<and>
        (case r of None \<Rightarrow> w' = w
         | Some t \<Rightarrow> target_cells nbtype w' = t # target_cells nbtype w \<and> startsWith t ''@auth '') \<and>
        (r = Some ''@auth refuse'' \<longrightarrow> (\<exists>m. decisive warn m \<and> warn m = Some REFUSE_BUTTON_ACCEPT))))"
proof (intro conjI impI)
  let ?ins = "insertTopCell nbtype applied"
  show "(\<exists>r. refuseHashModeFlow warn ?ins w = Some r) \<longleftrightarrow> (\<exists>n. warn n \<noteq> Some REFUSE_BUTTON_TELL_ME)"
    using refuse_from_answered [of warn ?ins 0 w] decisive_exists refuse_flow_result [of warn _ ?ins w]
    unfolding refuseHashModeFlow_def by blast
  assume "warn n \<noteq> Some REFUSE_BUTTON_TELL_ME"
  then obtain m where "decisive warn m" using decisive_exists by blast
  from menu_ok [OF this, of nbtype w cfg pick pin applied]
  have "\<exists>rw. openPinStatusMenu cfg pick pin warn ?ins w = Some rw \<and> flow_ok warn nbtype w rw"
    by (cases "openPinStatusMenu cfg pick pin warn ?ins w") (auto simp: returns_ok_def)
  then show "\<exists>r w'. openPinStatusMenu cfg pick pin warn ?ins w = Some (r, w') \<and>
        (case r of None \<Rightarrow> w' = w
         | Some t \<Rightarrow> target_cells nbtype w' = t # target_cells nbtype w \<and> startsWith t ''@auth '') \<and>
        (r = Some ''@auth refuse'' \<longrightarrow> (\<exists>m. decisive warn m \<and> warn m = Some REFUSE_BUTTON_ACCEPT))"
    by (simp only: flow_ok_def split_paired_Ex fst_conv snd_conv)
qed

definition demo_workspace :: workspace where
  "demo_workspace = \<lparr>active_editor = None, notebooks = [\<lparr>anb_uri = ''n'', anb_type = ''llmnb'', anb_cells = [''x'']\<rparr>]\<rparr>"

definition demo_warn :: "nat \<Rightarrow> string option" where
  "demo_warn k = (if k = 0 then Some REFUSE_BUTTON_TELL_ME else Some REFUSE_BUTTON_ACCEPT)"

theorem pin_menu_terminates_witness:
  "demo_warn 1 \<noteq> Some REFUSE_BUTTON_TELL_ME \<and>
   (\<exists>r w'. openPinStatusMenu new_config (\<lambda>_. Some ACTION_REFUSE_HASH_MODE) None demo_warn (insertTopCell ''llmnb'' True) demo_workspace
      = Some (r, w') \<and> (case r of None \<Rightarrow> w' = demo_workspace
         | Some t \<Rightarrow> target_cells ''llmnb'' w' = t # target_cells ''llmnb'' demo_workspace \<and> startsWith t ''@auth ''))"
proof -
  have "demo_warn 1 \<noteq> Some REFUSE_BUTTON_TELL_ME" by code_simp
  then show ?thesis
    using pin_menu_terminates [of demo_warn "''llmnb''" True demo_workspace 1 new_config "\<lambda>_. Some ACTION_REFUSE_HASH_MODE" None]
    by blast
qed

end
