(* ===== verification/JS_Date.thy ===== *)
theory JS_Date
  imports RTS_Prelude "HOL-Library.Monad_Syntax"
begin

section \<open>Dates\<close>

text \<open>
  \<open>Date.parse\<close> and \<open>Date.prototype.toISOString\<close> of ECMAScript: time values are integral
  milliseconds since 1970 within 8.64e15 of it, the calendar is the proleptic Gregorian one.
  The strings of the date-time string format that determine an instant (a date, or a date
  with a time and an offset) are parsed; every other string, a local time included, is left
  to the implementation by the standard and is the argument \<open>other\<close>.
\<close>

subsection \<open>The calendar\<close>

definition ms_per_day :: int where
  "ms_per_day = 86400000"

definition max_time :: int where
  "max_time = 8640000000000000"

text \<open>\<open>DayFromYear\<close>: the day number of the first of January.\<close>

definition day_from_year :: "int \<Rightarrow> int" where
  "day_from_year y = 365 * (y - 1970) + (y - 1969) div 4 - (y - 1901) div 100 + (y - 1601) div 400"

definition leap_year :: "int \<Rightarrow> bool" where
  "leap_year y \<longleftrightarrow> y mod 4 = 0 \<and> (y mod 100 \<noteq> 0 \<or> y mod 400 = 0)"

definition days_in_year :: "int \<Rightarrow> int" where
  "days_in_year y = (if leap_year y then 366 else 365)"

text \<open>\<open>YearFromTime\<close>: the mean year length gives the year up to one.\<close>

definition year_of_day :: "int \<Rightarrow> int" where
  "year_of_day d =
     (let y = 1970 + 400 * d div 146097 in
      if day_from_year (y + 1) \<le> d then y + 1 else if d < day_from_year y then y - 1 else y)"

text \<open>The day of the year on which a month (1--12) starts; 13 is the end of the year.\<close>

definition month_start :: "bool \<Rightarrow> nat \<Rightarrow> int" where
  "month_start leap m =
     (if m \<le> 2 then [0, 0, 31] ! m
      else [59, 90, 120, 151, 181, 212, 243, 273, 304, 334, 365] ! (m - 3) + (if leap then 1 else 0))"

definition month_of :: "bool \<Rightarrow> int \<Rightarrow> nat" where
  "month_of leap d = length (takeWhile (\<lambda>m. month_start leap m \<le> d) [1..<13])"

definition make_day :: "int \<Rightarrow> nat \<Rightarrow> int \<Rightarrow> int" where
  "make_day y m d = day_from_year y + month_start (leap_year y) m + d - 1"

definition time_clip :: "int \<Rightarrow> int option" where
  "time_clip t = (if \<bar>t\<bar> \<le> max_time then Some t else None)"

lemma div_Suc_int: "0 < n \<Longrightarrow> (a + 1) div n = a div n + (if (a + 1) mod n = 0 then 1 else (0 :: int))"
proof -
  assume n: "0 < n"
  have q: "a = n * (a div n) + a mod n" "0 \<le> a mod n" "a mod n < n"
    using n by simp_all
  show ?thesis
  proof (cases "a mod n + 1 = n")
    case True
    have "a + 1 = n * (a div n) + (a mod n + 1)" using q by simp
    also have "\<dots> = n * (a div n + 1)" using True by (simp add: distrib_left)
    finally show ?thesis using n by simp
  next
    case False
    have e: "a + 1 = n * (a div n) + (a mod n + 1)" using q by simp
    have "(a + 1) div n = a div n" "(a + 1) mod n = a mod n + 1"
      using q False int_div_pos_eq [OF e] int_mod_pos_eq [OF e] by linarith+
    then show ?thesis using q by simp
  qed
qed

lemma day_from_year_Suc: "day_from_year (y + 1) = day_from_year y + days_in_year y"
proof -
  have m: "(y - c + 1) mod n = 0 \<longleftrightarrow> y mod n = 0" if "n dvd c - 1" for c n :: int
  proof -
    have "y - c + 1 = y - (c - 1)" by simp
    then show ?thesis using that by (metis diff_zero dvd_eq_mod_eq_0 mod_diff_right_eq)
  qed
  have 4: "(y + 1 - 1969) div 4 = (y - 1969) div 4 + (if y mod 4 = 0 then 1 else 0)"
    using div_Suc_int [of 4 "y - 1969"] m [of 4 1969] by (simp add: algebra_simps)
  have 100: "(y + 1 - 1901) div 100 = (y - 1901) div 100 + (if y mod 100 = 0 then 1 else 0)"
    using div_Suc_int [of 100 "y - 1901"] m [of 100 1901] by (simp add: algebra_simps)
  have 400: "(y + 1 - 1601) div 400 = (y - 1601) div 400 + (if y mod 400 = 0 then 1 else 0)"
    using div_Suc_int [of 400 "y - 1601"] m [of 400 1601] by (simp add: algebra_simps)
  have "y mod 400 = 0 \<Longrightarrow> y mod 100 = 0" "y mod 100 = 0 \<Longrightarrow> y mod 4 = 0"
    using mod_mod_cancel [of 100 400 y] mod_mod_cancel [of 4 100 y] by auto
  then show ?thesis
    unfolding day_from_year_def 4 100 400 days_in_year_def leap_year_def by (cases "y mod 4 = 0") auto
qed

lemma div_bounds_int: "0 < n \<Longrightarrow> n * (a div n) \<le> a \<and> a < n * (a div n) + (n :: int)"
  using mult_div_mod_eq [of n a] pos_mod_bound [of n a] pos_mod_sign [of n a] by linarith

lemma day_from_year_bounds:
  "146097 * (y - 1970) - 1000 \<le> 400 * day_from_year y"
  "400 * day_from_year y \<le> 146097 * (y - 1970) + 1000"
proof -
  define a b c where "a = (y - 1969) div 4" and "b = (y - 1901) div 100" and "c = (y - 1601) div 400"
  have "4 * a \<le> y - 1969" "y - 1969 < 4 * a + 4" "100 * b \<le> y - 1901" "y - 1901 < 100 * b + 100"
    "400 * c \<le> y - 1601" "y - 1601 < 400 * c + 400"
    unfolding a_def b_def c_def
    using div_bounds_int [of 4 "y - 1969"] div_bounds_int [of 100 "y - 1901"] div_bounds_int [of 400 "y - 1601"]
    by simp_all
  moreover have "day_from_year y = 365 * (y - 1970) + a - b + c"
    by (simp add: day_from_year_def a_def b_def c_def)
  ultimately show "146097 * (y - 1970) - 1000 \<le> 400 * day_from_year y"
    "400 * day_from_year y \<le> 146097 * (y - 1970) + 1000" by (simp_all add: algebra_simps)
qed

lemma year_of_day: "day_from_year (year_of_day d) \<le> d \<and> d < day_from_year (year_of_day d + 1)"
proof -
  define y where "y = 1970 + 400 * d div 146097"
  have q: "146097 * (y - 1970) \<le> 400 * d" "400 * d < 146097 * (y - 1970) + 146097"
    using div_bounds_int [of 146097 "400 * d"] by (simp_all add: y_def)
  have "d < day_from_year (y + 1 + 1)"
    using day_from_year_bounds(1) [of "y + 1 + 1"] q by (simp add: algebra_simps)
  moreover have "day_from_year (y - 1) \<le> d"
    using day_from_year_bounds(2) [of "y - 1"] q by (simp add: algebra_simps)
  ultimately show ?thesis
    unfolding year_of_day_def Let_def y_def [symmetric] by auto
qed

lemma day_from_year_mono: "y \<le> z \<Longrightarrow> day_from_year y \<le> day_from_year z"
proof (induction "nat (z - y)" arbitrary: z)
  case (Suc n)
  then have "day_from_year y \<le> day_from_year (z - 1)" by simp
  then show ?case using day_from_year_Suc [of "z - 1"] by (simp add: days_in_year_def split: if_splits)
qed simp

text \<open>The year of a day is the only one that contains it.\<close>

lemma year_of_day_unique: "day_from_year y \<le> d \<Longrightarrow> d < day_from_year (y + 1) \<Longrightarrow> year_of_day d = y"
  using year_of_day [of d] day_from_year_mono [of "y + 1" "year_of_day d"]
    day_from_year_mono [of "year_of_day d + 1" y]
  by linarith

lemma month_start_simps [simp]:
  "month_start l 1 = 0" "month_start l (Suc 0) = 0" "month_start l 2 = 31"
  "month_start l (Suc (Suc 0)) = 31"
  "month_start l 3 = 59 + of_bool l" "month_start l 4 = 90 + of_bool l" "month_start l 5 = 120 + of_bool l"
  "month_start l 6 = 151 + of_bool l" "month_start l 7 = 181 + of_bool l" "month_start l 8 = 212 + of_bool l"
  "month_start l 9 = 243 + of_bool l" "month_start l 10 = 273 + of_bool l" "month_start l 11 = 304 + of_bool l"
  "month_start l 12 = 334 + of_bool l" "month_start l 13 = 365 + of_bool l"
  by (simp_all add: month_start_def)

text \<open>Every day of a year is in exactly the month \<open>month_of\<close> gives.\<close>

lemma month_of:
  assumes "0 \<le> d" "d < 365 + of_bool l"
  shows "1 \<le> month_of l d" "month_of l d \<le> 12" "month_start l (month_of l d) \<le> d" "d < month_start l (month_of l d + 1)"
proof -
  let ?P = "\<lambda>m. month_start l m \<le> d"
  define m where "m = month_of l d"
  have m: "m = length (takeWhile ?P [1..<13])" by (simp add: m_def month_of_def)
  have le: "m \<le> 12" using length_takeWhile_le [of ?P "[1..<13]"] m by simp
  have "m \<noteq> 0"
  proof
    assume "m = 0"
    then have "\<not> ?P ([1..<13] ! 0)" using nth_length_takeWhile [of ?P "[1..<13]"] m by simp
    then show False using assms by simp
  qed
  then have ge: "1 \<le> m" by simp
  have "takeWhile ?P [1..<13] ! (m - 1) = [1..<13] ! (m - 1)" using takeWhile_nth [of "m - 1" ?P "[1..<13]"] m ge by simp
  moreover have "takeWhile ?P [1..<13] ! (m - 1) \<in> set (takeWhile ?P [1..<13])" using m ge by (intro nth_mem) simp
  ultimately have lo: "?P m" using ge le set_takeWhileD [of m ?P "[1..<13]"] by simp
  have hi: "d < month_start l (m + 1)"
  proof (cases "m = 12")
    case False
    then have "\<not> ?P ([1..<13] ! m)" using nth_length_takeWhile [of ?P "[1..<13]"] m le by simp
    then show ?thesis using False le by (simp del: upt_Suc)
  qed (use assms in simp)
  show "1 \<le> month_of l d" "month_of l d \<le> 12" "month_start l (month_of l d) \<le> d" "d < month_start l (month_of l d + 1)"
    using ge le lo hi by (simp_all add: m_def)
qed

subsection \<open>Printing\<close>

definition pad :: "nat \<Rightarrow> nat \<Rightarrow> string" where
  "pad w n = replicate (w - length (show_nat n)) (CHR ''0'') @ show_nat n"

definition iso_year_text :: "int \<Rightarrow> string" where
  "iso_year_text y =
     (if 0 \<le> y \<and> y \<le> 9999 then pad 4 (nat y)
      else if y < 0 then CHR ''-'' # pad 6 (nat (- y)) else CHR ''+'' # pad 6 (nat y))"

definition iso_time_text :: "nat \<Rightarrow> string" where
  "iso_time_text r =
     pad 2 (r div 3600000) @ '':'' @ pad 2 (r div 60000 mod 60) @ '':'' @ pad 2 (r div 1000 mod 60) @ ''.'' @
     pad 3 (r mod 1000) @ ''Z''"

definition iso_text :: "int \<Rightarrow> string" where
  "iso_text t =
     (let d = t div ms_per_day; y = year_of_day d; l = leap_year y; yd = d - day_from_year y; m = month_of l yd in
      iso_year_text y @ ''-'' @ pad 2 m @ ''-'' @ pad 2 (nat (yd - month_start l m + 1)) @ ''T'' @
      iso_time_text (nat (t mod ms_per_day)))"

text \<open>\<open>new Date(x).toISOString()\<close>: the constructor drops the fraction; \<open>None\<close> is the \<open>RangeError\<close> of an
  invalid date.\<close>

definition truncate_rat :: "rat \<Rightarrow> int" where
  "truncate_rat x = (if x < 0 then \<lceil>x\<rceil> else \<lfloor>x\<rfloor>)"

definition toISOString :: "rat \<Rightarrow> string option" where
  "toISOString x = map_option iso_text (time_clip (truncate_rat x))"

subsection \<open>Parsing\<close>

definition digits_n :: "nat \<Rightarrow> string \<Rightarrow> (nat \<times> string) option" where
  "digits_n n s =
     (if n \<le> length s \<and> list_all is_digit (take n s) then Some (nat_of_str (take n s), drop n s) else None)"

definition field :: "char \<Rightarrow> nat \<Rightarrow> string \<Rightarrow> (nat \<times> string) option" where
  "field c n s = (case s of d # r \<Rightarrow> if d = c then digits_n n r else None | [] \<Rightarrow> None)"

definition iso_year :: "string \<Rightarrow> (int \<times> string) option" where
  "iso_year s =
     (case s of
        [] \<Rightarrow> None
      | c # r \<Rightarrow>
          if c = CHR ''+'' then map_option (map_prod int id) (digits_n 6 r)
          else if c = CHR ''-'' then
            (case digits_n 6 r of Some (n, r') \<Rightarrow> if n = 0 then None else Some (- int n, r') | None \<Rightarrow> None)
          else map_option (map_prod int id) (digits_n 4 s))"

text \<open>A year, month and day, of which the later ones may be missing, as a day number.\<close>

definition day_if_valid :: "int \<Rightarrow> nat \<Rightarrow> nat \<Rightarrow> string \<Rightarrow> (int \<times> string) option" where
  "day_if_valid y m d r =
     (if 1 \<le> m \<and> m \<le> 12 \<and> 1 \<le> d \<and>
         int d \<le> month_start (leap_year y) (m + 1) - month_start (leap_year y) m
      then Some (make_day y m (int d), r) else None)"

definition iso_date :: "string \<Rightarrow> (int \<times> string) option" where
  "iso_date s = do {
     (y, s1) \<leftarrow> iso_year s;
     case field (CHR ''-'') 2 s1 of
       None \<Rightarrow> day_if_valid y 1 1 s1
     | Some (m, s2) \<Rightarrow>
         (case field (CHR ''-'') 2 s2 of
            None \<Rightarrow> day_if_valid y m 1 s2
          | Some (d, s3) \<Rightarrow> day_if_valid y m d s3) }"

definition time_if_valid :: "nat \<Rightarrow> nat \<Rightarrow> nat \<Rightarrow> nat \<Rightarrow> string \<Rightarrow> (int \<times> string) option" where
  "time_if_valid h mi sec ms r =
     (if (h < 24 \<or> h = 24 \<and> mi = 0 \<and> sec = 0 \<and> ms = 0) \<and> mi < 60 \<and> sec < 60
      then Some (int (((h * 60 + mi) * 60 + sec) * 1000 + ms), r) else None)"

definition iso_time :: "string \<Rightarrow> (int \<times> string) option" where
  "iso_time s = do {
     (h, s1) \<leftarrow> field (CHR ''T'') 2 s;
     (mi, s2) \<leftarrow> field (CHR '':'') 2 s1;
     case field (CHR '':'') 2 s2 of
       None \<Rightarrow> time_if_valid h mi 0 0 s2
     | Some (sec, s3) \<Rightarrow>
         (case field (CHR ''.'') 3 s3 of
            None \<Rightarrow> time_if_valid h mi sec 0 s3
          | Some (ms, s4) \<Rightarrow> time_if_valid h mi sec ms s4) }"

text \<open>The offset of the zone, which has to end the string.\<close>

definition iso_offset :: "string \<Rightarrow> int option" where
  "iso_offset s =
     (case s of
        [] \<Rightarrow> None
      | c # r \<Rightarrow>
          if c = CHR ''Z'' then (if r = [] then Some 0 else None)
          else if c = CHR ''+'' \<or> c = CHR ''-'' then do {
            (h, r1) \<leftarrow> digits_n 2 r;
            (m, r2) \<leftarrow> field (CHR '':'') 2 r1;
            if h < 24 \<and> m < 60 \<and> r2 = []
            then Some ((if c = CHR ''+'' then 1 else - 1) * int ((h * 60 + m) * 60000)) else None }
          else None)"

definition iso_parse :: "string \<Rightarrow> int option" where
  "iso_parse s = do {
     (d, r) \<leftarrow> iso_date s;
     if r = [] then Some (d * ms_per_day)
     else do { (t, z) \<leftarrow> iso_time r; off \<leftarrow> iso_offset z; Some (d * ms_per_day + t - off) } }"

text \<open>\<open>Date.parse\<close>; \<open>None\<close> is \<open>NaN\<close>.\<close>

definition date_parse :: "(string \<Rightarrow> int option) \<Rightarrow> string \<Rightarrow> int option" where
  "date_parse other s =
     (case iso_parse s of Some t \<Rightarrow> time_clip t | None \<Rightarrow> Option.bind (other s) time_clip)"

subsection \<open>Round trip\<close>

lemma length_show_nat_le: "n < 10 ^ w \<Longrightarrow> 0 < w \<Longrightarrow> length (show_nat n) \<le> w"
proof (induction n arbitrary: w rule: show_nat.induct)
  case (1 n)
  show ?case
  proof (cases "n < 10")
    case True
    with 1 show ?thesis by (subst show_nat.simps) simp
  next
    case False
    then obtain v where v: "w = Suc v" "0 < v" using 1(2,3) by (cases w) (auto, metis gr0I power_0 mult_1_right)
    then have "n div 10 < 10 ^ v" using 1(2) by (simp add: less_mult_imp_div_less mult.commute)
    with 1(1) [OF False] v False show ?thesis by (subst show_nat.simps) simp
  qed
qed

lemma length_pad: "n < 10 ^ w \<Longrightarrow> 0 < w \<Longrightarrow> length (pad w n) = w"
  using length_show_nat_le [of n w] by (simp add: pad_def)

lemma nat_of_str_pad: "nat_of_str (replicate k (CHR ''0'') @ s) = nat_of_str s"
proof -
  have "digit_val (CHR ''0'') = 0" by (simp add: digit_val_def)
  then have "foldl (\<lambda>a c. 10 * a + digit_val c) 0 (replicate k (CHR ''0'')) = 0" by (induction k) auto
  then show ?thesis by (simp add: nat_of_str_def)
qed

lemma digits_n_pad [simp]: "n < 10 ^ w \<Longrightarrow> 0 < w \<Longrightarrow> digits_n w (pad w n @ r) = Some (n, r)"
proof -
  assume n: "n < 10 ^ w" "0 < w"
  have "list_all is_digit (pad w n)"
    using show_nat_digits [of n] by (auto simp: pad_def list_all_iff is_digit_def)
  moreover have "nat_of_str (pad w n) = n" by (simp add: pad_def nat_of_str_pad)
  ultimately show ?thesis using length_pad [OF n] by (simp add: digits_n_def)
qed

lemma field_pad [simp]: "n < 10 ^ w \<Longrightarrow> 0 < w \<Longrightarrow> field c w (c # pad w n @ r) = Some (n, r)"
  by (simp add: field_def)

lemma hd_pad: "is_digit (hd (pad w n))"
proof -
  have "list_all is_digit (pad w n)" "pad w n \<noteq> []"
    using show_nat_digits [of n] by (auto simp: pad_def list_all_iff is_digit_def)
  then show ?thesis by (simp add: list_all_iff)
qed

lemma iso_year_text [simp]:
  assumes "\<bar>y\<bar> < 1000000"
  shows "iso_year (iso_year_text y @ r) = Some (y, r)"
proof -
  consider "0 \<le> y" "y \<le> 9999" | "y < 0" | "9999 < y" by linarith
  then show ?thesis
  proof cases
    case 1
    obtain c t where c: "pad 4 (nat y) = c # t" by (cases "pad 4 (nat y)") (auto simp: pad_def)
    then have "is_digit c" using hd_pad [of 4 "nat y"] by simp
    then have "c \<noteq> CHR ''+''" "c \<noteq> CHR ''-''" by (auto simp: is_digit_def)
    moreover have "digits_n 4 ((c # t) @ r) = Some (nat y, r)"
      using 1 digits_n_pad [of "nat y" 4 r] c by simp
    ultimately show ?thesis using 1 c by (simp add: iso_year_text_def iso_year_def)
  qed (use assms in \<open>simp_all add: iso_year_text_def iso_year_def\<close>)
qed

lemma year_of_day_bound: "\<bar>d\<bar> \<le> 100000000 \<Longrightarrow> \<bar>year_of_day d\<bar> < 1000000"
proof -
  assume d: "\<bar>d\<bar> \<le> 100000000"
  have "146097 * (year_of_day d - 1970) - 1000 \<le> 400 * d"
    using year_of_day [of d] day_from_year_bounds(1) [of "year_of_day d"] by linarith
  moreover have "400 * d < 146097 * (year_of_day d + 1 - 1970) + 1000"
    using year_of_day [of d] day_from_year_bounds(2) [of "year_of_day d + 1"] by linarith
  ultimately show ?thesis using d by (simp add: abs_if algebra_simps split: if_splits)
qed

lemma day_parts:
  fixes d :: int
  defines "y \<equiv> year_of_day d"
  defines "l \<equiv> leap_year y"
  defines "yd \<equiv> d - day_from_year y"
  defines "m \<equiv> month_of l yd"
  defines "k \<equiv> nat (yd - month_start l m + 1)"
  shows "m < 100" "k < 100" "day_if_valid y m k r = Some (d, r)"
proof -
  have "0 \<le> yd" "yd < 365 + of_bool l"
    using year_of_day [of d] day_from_year_Suc [of y]
    by (auto simp: yd_def y_def l_def days_in_year_def split: if_splits)
  note m = month_of [OF this, folded m_def]
  have k: "int k = yd - month_start l m + 1" using m by (simp add: k_def)
  have "month_start l (m + 1) - month_start l m \<le> 31"
  proof -
    have "m = 1 \<or> m = 2 \<or> m = 3 \<or> m = 4 \<or> m = 5 \<or> m = 6 \<or> m = 7 \<or> m = 8 \<or> m = 9 \<or> m = 10 \<or> m = 11 \<or> m = 12"
      using m(1,2) by presburger
    then show ?thesis by (elim disjE) simp_all
  qed
  with k m show "m < 100" "k < 100" by linarith+
  show "day_if_valid y m k r = Some (d, r)"
    using m k by (simp add: day_if_valid_def make_day_def l_def yd_def)
qed

lemma iso_time_text:
  assumes "n < 86400000"
  shows "iso_time (''T'' @ iso_time_text n) = Some (int n, ''Z'')"
proof -
  define a b where "a = n div 1000" and "b = a div 60"
  have q: "n div 60000 = b" "n div 3600000 = b div 60" by (simp_all add: a_def b_def div_mult2_eq [symmetric])
  have "b div 60 < 24" using assms q(2) by simp
  moreover have "n = 1000 * a + n mod 1000" "a = 60 * b + a mod 60" "b = 60 * (b div 60) + b mod 60"
    by (simp_all add: a_def b_def)
  then have "((b div 60 * 60 + b mod 60) * 60 + a mod 60) * 1000 + n mod 1000 = n" by (simp add: mult.commute)
  ultimately show ?thesis
    unfolding iso_time_def iso_time_text_def q a_def [symmetric] by (simp add: time_if_valid_def)
qed

lemma iso_parse_text [simp]: "\<bar>t\<bar> \<le> max_time \<Longrightarrow> iso_parse (iso_text t) = Some t"
proof -
  assume t: "\<bar>t\<bar> \<le> max_time"
  define d where "d = t div ms_per_day"
  have td: "t = d * ms_per_day + t mod ms_per_day" "0 \<le> t mod ms_per_day" "t mod ms_per_day < ms_per_day"
    by (simp_all add: d_def ms_per_day_def)
  then have "\<bar>d\<bar> \<le> 100000000" using t by (auto simp: max_time_def ms_per_day_def)
  then have y: "\<bar>year_of_day d\<bar> < 1000000" by (rule year_of_day_bound)
  note dp = day_parts [of d]
  have "iso_time (CHR ''T'' # iso_time_text (nat (t mod ms_per_day))) = Some (t mod ms_per_day, ''Z'')"
    using iso_time_text [of "nat (t mod ms_per_day)"] td(2,3) by (simp add: ms_per_day_def)
  moreover have "iso_offset ''Z'' = Some 0" by (simp add: iso_offset_def)
  ultimately show ?thesis using y dp td(1)
    unfolding iso_parse_def iso_text_def Let_def d_def [symmetric] by (simp add: iso_date_def)
qed

lemma date_parse_toISOString:
  "toISOString x = Some s \<Longrightarrow> date_parse other s = Some (truncate_rat x)"
  by (auto simp: toISOString_def date_parse_def time_clip_def split: if_splits)

text \<open>Evaluation on concrete strings.\<close>

lemmas date_eval = iso_parse_def iso_date_def iso_year_def digits_n_def field_def nat_of_str_def digit_val_def
  is_digit_def day_if_valid_def make_day_def leap_year_def day_from_year_def iso_time_def time_if_valid_def
  iso_offset_def ms_per_day_def date_parse_def time_clip_def max_time_def

end
