(* ===== verification/Sidebar_State.thy ===== *)
theory Sidebar_State
  imports JS_Date JS_Sort JSON_Text Observables
begin

section \<open>Sidebar data (\<open>extension/src/sidebar\<close>)\<close>

text \<open>
  What the sidebar derives from a \<open>metadata.rts\<close> snapshot: the in-flight run of an agent and
  its tooltip (\<open>agent-run-state.ts\<close>), the fork lineage (\<open>agent-lineage.ts\<close>), the fleet badge
  (\<open>view-badge.ts\<close>), colours and icons (\<open>badge-style.ts\<close>), and the stop button of an agent row
  (\<open>interrupt-agent-resolver.ts\<close>, \<open>interrupt-agent-command.ts\<close>). A snapshot is any value, as it
  comes from a file; \<open>other\<close> is what \<open>Date.parse\<close> makes of strings outside the standard format,
  \<open>dash\<close> the em dash.
\<close>

subsection \<open>Reading a snapshot\<close>

text \<open>\<open>snapshot?.zone?.k\<close>; \<open>v[k]\<close> for a computed key; \<open>String(v)\<close> as template literals apply it.\<close>

definition snap_zone :: "jsv \<Rightarrow> string \<Rightarrow> jsv" where
  "snap_zone snap k = jprop (jprop snap ''zone'') k"

fun jelem :: "jsv \<Rightarrow> string \<Rightarrow> jsv" where
  "jelem (JObj kvs) k = js_get kvs k"
| "jelem (JArr xs) k =
     (case array_index k of
        Some i \<Rightarrow> if i < length xs then xs ! i else JUndef
      | None \<Rightarrow> if k = ''length'' then num (int (length xs)) else JUndef)"
| "jelem (JStr s) k =
     (case array_index k of
        Some i \<Rightarrow> if i < length s then JStr [s ! i] else JUndef
      | None \<Rightarrow> if k = ''length'' then num (int (length s)) else JUndef)"
| "jelem _ k = JUndef"

fun js_String :: "jsv \<Rightarrow> string" where
  "js_String JUndef = ''undefined''"
| "js_String JNull = ''null''"
| "js_String (JBool b) = (if b then ''true'' else ''false'')"
| "js_String (JNum n) =
     (case n of PosInf \<Rightarrow> ''Infinity'' | NegInf \<Rightarrow> ''-Infinity'' | NaN \<Rightarrow> ''NaN'' | Fin r \<Rightarrow> show_num n)"
| "js_String (JBigInt n) = show_int n"
| "js_String (JStr s) = s"
| "js_String (JArr xs) = join '','' (map (\<lambda>x. if nullish x then [] else js_String x) xs)"
| "js_String (JObj kvs) = ''[object Object]''"

text \<open>\<open>for (const x of v)\<close>; \<open>None\<close> is the \<open>TypeError\<close> of a value that is not iterable.\<close>

fun iterate :: "jsv \<Rightarrow> jsv list option" where
  "iterate (JArr xs) = Some xs"
| "iterate (JStr s) = Some (map (\<lambda>c. JStr [c]) s)"
| "iterate _ = None"

text \<open>\<open>Date.parse(s)\<close> with 0 for \<open>NaN\<close>.\<close>

definition date_ms :: "(string \<Rightarrow> int option) \<Rightarrow> string \<Rightarrow> int" where
  "date_ms other s = (case date_parse other s of Some t \<Rightarrow> t | None \<Rightarrow> 0)"

subsection \<open>Run state\<close>

definition TERMINAL_STATUSES :: "string list" where
  "TERMINAL_STATUSES = [''complete'', ''completed'', ''error'', ''failed'', ''cancelled'']"

definition isInFlight :: "jsv \<Rightarrow> bool" where
  "isInFlight frame =
     (if \<not> nullish (jprop frame ''ended_at'') then False
      else case jprop frame ''status'' of JStr s \<Rightarrow> s \<notin> set TERMINAL_STATUSES | _ \<Rightarrow> True)"

definition startedAtMs :: "(string \<Rightarrow> int option) \<Rightarrow> jsv \<Rightarrow> int" where
  "startedAtMs other frame = (case jprop frame ''started_at'' of JStr s \<Rightarrow> date_ms other s | _ \<Rightarrow> 0)"

text \<open>The loops keep the best frame so far and its time, \<open>-1\<close> at the start.\<close>

definition keep_later :: "('a \<Rightarrow> bool) \<Rightarrow> ('a \<Rightarrow> int) \<Rightarrow> 'a \<Rightarrow> 'a option \<times> int \<Rightarrow> 'a option \<times> int" where
  "keep_later P ts x best = (if P x \<and> snd best < ts x then (Some x, ts x) else best)"

definition snapshot_frames :: "jsv \<Rightarrow> jsv list" where
  "snapshot_frames snap =
     (let frames = snap_zone snap ''run_frames'' in if is_objectlike frames then map snd (entries frames) else [])"

definition executed_by :: "string \<Rightarrow> jsv \<Rightarrow> bool" where
  "executed_by agentId frame \<longleftrightarrow> is_objectlike frame \<and> jprop frame ''executor_id'' = JStr agentId"

definition getActiveRunFrame :: "(string \<Rightarrow> int option) \<Rightarrow> string \<Rightarrow> jsv \<Rightarrow> jsv option" where
  "getActiveRunFrame other agentId snap =
     fst (fold (keep_later (\<lambda>f. executed_by agentId f \<and> isInFlight f) (startedAtMs other))
       (snapshot_frames snap) (None, -1))"

definition hasInFlightRun :: "(string \<Rightarrow> int option) \<Rightarrow> string \<Rightarrow> jsv \<Rightarrow> bool" where
  "hasInFlightRun other agentId snap \<longleftrightarrow> getActiveRunFrame other agentId snap \<noteq> None"

definition latest_start :: "(string \<Rightarrow> int option) \<Rightarrow> string \<Rightarrow> string \<Rightarrow> jsv \<Rightarrow> string" where
  "latest_start other dash agentId snap =
     (case fst (fold (keep_later (\<lambda>f. executed_by agentId f \<and> is_string (jprop f ''started_at'')) (startedAtMs other))
        (snapshot_frames snap) (None, -1)) of
        Some f \<Rightarrow> (case jprop f ''started_at'' of JStr s \<Rightarrow> if s \<noteq> [] then s else dash | _ \<Rightarrow> dash)
      | None \<Rightarrow> dash)"

definition lastActivity :: "(string \<Rightarrow> int option) \<Rightarrow> string \<Rightarrow> string \<Rightarrow> jsv \<Rightarrow> jsv \<Rightarrow> string" where
  "lastActivity other dash agentId snap created =
     (case created of
        JStr s \<Rightarrow> if s \<noteq> [] then s else latest_start other dash agentId snap
      | _ \<Rightarrow> latest_start other dash agentId snap)"

definition agent_of :: "jsv \<Rightarrow> string \<Rightarrow> jsv" where
  "agent_of snap agentId = jelem (snap_zone snap ''agents'') agentId"

definition session_status :: "jsv \<Rightarrow> jsv" where
  "session_status agent = coalesce (jprop (jprop agent ''session'') ''runtime_status'') (JStr ''idle'')"

definition array_items :: "jsv \<Rightarrow> jsv list" where
  "array_items v = (case v of JArr xs \<Rightarrow> xs | _ \<Rightarrow> [])"

definition buildAgentTooltipMarkdown :: "(string \<Rightarrow> int option) \<Rightarrow> string \<Rightarrow> string \<Rightarrow> jsv \<Rightarrow> string" where
  "buildAgentTooltipMarkdown other dash agentId snap =
     (let agent = agent_of snap agentId;
          turns = array_items (jprop agent ''turns'');
          latestTurn = (if turns \<noteq> [] then last turns else JUndef)
      in join [LF]
        ([''**'' @ agentId @ ''**'', []] @ [''- status: '' @ js_String (session_status agent)] @
         (case jprop latestTurn ''provider'' of JStr p \<Rightarrow> if p \<noteq> [] then [''- provider: '' @ p] else [] | _ \<Rightarrow> []) @
         [''- turns: '' @ show_nat (length turns)] @
         [''- last activity: '' @ lastActivity other dash agentId snap (jprop latestTurn ''created_at'')] @
         (case getActiveRunFrame other agentId snap of
            Some f \<Rightarrow> [''- $(loading~spin) run in flight: '' @ js_String (coalesce (jprop f ''run_id'') (JStr ''unknown''))]
          | None \<Rightarrow> [])))"

subsection \<open>Lineage\<close>

record fork_record =
  branchAgentId :: string
  sourceAgentId :: string
  atTurnId :: "string option"
  fork_case :: "string option"
  timestampMs :: rat

record lineage =
  parents :: "(string \<times> fork_record) list"
  children :: "(string \<times> fork_record list) list"

definition readTimestampMs :: "(string \<Rightarrow> int option) \<Rightarrow> jsv \<Rightarrow> rat" where
  "readTimestampMs other env =
     (case jprop env ''created_at'' of
        JStr s \<Rightarrow> of_int (date_ms other s)
      | _ \<Rightarrow>
        (case jprop env ''ts'' of
           JNum (Fin r) \<Rightarrow> r
         | JStr s \<Rightarrow> of_int (date_ms other s)
         | _ \<Rightarrow> 0))"

definition nonempty_str :: "jsv \<Rightarrow> string option" where
  "nonempty_str v = (case v of JStr s \<Rightarrow> if s \<noteq> [] then Some s else None | _ \<Rightarrow> None)"

text \<open>The parameters of a fork intent, if the entry is one.\<close>

definition fork_params :: "jsv \<Rightarrow> jsv option" where
  "fork_params entry =
     (if \<not> is_objectlike entry then None
      else if jprop entry ''kind'' = JStr ''agent_ref_move'' then None
      else if jprop entry ''message_type'' \<noteq> JStr ''operator.action'' then None
      else let payload = jprop entry ''payload'' in
        if \<not> is_objectlike payload \<or> jprop payload ''action_type'' \<noteq> JStr ''zone_mutate'' then None
        else let params = jprop payload ''parameters'' in
          if \<not> is_objectlike params \<or> jprop params ''intent_kind'' \<noteq> JStr ''fork_agent'' then None
          else Some params)"

definition extractForkRecord :: "(string \<Rightarrow> int option) \<Rightarrow> jsv \<Rightarrow> fork_record option" where
  "extractForkRecord other entry =
     (case fork_params entry of
        None \<Rightarrow> None
      | Some p \<Rightarrow>
        (case (nonempty_str (jprop p ''source_agent_id''), nonempty_str (jprop p ''new_agent_id'')) of
           (Some src, Some branch) \<Rightarrow>
             Some \<lparr>branchAgentId = branch, sourceAgentId = src, atTurnId = nonempty_str (jprop p ''at_turn_id''),
               fork_case = (if jprop p ''case'' = JStr ''A'' then Some ''A''
                            else if jprop p ''case'' = JStr ''B'' then Some ''B'' else None),
               timestampMs = readTimestampMs other entry\<rparr>
         | _ \<Rightarrow> None))"

definition add_fork :: "fork_record \<Rightarrow> lineage \<Rightarrow> lineage" where
  "add_fork rec l =
     \<lparr>parents = (if map_of (parents l) (branchAgentId rec) = None
                then map_set (branchAgentId rec) rec (parents l) else parents l),
      children = (case map_of (children l) (sourceAgentId rec) of
                    Some bucket \<Rightarrow> map_set (sourceAgentId rec) (bucket @ [rec]) (children l)
                  | None \<Rightarrow> map_set (sourceAgentId rec) [rec] (children l))\<rparr>"

text \<open>The sign of \<open>at - bt\<close>, a time of 0 counting as \<open>Number.MAX_SAFE_INTEGER\<close>.\<close>

definition fork_time :: "fork_record \<Rightarrow> rat" where
  "fork_time r = (if timestampMs r = 0 then 9007199254740991 else timestampMs r)"

definition compare_num :: "('a \<Rightarrow> rat) \<Rightarrow> 'a \<Rightarrow> 'a \<Rightarrow> int" where
  "compare_num f a b = (if f a - f b < 0 then -1 else if f a - f b > 0 then 1 else 0)"

definition add_entry :: "(string \<Rightarrow> int option) \<Rightarrow> jsv \<Rightarrow> lineage \<Rightarrow> lineage" where
  "add_entry other entry l = (case extractForkRecord other entry of None \<Rightarrow> l | Some rec \<Rightarrow> add_fork rec l)"

definition buildAgentLineage :: "(string \<Rightarrow> int option) \<Rightarrow> jsv \<Rightarrow> lineage option" where
  "buildAgentLineage other snap =
     (case iterate (coalesce (snap_zone snap ''event_log'') (JArr [])) of
        None \<Rightarrow> None
      | Some es \<Rightarrow>
          (let l = fold (add_entry other) es \<lparr>parents = [], children = []\<rparr>
           in Some (l\<lparr>children := map (\<lambda>(k, b). (k, js_sort (compare_num fork_time) b)) (children l)\<rparr>)))"

definition rootAgentIds :: "string list \<Rightarrow> lineage \<Rightarrow> string list" where
  "rootAgentIds agentIds l = filter (\<lambda>i. map_of (parents l) i = None) agentIds"

subsection \<open>The fleet badge, colours and icons\<close>

definition computeAliveAgentCount :: "jsv \<Rightarrow> nat" where
  "computeAliveAgentCount snap =
     (let agents = snap_zone snap ''agents'' in
      if \<not> is_objectlike agents then 0
      else length (filter (\<lambda>a. jprop (jprop a ''session'') ''runtime_status'' = JStr ''alive'') (map snd (entries agents))))"

definition computeAgentsViewBadge :: "jsv \<Rightarrow> (nat \<times> string) option" where
  "computeAgentsViewBadge snap =
     (let n = computeAliveAgentCount snap in
      if n = 0 then None
      else Some (n, if n = 1 then ''1 agent alive'' else show_nat n @ '' agents alive''))"

definition getAgentStatusBadgeColor :: "jsv \<Rightarrow> string" where
  "getAgentStatusBadgeColor st =
     (if st = JStr ''alive'' then ''charts.green'' else if st = JStr ''idle'' then ''charts.blue''
      else if st = JStr ''exited'' then ''charts.gray'' else if st = JStr ''terminated'' then ''charts.red''
      else ''foreground'')"

definition getSectionStatusBadgeColor :: "jsv \<Rightarrow> string" where
  "getSectionStatusBadgeColor st =
     (if st = JStr ''open'' then ''charts.blue'' else if st = JStr ''in_progress'' then ''charts.yellow''
      else if st = JStr ''complete'' then ''charts.green'' else if st = JStr ''frozen'' then ''charts.purple''
      else ''foreground'')"

subsection \<open>The stop button of an agent row\<close>

record interrupt_target =
  target_cell :: string
  target_run :: jsv

definition resolveInterruptTarget :: "string \<Rightarrow> jsv \<Rightarrow> (string \<Rightarrow> jsv \<Rightarrow> jsv option) \<Rightarrow> interrupt_target option" where
  "resolveInterruptTarget agentId snap lookup =
     (case lookup agentId snap of
        None \<Rightarrow> None
      | Some frame \<Rightarrow>
        (case nonempty_str (jprop frame ''cell_id'') of
           None \<Rightarrow> None
         | Some cell \<Rightarrow> Some \<lparr>target_cell = cell, target_run = coalesce (jprop frame ''run_id'') JNull\<rparr>))"

definition isAgentRunningContextValue :: "bool \<Rightarrow> string" where
  "isAgentRunningContextValue hasInFlight =
     (if hasInFlight then ''llmnb.sidebar.agent.running'' else ''llmnb.sidebar.agent'')"

text \<open>The command handler: what it logs or executes for a node's \<open>agentId\<close> and the metadata of the
  active zone at the time of the click.\<close>

datatype command_effect = Log_warn string | Execute_command string jsv

definition interruptAgentCommand :: "(string \<Rightarrow> int option) \<Rightarrow> jsv \<Rightarrow> jsv \<Rightarrow> command_effect" where
  "interruptAgentCommand other agentId snap =
     (case nonempty_str agentId of
        None \<Rightarrow> Log_warn ''[llmnb.sidebar.interruptAgent] no agent node; ignoring''
      | Some a \<Rightarrow>
        (case resolveInterruptTarget a snap (getActiveRunFrame other) of
           None \<Rightarrow> Log_warn (''[llmnb.sidebar.interruptAgent] '' @ a @ '' has no in-flight run; no-op'')
         | Some t \<Rightarrow> Execute_command ''llmnb.interruptCell''
             (JObj [(''agent_id'', JStr a), (''cell_id'', JStr (target_cell t))])))"

subsection \<open>Lemmas\<close>

text \<open>The frame kept is the first among the latest of those that qualify; nothing is kept exactly
  when none of them is later than the start value.\<close>

lemma keep_later_fold:
  fixes P :: "'a \<Rightarrow> bool" and ts :: "'a \<Rightarrow> int" and m :: int
  defines "go \<equiv> \<lambda>xs. fold (keep_later P ts) xs (None, m)"
  shows "fst (go xs) = None \<Longrightarrow> snd (go xs) = m \<and> (\<forall>y \<in> set xs. P y \<longrightarrow> ts y \<le> m)"
    and "fst (go xs) = Some x \<Longrightarrow> snd (go xs) = ts x \<and> (\<exists>pre post. xs = pre @ x # post \<and> P x \<and> m < ts x \<and>
      (\<forall>y \<in> set pre. P y \<longrightarrow> ts y < ts x) \<and> (\<forall>y \<in> set post. P y \<longrightarrow> ts y \<le> ts x))"
proof (induction xs arbitrary: x rule: rev_induct)
  case Nil
  { case 1 then show ?case by (simp add: go_def) }
  { case 2 then show ?case by (simp add: go_def) }
next
  case (snoc z xs)
  have step: "go (xs @ [z]) = keep_later P ts z (go xs)" by (simp add: go_def)
  { case 1
    then show ?case using snoc.IH(1) step by (auto simp: keep_later_def split: if_splits) }
  { case 2
    show ?case
    proof (cases "P z \<and> snd (go xs) < ts z")
      case True
      then have z: "x = z" "snd (go (xs @ [z])) = ts z" using 2 step by (auto simp: keep_later_def)
      have "m < ts z \<and> (\<forall>y \<in> set xs. P y \<longrightarrow> ts y < ts z)"
      proof (cases "fst (go xs)")
        case None
        then show ?thesis using snoc.IH(1) True by auto
      next
        case (Some w)
        from snoc.IH(2) [OF this] True show ?thesis by fastforce
      qed
      then show ?thesis using z True by (intro conjI exI [of _ xs] exI [of _ "[]"]) auto
    next
      case False
      then have go: "go (xs @ [z]) = go xs" using step by (auto simp: keep_later_def)
      with 2 have "fst (go xs) = Some x" by simp
      from snoc.IH(2) [OF this] obtain pre post where p: "snd (go xs) = ts x" "xs = pre @ x # post" "P x" "m < ts x"
        "\<forall>y \<in> set pre. P y \<longrightarrow> ts y < ts x" "\<forall>y \<in> set post. P y \<longrightarrow> ts y \<le> ts x" by blast
      then have "xs @ [z] = pre @ x # (post @ [z])" "\<forall>y \<in> set (post @ [z]). P y \<longrightarrow> ts y \<le> ts x"
        using False by auto
      then show ?thesis using p go by (intro conjI exI [of _ pre] exI [of _ "post @ [z]"]) auto
    qed }
qed

lemma keep_later_None_iff:
  "fst (fold (keep_later P ts) xs (None, m)) = None \<longleftrightarrow> (\<forall>y \<in> set xs. P y \<longrightarrow> ts y \<le> m)"
proof (cases "fst (fold (keep_later P ts) xs (None, m))")
  case None
  then show ?thesis using keep_later_fold(1) [of P ts xs m] by simp
next
  case (Some x)
  have "\<exists>pre post. xs = pre @ x # post \<and> P x \<and> m < ts x"
    using keep_later_fold(2) [of P ts xs m x] Some by blast
  then have "\<exists>y \<in> set xs. P y \<and> m < ts y" by auto
  with Some show ?thesis by auto
qed

lemma hasInFlightRun_iff:
  "hasInFlightRun other a snap \<longleftrightarrow>
     (\<exists>f \<in> set (snapshot_frames snap). executed_by a f \<and> isInFlight f \<and> 0 \<le> startedAtMs other f)"
  unfolding hasInFlightRun_def getActiveRunFrame_def keep_later_None_iff by force

lemma active_run_frame_latest:
  assumes "getActiveRunFrame other a snap = Some f"
  shows "f \<in> set (snapshot_frames snap)" "executed_by a f" "isInFlight f"
    "\<forall>g \<in> set (snapshot_frames snap). executed_by a g \<and> isInFlight g \<longrightarrow> startedAtMs other g \<le> startedAtMs other f"
proof -
  from keep_later_fold(2) [OF assms [unfolded getActiveRunFrame_def]] obtain pre post
    where "snapshot_frames snap = pre @ f # post" "executed_by a f" "isInFlight f"
      "\<forall>g \<in> set pre. executed_by a g \<and> isInFlight g \<longrightarrow> startedAtMs other g < startedAtMs other f"
      "\<forall>g \<in> set post. executed_by a g \<and> isInFlight g \<longrightarrow> startedAtMs other g \<le> startedAtMs other f"
    by blast
  then show "f \<in> set (snapshot_frames snap)" "executed_by a f" "isInFlight f"
    "\<forall>g \<in> set (snapshot_frames snap). executed_by a g \<and> isInFlight g \<longrightarrow> startedAtMs other g \<le> startedAtMs other f"
    by force+
qed

text \<open>The lineage maps as functions of the list of fork records.\<close>

interpretation by_num: comparator "compare_num f" for f
  by unfold_locales (auto simp: compare_num_def split: if_splits)

lemma add_entry_fold: "fold (add_entry other) es l = fold add_fork (List.map_filter (extractForkRecord other) es) l"
  by (induction es arbitrary: l) (auto simp: add_entry_def List.map_filter_simps split: option.splits)

lemma find_snoc: "find P (xs @ [x]) = (case find P xs of None \<Rightarrow> if P x then Some x else None | Some y \<Rightarrow> Some y)"
  by (induction xs) auto

abbreviation no_forks :: lineage where
  "no_forks \<equiv> \<lparr>parents = [], children = []\<rparr>"

lemma parents_add_forks:
  "map_of (parents (fold add_fork rs no_forks)) b = find (\<lambda>r. branchAgentId r = b) rs"
  by (induction rs rule: rev_induct) (auto simp: add_fork_def find_snoc split: option.splits)

lemma children_add_forks:
  "map_of (children (fold add_fork rs no_forks)) s =
     (let rs' = filter (\<lambda>r. sourceAgentId r = s) rs in if rs' = [] then None else Some rs')"
proof (induction rs arbitrary: s rule: rev_induct)
  case (snoc r rs)
  show ?case using snoc [of "sourceAgentId r"] snoc [of s]
    by (auto simp: add_fork_def Let_def split: option.splits if_splits)
qed simp

lemmas add_fork_fold = parents_add_forks children_add_forks

definition fork_records :: "(string \<Rightarrow> int option) \<Rightarrow> jsv list \<Rightarrow> fork_record list" where
  "fork_records other es = List.map_filter (extractForkRecord other) es"

lemma map_of_map_values: "map_of (map (\<lambda>(k, v). (k, f v)) m) k = map_option f (map_of m k)"
  by (induction m) auto

lemma buildAgentLineage_spec:
  assumes "iterate (coalesce (snap_zone snap ''event_log'') (JArr [])) = Some es"
  obtains l where "buildAgentLineage other snap = Some l"
    "\<And>b. map_of (parents l) b = find (\<lambda>r. branchAgentId r = b) (fork_records other es)"
    "\<And>s. map_of (children l) s =
       (let rs = filter (\<lambda>r. sourceAgentId r = s) (fork_records other es)
        in if rs = [] then None else Some (js_sort (compare_num fork_time) rs))"
  using assms that
  by (auto simp: buildAgentLineage_def Let_def add_entry_fold fork_records_def [symmetric] add_fork_fold map_of_map_values)

text \<open>A claim on the lineage needs the comparator in terms of times.\<close>

lemma compare_num_le [simp]: "compare_num f a b \<le> 0 \<longleftrightarrow> f a \<le> f b"
  by (auto simp: compare_num_def)

lemma js_sort_num_sorted: "sorted_wrt (\<lambda>a b. f a \<le> f b) (js_sort (compare_num f) xs)"
  using by_num.sorted_js_sort [of f xs] by simp

lemma js_sort_num_stable: "filter (\<lambda>z. f z = t) (js_sort (compare_num f) xs) = filter (\<lambda>z. f z = t) xs"
proof (cases "\<exists>x \<in> set xs. f x = t")
  case True
  then obtain x where "f x = t" by blast
  moreover have "(\<lambda>z. f z \<le> f x \<and> f x \<le> f z) = (\<lambda>z. f z = f x)" by (auto simp: fun_eq_iff)
  ultimately show ?thesis using by_num.js_sort_stable [where f = f and x = x and xs = xs] by simp
next
  case False
  then show ?thesis by (simp add: filter_empty_conv [THEN iffD2])
qed

text \<open>The fork lineage. Whatever the log contains, as long as it can be iterated, the lineage is
  built: the parent of a branch is the first fork that created it, the branches of an agent
  are exactly its forks, ordered by time with unknown times counting as the largest safe
  integer and equal times in log order, and the root agents are those no fork created.\<close>

theorem lineage_spec:
  assumes "iterate (coalesce (snap_zone snap ''event_log'') (JArr [])) = Some es"
  shows "\<exists>l. buildAgentLineage other snap = Some l \<and>
    (\<forall>b. map_of (parents l) b = find (\<lambda>r. branchAgentId r = b) (fork_records other es)) \<and>
    (\<forall>s. let rs = filter (\<lambda>r. sourceAgentId r = s) (fork_records other es);
             bs = (case map_of (children l) s of Some b \<Rightarrow> b | None \<Rightarrow> [])
         in mset bs = mset rs \<and> sorted_wrt (\<lambda>a b. fork_time a \<le> fork_time b) bs \<and>
            (\<forall>t. filter (\<lambda>r. fork_time r = t) bs = filter (\<lambda>r. fork_time r = t) rs)) \<and>
    rootAgentIds ids l = filter (\<lambda>i. \<forall>r \<in> set (fork_records other es). branchAgentId r \<noteq> i) ids"
proof -
  obtain l where l: "buildAgentLineage other snap = Some l"
    "\<And>b. map_of (parents l) b = find (\<lambda>r. branchAgentId r = b) (fork_records other es)"
    "\<And>s. map_of (children l) s = (let rs = filter (\<lambda>r. sourceAgentId r = s) (fork_records other es)
        in if rs = [] then None else Some (js_sort (compare_num fork_time) rs))"
    by (rule buildAgentLineage_spec [OF assms, where other = other]) blast
  have bucket: "(case map_of (children l) s of Some b \<Rightarrow> b | None \<Rightarrow> []) =
      js_sort (compare_num fork_time) (filter (\<lambda>r. sourceAgentId r = s) (fork_records other es))" for s
    by (simp add: l(3) Let_def)
  have roots: "rootAgentIds ids l = filter (\<lambda>i. \<forall>r \<in> set (fork_records other es). branchAgentId r \<noteq> i) ids"
    unfolding rootAgentIds_def l(2) by (rule filter_cong) (auto simp: find_None_iff)
  show ?thesis
  proof (intro exI [of _ l] conjI allI l(1,2) roots, unfold Let_def bucket, intro conjI allI)
  qed (simp_all add: js_sort_num_sorted js_sort_num_stable del: filter_filter)
qed

definition fork_entry :: "string \<Rightarrow> string \<Rightarrow> int \<Rightarrow> jsv" where
  "fork_entry src branch t = JObj [(''message_type'', JStr ''operator.action''), (''ts'', num t),
     (''payload'', JObj [(''action_type'', JStr ''zone_mutate''), (''parameters'', JObj [
        (''intent_kind'', JStr ''fork_agent''), (''source_agent_id'', JStr src), (''new_agent_id'', JStr branch)])])]"

definition fork_snapshot :: jsv where
  "fork_snapshot = JObj [(''zone'', JObj [(''event_log'',
     JArr [fork_entry ''a'' ''c'' 0, JNull, fork_entry ''a'' ''b'' 5, fork_entry ''b'' ''c'' 9])])]"

theorem lineage_spec_witness:
  "\<exists>l. buildAgentLineage (\<lambda>_. None) fork_snapshot = Some l \<and>
     map_option sourceAgentId (map_of (parents l) ''c'') = Some ''a'' \<and> rootAgentIds [''a'', ''b'', ''c''] l = [''a'']"
proof -
  let ?es = "[fork_entry ''a'' ''c'' 0, JNull, fork_entry ''a'' ''b'' 5, fork_entry ''b'' ''c'' 9]"
  have log: "iterate (coalesce (snap_zone fork_snapshot ''event_log'') (JArr [])) = Some ?es"
    by (simp add: fork_snapshot_def snap_zone_def js_get_def coalesce_def nullish_def)
  have recs: "map (\<lambda>r. (sourceAgentId r, branchAgentId r)) (fork_records (\<lambda>_. None) ?es) =
      [(''a'', ''c''), (''a'', ''b''), (''b'', ''c'')]"
    by code_simp
  then obtain r1 r2 r3 where rs: "fork_records (\<lambda>_. None) ?es = [r1, r2, r3]" "sourceAgentId r1 = ''a''"
    "branchAgentId r1 = ''c''" "branchAgentId r2 = ''b''" "branchAgentId r3 = ''c''"
    by (auto simp: map_eq_Cons_conv)
  show ?thesis
    using lineage_spec [OF log, of "\<lambda>_. None" "[''a'', ''b'', ''c'']"] rs by auto
qed

end
