(* ===== verification/JS_Uri.thy ===== *)
theory JS_Uri
  imports JS_Strings
begin

section \<open>Percent encoding\<close>

text \<open>
  \<open>encodeURIComponent\<close> and \<open>decodeURIComponent\<close>. A string of the model has code units below
  256, of which the encoder writes those outside the unreserved set as the bytes of their
  UTF-8 form. The decoder reads UTF-8 of any length and yields UTF-16 code units, so its
  result is a list of numbers; \<open>None\<close> is the \<open>URIError\<close>.
\<close>

definition uri_unreserved :: "char \<Rightarrow> bool" where
  "uri_unreserved c \<longleftrightarrow> is_word c \<or> c \<in> set ''-.!~*()'' \<or> c = CHR 0x27"

definition upper_hex :: "nat \<Rightarrow> char" where
  "upper_hex n = (if n < 10 then char_of (48 + n) else char_of (55 + n))"

definition percent :: "nat \<Rightarrow> string" where
  "percent b = [CHR ''%'', upper_hex (b div 16), upper_hex (b mod 16)]"

definition utf8 :: "nat \<Rightarrow> nat list" where
  "utf8 n = (if n < 128 then [n] else [192 + n div 64, 128 + n mod 64])"

definition encode_char :: "char \<Rightarrow> string" where
  "encode_char c = (if uri_unreserved c then [c] else concat (map percent (utf8 (of_char c))))"

definition encodeURIComponent :: "string \<Rightarrow> string" where
  "encodeURIComponent s = concat (map encode_char s)"

definition hex_value :: "char \<Rightarrow> nat option" where
  "hex_value c =
     (if in_range CHR ''0'' CHR ''9'' c then Some (of_char c - 48)
      else if in_range CHR ''A'' CHR ''F'' c then Some (of_char c - 55)
      else if in_range CHR ''a'' CHR ''f'' c then Some (of_char c - 87)
      else None)"

text \<open>The code units between the escapes, and the bytes of the escapes.\<close>

datatype uri_unit = Lit nat | Byte nat

fun uri_units :: "string \<Rightarrow> uri_unit list option" where
  "uri_units [] = Some []"
| "uri_units (c # s) =
     (if c \<noteq> CHR ''%'' then map_option (Cons (Lit (of_char c))) (uri_units s)
      else case s of
        a # b # r \<Rightarrow>
          (case (hex_value a, hex_value b) of
             (Some x, Some y) \<Rightarrow> map_option (Cons (Byte (16 * x + y))) (uri_units r)
           | _ \<Rightarrow> None)
      | _ \<Rightarrow> None)"

text \<open>How many continuation bytes a leading byte asks for, and the value bits it has.\<close>

definition trailing :: "nat \<Rightarrow> (nat \<times> nat) option" where
  "trailing b =
     (if b < 128 then Some (0, b) else if b < 192 then None else if b < 224 then Some (1, b - 192)
      else if b < 240 then Some (2, b - 224) else if b < 248 then Some (3, b - 240) else None)"

fun continuation_bits :: "uri_unit \<Rightarrow> nat option" where
  "continuation_bits (Lit n) = None"
| "continuation_bits (Byte b) = (if 128 \<le> b \<and> b < 192 then Some (b - 128) else None)"

fun code_point :: "nat \<Rightarrow> uri_unit list \<Rightarrow> nat option" where
  "code_point acc [] = Some acc"
| "code_point acc (u # us) =
     (case continuation_bits u of Some x \<Rightarrow> code_point (64 * acc + x) us | None \<Rightarrow> None)"

text \<open>Overlong forms, surrogates and code points beyond U+10FFFF are refused.\<close>

definition valid_point :: "nat \<Rightarrow> nat \<Rightarrow> bool" where
  "valid_point k v \<longleftrightarrow> [0, 128, 2048, 65536] ! k \<le> v \<and> v \<le> 1114111 \<and> \<not> (55296 \<le> v \<and> v \<le> 57343)"

definition utf16 :: "nat \<Rightarrow> nat list" where
  "utf16 v = (if v < 65536 then [v] else [55296 + (v - 65536) div 1024, 56320 + (v - 65536) mod 1024])"

function decode_units :: "uri_unit list \<Rightarrow> nat list option" where
  "decode_units [] = Some []"
| "decode_units (Lit n # us) = map_option (Cons n) (decode_units us)"
| "decode_units (Byte b # us) =
     (case trailing b of
        None \<Rightarrow> None
      | Some (k, x) \<Rightarrow>
          if length us < k then None
          else case code_point x (take k us) of
            None \<Rightarrow> None
          | Some v \<Rightarrow> if valid_point k v then map_option (append (utf16 v)) (decode_units (drop k us)) else None)"
  by pat_completeness auto
termination by (relation "measure length") auto

definition decodeURIComponent :: "string \<Rightarrow> nat list option" where
  "decodeURIComponent s = Option.bind (uri_units s) decode_units"

definition code_units :: "string \<Rightarrow> nat list" where
  "code_units s = map of_char s"

text \<open>The string of the model with given code units, if there is one.\<close>

definition string_of_units :: "nat list \<Rightarrow> string option" where
  "string_of_units ns = (if \<forall>n \<in> set ns. n < 256 then Some (map char_of ns) else None)"

subsection \<open>Lemmas\<close>

lemma hex_upper_hex [simp]: "n < 16 \<Longrightarrow> hex_value (upper_hex n) = Some n"
  by (auto simp: hex_value_def upper_hex_def in_range_def)

lemma uri_units_percent: "b < 256 \<Longrightarrow> uri_units (percent b @ s) = map_option (Cons (Byte b)) (uri_units s)"
  by (simp add: percent_def)

lemma decode_units_utf8:
  "n < 256 \<Longrightarrow> decode_units (map Byte (utf8 n) @ us) = map_option (Cons n) (decode_units us)"
proof (cases "n < 128")
  case True
  then show ?thesis
    by (cases "decode_units us") (simp_all add: utf8_def trailing_def valid_point_def utf16_def)
next
  case False
  assume n: "n < 256"
  have d: "n div 64 < 4" "n mod 64 < 64" "64 * (n div 64) + n mod 64 = n" using n by auto
  have t: "trailing (192 + n div 64) = Some (1, n div 64)" using d by (simp add: trailing_def)
  have c: "continuation_bits (Byte (128 + n mod 64)) = Some (n mod 64)" using d by simp
  have v: "valid_point 1 n" "utf16 n = [n]" using n False by (simp_all add: valid_point_def utf16_def)
  show ?thesis using False t c v d(3)
    by (cases "decode_units us") (simp_all add: utf8_def del: continuation_bits.simps)
qed

lemma uri_units_bytes:
  "\<forall>b \<in> set bs. b < 256 \<Longrightarrow> uri_units (concat (map percent bs) @ s) = map_option (append (map Byte bs)) (uri_units s)"
  by (cases "uri_units s"; induction bs) (simp_all add: uri_units_percent)

lemma utf8_bytes: "n < 256 \<Longrightarrow> b \<in> set (utf8 n) \<Longrightarrow> b < 256"
  by (auto simp: utf8_def split: if_splits)

lemma of_char_less [simp]: "(of_char c :: nat) < 256"
  by (rule nat_of_char_less_256)

lemma percent_reserved: "\<not> uri_unreserved (CHR ''%'')"
  by (simp add: uri_unreserved_def is_word_def is_name_start_def in_range_def)

theorem decode_encode_uri: "decodeURIComponent (encodeURIComponent s) = Some (code_units s)"
proof -
  have "\<exists>us. uri_units (encodeURIComponent s) = Some us \<and> decode_units us = Some (code_units s)"
  proof (induction s)
    case (Cons c s)
    then obtain us where us: "uri_units (encodeURIComponent s) = Some us" "decode_units us = Some (code_units s)"
      by blast
    have "of_char c < (256 :: nat)" by simp
    then show ?case
      using us decode_units_utf8 [of "of_char c" us] percent_reserved
        uri_units_bytes [of "utf8 (of_char c)" "encodeURIComponent s"] utf8_bytes [of "of_char c"]
      by (cases "uri_unreserved c") (auto simp: encodeURIComponent_def encode_char_def code_units_def)
  qed (simp add: encodeURIComponent_def code_units_def)
  then show ?thesis by (auto simp: decodeURIComponent_def)
qed

lemma string_of_code_units [simp]: "string_of_units (code_units s) = Some s"
  by (auto simp: string_of_units_def code_units_def comp_def)

text \<open>An encoded component contains no separator and is empty only for the empty string.\<close>

lemma upper_hex_word: "n < 16 \<Longrightarrow> is_word (upper_hex n)"
  by (auto simp: upper_hex_def is_word_def is_name_start_def in_range_def)

lemma percent_chars: "b < 256 \<Longrightarrow> d \<in> set (percent b) \<Longrightarrow> is_word d \<or> d = CHR ''%''"
  by (auto simp: percent_def intro: upper_hex_word)

lemma encode_char_chars: "d \<in> set (encode_char c) \<Longrightarrow> uri_unreserved d \<or> d = CHR ''%''"
proof -
  assume "d \<in> set (encode_char c)"
  then have "uri_unreserved d \<or> (\<exists>b \<in> set (utf8 (of_char c)). d \<in> set (percent b))"
    by (auto simp: encode_char_def split: if_splits)
  then show ?thesis
    using percent_chars utf8_bytes [of "of_char c"] by (auto simp: uri_unreserved_def)
qed

lemma slash_notin_encoded: "CHR ''/'' \<notin> set (encodeURIComponent s)"
proof
  assume "CHR ''/'' \<in> set (encodeURIComponent s)"
  then obtain c where "CHR ''/'' \<in> set (encode_char c)" by (auto simp: encodeURIComponent_def)
  then show False using encode_char_chars [of "CHR ''/''" c]
    by (auto simp: uri_unreserved_def is_word_def is_name_start_def in_range_def)
qed

lemma encoded_empty_iff [simp]: "encodeURIComponent s = [] \<longleftrightarrow> s = []"
  by (cases s) (auto simp: encodeURIComponent_def encode_char_def utf8_def percent_def)

end
