(* ===== verification/Agent_Decorations.thy ===== *)
theory Agent_Decorations
  imports Sidebar_State JS_Uri
begin

section \<open>Agent decorations (\<open>agent-decoration-logic.ts\<close>, \<open>agent-decorations.ts\<close>)\<close>

text \<open>
  The exception condition of an agent, its badge, the resource URI the tree rows and the
  provider share, and the provider with its memo of conditions. \<open>run_glyph\<close> and \<open>end_glyph\<close> are
  the two badge characters outside the modelled strings; \<open>uri_text\<close> is what
  \<open>vscode.Uri.parse(s).toString()\<close> yields.
\<close>

datatype agent_condition = Attention | Running_now | Terminated

definition ATTENTION_KINDS :: "string list" where
  "ATTENTION_KINDS = [''question'', ''decision'']"

definition SETTLED_RUN_STATUSES :: "string list" where
  "SETTLED_RUN_STATUSES = [''complete'', ''completed'', ''error'', ''failed'', ''cancelled'']"

definition hasInFlightRunFrame :: "string \<Rightarrow> jsv \<Rightarrow> bool" where
  "hasInFlightRunFrame agentId snap =
     list_ex (\<lambda>f. executed_by agentId f \<and> nullish (jprop f ''ended_at'') \<and>
        (case jprop f ''status'' of JStr s \<Rightarrow> s | _ \<Rightarrow> []) \<notin> set SETTLED_RUN_STATUSES)
       (snapshot_frames snap)"

subsection \<open>Tagged spans\<close>

text \<open>
  \<open>getStringAttr\<close> over the attributes of a span as they stand in the snapshot: the last one with
  the key, decoded, if that is a string. An \<open>arrayValue\<close> or \<open>kvlistValue\<close> decodes to an array
  or an object. Agreement with the attribute model is the lemma \<open>attr_string_json\<close>.
\<close>

definition string_or_empty :: "jsv \<Rightarrow> string" where
  "string_or_empty v = (case v of JStr s \<Rightarrow> s | _ \<Rightarrow> [])"

definition attr_string :: "jsv \<Rightarrow> string" where
  "attr_string v =
     (if jprop v ''stringValue'' \<noteq> JUndef then string_or_empty (jprop v ''stringValue'')
      else if jprop v ''boolValue'' \<noteq> JUndef then string_or_empty (jprop v ''boolValue'')
      else if jprop v ''intValue'' \<noteq> JUndef then
        (case jprop v ''intValue'' of JStr s \<Rightarrow> string_or_empty (decode_int s) | _ \<Rightarrow> [])
      else if jprop v ''doubleValue'' \<noteq> JUndef then string_or_empty (jprop v ''doubleValue'')
      else if truthy (jprop v ''arrayValue'') \<or> truthy (jprop v ''kvlistValue'') then []
      else string_or_empty (jprop v ''bytesValue''))"

definition span_attr :: "jsv list \<Rightarrow> string \<Rightarrow> string" where
  "span_attr attrs key =
     (case find (\<lambda>a. jprop a ''key'' = JStr key) (rev attrs) of
        Some a \<Rightarrow> attr_string (jprop a ''value'') | None \<Rightarrow> [])"

text \<open>\<open>Number(s)\<close> of a digit string: the double nearest to its value, ties to even, \<open>None\<close> for
  \<open>Infinity\<close>.\<close>

definition nearest_double :: "nat \<Rightarrow> nat" where
  "nearest_double n =
     (let u = 2 ^ (floorlog 2 n - 53); q = n div u; r = n mod u in
      (if 2 * r < u \<or> 2 * r = u \<and> even q then q else q + 1) * u)"

definition digits_number :: "string \<Rightarrow> nat option" where
  "digits_number s =
     (let v = nearest_double (nat_of_str s) in if v < 2 ^ 1024 then Some v else None)"

definition parseNanosToMs :: "(string \<Rightarrow> int option) \<Rightarrow> jsv \<Rightarrow> int" where
  "parseNanosToMs other v =
     (case v of
        JStr s \<Rightarrow>
          if s = [] then 0
          else if \<not> list_all is_digit s then date_ms other s
          else if length s \<le> 6 then 0
          else (case digits_number (take (length s - 6) s) of Some n \<Rightarrow> int n | None \<Rightarrow> 0)
      | _ \<Rightarrow> 0)"

definition span_attrs :: "jsv \<Rightarrow> jsv list option" where
  "span_attrs sp =
     (if \<not> is_objectlike sp then None
      else case jprop sp ''attributes'' of
        JArr xs \<Rightarrow> Some (filter (\<lambda>a. is_objectlike a \<and> is_string (jprop a ''key'')) xs)
      | _ \<Rightarrow> None)"

definition tagged_kind :: "string \<Rightarrow> jsv \<Rightarrow> string option" where
  "tagged_kind agentId sp =
     (case span_attrs sp of
        None \<Rightarrow> None
      | Some attrs \<Rightarrow>
          if span_attr attrs ''llmnb.agent_id'' \<noteq> agentId then None
          else let kind = span_attr attrs ''llmnb.output.kind'' in if kind = [] then None else Some kind)"

definition keep_latest_kind :: "(string \<Rightarrow> int option) \<Rightarrow> string \<Rightarrow> jsv \<Rightarrow> string option \<times> int \<Rightarrow> string option \<times> int" where
  "keep_latest_kind other agentId sp best =
     (case tagged_kind agentId sp of
        None \<Rightarrow> best
      | Some kind \<Rightarrow>
          (let ts = parseNanosToMs other (jprop sp ''startTimeUnixNano'') in
           if snd best \<le> ts then (Some kind, ts) else best))"

definition latestTaggedSpanKind :: "(string \<Rightarrow> int option) \<Rightarrow> string \<Rightarrow> jsv \<Rightarrow> string option" where
  "latestTaggedSpanKind other agentId snap =
     (case jprop (jprop snap ''event_log'') ''runs'' of
        JArr runs \<Rightarrow> fst (fold (keep_latest_kind other agentId) runs (None, -1))
      | _ \<Rightarrow> None)"

subsection \<open>Conditions and badges\<close>

definition deriveAgentCondition :: "(string \<Rightarrow> int option) \<Rightarrow> string \<Rightarrow> jsv \<Rightarrow> agent_condition option" where
  "deriveAgentCondition other agentId snap =
     (if agentId = [] \<or> \<not> is_objectlike snap then None
      else if (case latestTaggedSpanKind other agentId snap of Some k \<Rightarrow> k \<in> set ATTENTION_KINDS | None \<Rightarrow> False)
      then Some Attention
      else if hasInFlightRunFrame agentId snap then Some Running_now
      else if jprop (jprop (agent_of snap agentId) ''session'') ''runtime_status'' = JStr ''terminated''
      then Some Terminated
      else None)"

fun conditionToDecoration :: "string \<Rightarrow> string \<Rightarrow> agent_condition \<Rightarrow> string \<times> string" where
  "conditionToDecoration run_glyph end_glyph Attention = (''!!'', ''charts.yellow'')"
| "conditionToDecoration run_glyph end_glyph Running_now = (run_glyph, ''charts.green'')"
| "conditionToDecoration run_glyph end_glyph Terminated = (end_glyph, ''charts.red'')"

subsection \<open>Resource URIs\<close>

definition AGENT_RESOURCE_SCHEME :: string where
  "AGENT_RESOURCE_SCHEME = ''llmnb-agent''"

definition agentResourceUriString :: "string \<Rightarrow> string \<Rightarrow> string" where
  "agentResourceUriString zoneId agentId =
     AGENT_RESOURCE_SCHEME @ '':///'' @ encodeURIComponent zoneId @ ''/'' @ encodeURIComponent agentId"

definition parseAgentResourceUriPath :: "string \<Rightarrow> (nat list \<times> nat list) option" where
  "parseAgentResourceUriPath path =
     (if \<not> startsWith path ''/'' then None
      else case split_char (CHR ''/'') (drop 1 path) of
        [rawZone, rawAgent] \<Rightarrow>
          if rawZone = [] \<or> rawAgent = [] then None
          else (case (decodeURIComponent rawZone, decodeURIComponent rawAgent) of
                  (Some z, Some a) \<Rightarrow> Some (z, a) | _ \<Rightarrow> None)
      | _ \<Rightarrow> None)"

subsection \<open>The decoration provider\<close>

record uri =
  uri_scheme :: string
  uri_path :: string

text \<open>An agent id with code units of 256 and above is no id of the modelled metadata.\<close>

definition provideFileDecoration ::
  "(string \<Rightarrow> int option) \<Rightarrow> string \<Rightarrow> string \<Rightarrow> uri \<Rightarrow> jsv \<Rightarrow> (string \<times> string) option" where
  "provideFileDecoration other run_glyph end_glyph u snap =
     (if uri_scheme u \<noteq> AGENT_RESOURCE_SCHEME then None
      else case parseAgentResourceUriPath (uri_path u) of
        None \<Rightarrow> None
      | Some (zone, agent) \<Rightarrow>
          (case string_of_units agent of
             None \<Rightarrow> None
           | Some agentId \<Rightarrow>
               map_option (conditionToDecoration run_glyph end_glyph) (deriveAgentCondition other agentId snap)))"

type_synonym condition_memo = "(string \<times> agent_condition option) list"

definition snapshot_agent_ids :: "jsv \<Rightarrow> string list" where
  "snapshot_agent_ids snap = map fst (entries (coalesce (snap_zone snap ''agents'') (JObj [])))"

definition snapshot_zone_id :: "jsv \<Rightarrow> string" where
  "snapshot_zone_id snap = js_String (coalesce (snap_zone snap ''zone_id'') (JStr ''zone''))"

definition check_agent ::
  "(string \<Rightarrow> int option) \<Rightarrow> (string \<Rightarrow> string) \<Rightarrow> jsv \<Rightarrow> string \<Rightarrow> condition_memo \<times> string list \<Rightarrow> condition_memo \<times> string list" where
  "check_agent other uri_text snap agentId mc =
     (let key = uri_text (agentResourceUriString (snapshot_zone_id snap) agentId);
          condition = deriveAgentCondition other agentId snap in
      if map_of (fst mc) key \<noteq> Some condition then (map_set key condition (fst mc), snd mc @ [key]) else mc)"

definition fireChanged ::
  "(string \<Rightarrow> int option) \<Rightarrow> (string \<Rightarrow> string) \<Rightarrow> jsv \<Rightarrow> condition_memo \<Rightarrow> condition_memo \<times> string list" where
  "fireChanged other uri_text snap memo =
     fold (check_agent other uri_text snap) (snapshot_agent_ids snap) (memo, [])"

subsection \<open>Lemmas\<close>

text \<open>The two modules' tests for a run in flight are the same predicate of a frame.\<close>

lemma hasInFlightRunFrame_iff:
  "hasInFlightRunFrame a snap \<longleftrightarrow> (\<exists>f \<in> set (snapshot_frames snap). executed_by a f \<and> isInFlight f)"
proof -
  have "(case v of JStr s \<Rightarrow> s | _ \<Rightarrow> []) \<notin> set SETTLED_RUN_STATUSES \<longleftrightarrow>
      (case v of JStr s \<Rightarrow> s \<notin> set TERMINAL_STATUSES | _ \<Rightarrow> True)" for v
    by (cases v) (simp_all add: SETTLED_RUN_STATUSES_def TERMINAL_STATUSES_def)
  then show ?thesis by (auto simp: hasInFlightRunFrame_def list_ex_iff isInFlight_def)
qed

text \<open>The JSON form of an attribute value, and that the reader agrees with the decoder on it.\<close>

definition opt_field :: "string \<Rightarrow> ('a \<Rightarrow> jsv) \<Rightarrow> 'a option \<Rightarrow> jsobj" where
  "opt_field k f x = (case x of None \<Rightarrow> [] | Some v \<Rightarrow> [(k, f v)])"

fun any_json :: "any_value \<Rightarrow> jsv" where
  "any_json (AnyValue sv iv dv bv av kv byv) =
     JObj (opt_field ''stringValue'' JStr sv @ opt_field ''intValue'' JStr iv @ opt_field ''doubleValue'' JNum dv @
       opt_field ''boolValue'' JBool bv @
       (case av of None \<Rightarrow> [] | Some xs \<Rightarrow> [(''arrayValue'', JObj [(''values'', JArr (map any_json xs))])]) @
       (case kv of None \<Rightarrow> [] | Some kvs \<Rightarrow> [(''kvlistValue'', JObj [(''values'',
          JArr (map (\<lambda>(k, v). JObj [(''key'', JStr k), (''value'', any_json v)]) kvs))])]) @
       opt_field ''bytesValue'' JStr byv)"

lemma attr_string_json: "attr_string (any_json v) = (case decode_any v of JStr s \<Rightarrow> s | _ \<Rightarrow> [])"
proof (cases v)
  case (AnyValue sv iv dv bv av kv byv)
  then show ?thesis
    by (cases sv; cases bv; cases iv; cases dv; cases av; cases kv; cases byv)
      (simp_all add: attr_string_def opt_field_def js_get_def string_or_empty_def)
qed

lemma split_char_none: "d \<notin> set s \<Longrightarrow> split_char d s = [s]"
  by (induction s) auto

lemma split_char_sep: "d \<notin> set s \<Longrightarrow> split_char d (s @ d # t) = s # split_char d t"
  by (induction s) auto

lemma parse_agent_path:
  assumes "z \<noteq> []" "a \<noteq> []"
  shows "parseAgentResourceUriPath (''/'' @ encodeURIComponent z @ ''/'' @ encodeURIComponent a) =
    Some (code_units z, code_units a)"
  using assms slash_notin_encoded [of z] slash_notin_encoded [of a]
  by (simp add: parseAgentResourceUriPath_def startsWith_def split_char_sep split_char_none decode_encode_uri)

lemma agentResourceUriString_inj:
  assumes "agentResourceUriString z a = agentResourceUriString z' a'"
  shows "z = z'" "a = a'"
proof -
  let ?e = encodeURIComponent
  have "?e z @ ''/'' @ ?e a = ?e z' @ ''/'' @ ?e a'"
    using assms by (simp add: agentResourceUriString_def)
  then have "split_char (CHR ''/'') (?e z @ CHR ''/'' # ?e a) = split_char (CHR ''/'') (?e z' @ CHR ''/'' # ?e a')" by simp
  then have "?e z = ?e z'" "?e a = ?e a'"
    using slash_notin_encoded by (simp_all add: split_char_sep split_char_none)
  then have "code_units z = code_units z'" "code_units a = code_units a'"
    using decode_encode_uri by (metis option.inject)+
  then show "z = z'" "a = a'" using string_of_code_units by (metis option.inject)+
qed

text \<open>One refresh of the memo, agent by agent.\<close>

lemma check_agents_fold:
  fixes as :: "string list" and uri_text :: "string \<Rightarrow> string" and snap :: jsv
    and other :: "string \<Rightarrow> int option" and memo :: condition_memo
  defines "K \<equiv> \<lambda>a. uri_text (agentResourceUriString (snapshot_zone_id snap) a)"
  defines "C \<equiv> \<lambda>a. deriveAgentCondition other a snap"
  assumes "inj uri_text"
  defines "go \<equiv> \<lambda>as. fold (check_agent other uri_text snap) as (memo, [])"
  shows "(\<forall>a \<in> set as. map_of (fst (go as)) (K a) = Some (C a)) \<and>
    (\<forall>k. k \<notin> K ` set as \<longrightarrow> map_of (fst (go as)) k = map_of memo k) \<and>
    set (snd (go as)) = {K a | a. a \<in> set as \<and> map_of memo (K a) \<noteq> Some (C a)} \<and> distinct (snd (go as))"
proof (induction as rule: rev_induct)
  case Nil
  then show ?case by (simp add: go_def)
next
  case (snoc a as)
  have inj: "K x = K y \<longleftrightarrow> x = y" for x y
    using injD [OF assms(3)] agentResourceUriString_inj(2) [of "snapshot_zone_id snap" x "snapshot_zone_id snap" y]
    unfolding K_def by blast
  have step: "go (as @ [a]) = (if map_of (fst (go as)) (K a) \<noteq> Some (C a)
      then (map_set (K a) (C a) (fst (go as)), snd (go as) @ [K a]) else go as)"
    by (simp add: go_def check_agent_def K_def C_def Let_def)
  show ?case
  proof (cases "a \<in> set as")
    case True
    then have "go (as @ [a]) = go as" using snoc step by simp
    then show ?thesis using snoc True by (auto simp: insert_absorb)
  next
    case False
    then have "K a \<notin> K ` set as" using inj by auto
    then have "map_of (fst (go as)) (K a) = map_of memo (K a)" using snoc by simp
    then show ?thesis using snoc False inj by (auto simp: step)
  qed
qed

text \<open>Agent resource URIs. The path of an agent's URI parses back to its zone and agent id, whatever
  characters they contain, so the row of an agent gets the decoration of that agent's
  condition; different agents have different URIs.\<close>

theorem agent_uri_roundtrip:
  assumes "z \<noteq> []" "a \<noteq> []"
  shows "\<exists>path. agentResourceUriString z a = AGENT_RESOURCE_SCHEME @ ''://'' @ path \<and>
      parseAgentResourceUriPath path = Some (code_units z, code_units a) \<and>
      provideFileDecoration other rg eg \<lparr>uri_scheme = AGENT_RESOURCE_SCHEME, uri_path = path\<rparr> snap =
        map_option (conditionToDecoration rg eg) (deriveAgentCondition other a snap) \<and>
      (\<forall>z' a'. agentResourceUriString z' a' = agentResourceUriString z a \<longrightarrow> z' = z \<and> a' = a)"
proof (intro exI [of _ "''/'' @ encodeURIComponent z @ ''/'' @ encodeURIComponent a"] conjI allI impI)
  fix z' a' assume "agentResourceUriString z' a' = agentResourceUriString z a"
  from agentResourceUriString_inj [OF this] show "z' = z" "a' = a" .
qed (use parse_agent_path [OF assms] in \<open>simp_all add: agentResourceUriString_def provideFileDecoration_def\<close>)

theorem agent_uri_roundtrip_witness:
  "\<exists>path. agentResourceUriString ''z 1'' ''a/b%'' = AGENT_RESOURCE_SCHEME @ ''://'' @ path \<and>
     parseAgentResourceUriPath path = Some (code_units ''z 1'', code_units ''a/b%'')"
  using agent_uri_roundtrip [of "''z 1''" "''a/b%''" "\<lambda>_. None" "''>''" "''x''" JNull] by blast

text \<open>Decorations are refreshed exactly when they change. After a change event the memo has the
  current condition of every agent of the active snapshot; the URIs fired are those whose
  condition differs from the one last fired for them (or that were never fired), each once,
  and other entries of the memo stay.\<close>

theorem decorations_refresh_exact:
  assumes "inj uri_text"
  shows "let key = (\<lambda>a. uri_text (agentResourceUriString (snapshot_zone_id snap) a));
             cond = (\<lambda>a. deriveAgentCondition other a snap);
             (memo', fired) = fireChanged other uri_text snap memo
         in (\<forall>a \<in> set (snapshot_agent_ids snap). map_of memo' (key a) = Some (cond a)) \<and>
            (\<forall>k. k \<notin> key ` set (snapshot_agent_ids snap) \<longrightarrow> map_of memo' k = map_of memo k) \<and>
            set fired = {key a | a. a \<in> set (snapshot_agent_ids snap) \<and> map_of memo (key a) \<noteq> Some (cond a)} \<and>
            distinct fired"
  using check_agents_fold [OF assms, where snap = snap and other = other and as = "snapshot_agent_ids snap" and memo = memo]
  by (simp add: fireChanged_def case_prod_beta)

definition running_snapshot :: jsv where
  "running_snapshot = JObj [(''zone'', JObj [(''agents'', JObj [(''a'', JObj []), (''b'', JObj [])]),
     (''run_frames'', JObj [
        (''r1'', JObj [(''executor_id'', JStr ''a''), (''cell_id'', JStr ''c1''), (''started_at'', JStr ''2024-05-01T10:00:00Z'')]),
        (''r2'', JObj [(''executor_id'', JStr ''a''), (''cell_id'', JStr ''c2''), (''started_at'', JStr ''2024-05-01T11:00:00Z'')])])])]"

theorem decorations_refresh_exact_witness:
  "set (snd (fireChanged (\<lambda>_. None) id running_snapshot [(agentResourceUriString ''zone'' ''b'', None)])) =
     {agentResourceUriString ''zone'' ''a''}"
proof -
  have ids: "snapshot_agent_ids running_snapshot = [''a'', ''b'']" "snapshot_zone_id running_snapshot = ''zone''"
    by code_simp+
  have cond: "deriveAgentCondition (\<lambda>_. None) ''b'' running_snapshot = None" by code_simp
  have ne: "agentResourceUriString ''zone'' ''a'' \<noteq> agentResourceUriString ''zone'' ''b''"
    using agentResourceUriString_inj(2) by fastforce
  show ?thesis
    using decorations_refresh_exact [of id running_snapshot "\<lambda>_. None" "[(agentResourceUriString ''zone'' ''b'', None)]"] ids cond ne
    by (auto simp: case_prod_beta Let_def)
qed

lemma interrupt_command_target:
  assumes "a \<noteq> []" "getActiveRunFrame other a snap = Some f"
  shows "interruptAgentCommand other (JStr a) snap =
    (case nonempty_str (jprop f ''cell_id'') of
       Some c \<Rightarrow> Execute_command ''llmnb.interruptCell'' (JObj [(''agent_id'', JStr a), (''cell_id'', JStr c)])
     | None \<Rightarrow> Log_warn (''[llmnb.sidebar.interruptAgent] '' @ a @ '' has no in-flight run; no-op''))"
  using assms by (auto simp: interruptAgentCommand_def resolveInterruptTarget_def nonempty_str_def split: option.split)

lemma interrupt_command_idle:
  "a \<noteq> [] \<Longrightarrow> getActiveRunFrame other a snap = None \<Longrightarrow> interruptAgentCommand other (JStr a) snap =
    Log_warn (''[llmnb.sidebar.interruptAgent] '' @ a @ '' has no in-flight run; no-op'')"
  by (simp add: interruptAgentCommand_def resolveInterruptTarget_def nonempty_str_def)

text \<open>C17. The indicators of a running agent agree. For an agent none of whose runs in flight is dated
  before 1970, the spinning row with its stop button appears exactly when a run of the agent is in
  flight; the attention decoration appears exactly when the agent's latest tagged span is a question
  or a decision, and the running decoration for the snapshots with the spinner, except those; a
  click on stop interrupts the cell of the latest run in flight, and warns when there is none or it has no
  cell.\<close>

theorem run_indicators_agree:
  assumes "a \<noteq> []" "is_objectlike snap"
    and "\<forall>f \<in> set (snapshot_frames snap). executed_by a f \<and> isInFlight f \<longrightarrow> 0 \<le> startedAtMs other f"
  shows "(hasInFlightRun other a snap \<longleftrightarrow> hasInFlightRunFrame a snap) \<and>
    (deriveAgentCondition other a snap = Some Attention \<longleftrightarrow>
      latestTaggedSpanKind other a snap \<in> {Some ''question'', Some ''decision''}) \<and>
    (deriveAgentCondition other a snap = Some Running_now \<longleftrightarrow>
      hasInFlightRun other a snap \<and> latestTaggedSpanKind other a snap \<notin> {Some ''question'', Some ''decision''}) \<and>
    (case getActiveRunFrame other a snap of
        None \<Rightarrow> \<not> hasInFlightRunFrame a snap \<and> (\<exists>m. interruptAgentCommand other (JStr a) snap = Log_warn m)
      | Some f \<Rightarrow> f \<in> set (snapshot_frames snap) \<and> executed_by a f \<and> isInFlight f \<and>
          (\<forall>g \<in> set (snapshot_frames snap). executed_by a g \<and> isInFlight g \<longrightarrow> startedAtMs other g \<le> startedAtMs other f) \<and>
          (case nonempty_str (jprop f ''cell_id'') of
             Some c \<Rightarrow> interruptAgentCommand other (JStr a) snap =
               Execute_command ''llmnb.interruptCell'' (JObj [(''agent_id'', JStr a), (''cell_id'', JStr c)])
           | None \<Rightarrow> \<exists>m. interruptAgentCommand other (JStr a) snap = Log_warn m))"
proof -
  have agree: "hasInFlightRun other a snap \<longleftrightarrow> hasInFlightRunFrame a snap"
    using assms(3) by (auto simp: hasInFlightRun_iff hasInFlightRunFrame_iff)
  moreover have "deriveAgentCondition other a snap = Some Attention \<longleftrightarrow>
      latestTaggedSpanKind other a snap \<in> {Some ''question'', Some ''decision''}"
    using assms(1,2) by (auto simp: deriveAgentCondition_def ATTENTION_KINDS_def split: option.splits)
  moreover have "deriveAgentCondition other a snap = Some Running_now \<longleftrightarrow>
      hasInFlightRun other a snap \<and> latestTaggedSpanKind other a snap \<notin> {Some ''question'', Some ''decision''}"
    using assms(1,2) agree by (auto simp: deriveAgentCondition_def ATTENTION_KINDS_def split: option.splits)
  ultimately show ?thesis
    using assms(1) active_run_frame_latest [of other a snap]
    by (auto simp: hasInFlightRun_def interrupt_command_target interrupt_command_idle split: option.split)
qed

theorem run_indicators_agree_witness:
  "hasInFlightRun (\<lambda>_. None) ''a'' running_snapshot \<and> hasInFlightRunFrame ''a'' running_snapshot \<and>
   interruptAgentCommand (\<lambda>_. None) (JStr ''a'') running_snapshot =
     Execute_command ''llmnb.interruptCell'' (JObj [(''agent_id'', JStr ''a''), (''cell_id'', JStr ''c2'')])"
proof -
  have ob: "is_objectlike running_snapshot" by code_simp
  have t: "date_ms (\<lambda>_. None) ''2024-05-01T10:00:00Z'' = 1714557600000" "date_ms (\<lambda>_. None) ''2024-05-01T11:00:00Z'' = 1714561200000"
    by (simp_all add: date_ms_def date_eval)
  note eval = running_snapshot_def snapshot_frames_def snap_zone_def js_get_def Let_def startedAtMs_def executed_by_def
    isInFlight_def nullish_def t
  have fr: "\<forall>f \<in> set (snapshot_frames running_snapshot). executed_by ''a'' f \<and> isInFlight f \<longrightarrow> 0 \<le> startedAtMs (\<lambda>_. None) f"
    by (simp add: eval)
  obtain f where f: "getActiveRunFrame (\<lambda>_. None) ''a'' running_snapshot = Some f" "jprop f ''cell_id'' = JStr ''c2''"
    by (simp add: getActiveRunFrame_def keep_later_def eval)
  have c: "nonempty_str (JStr ''c2'') = Some ''c2''" by code_simp
  have has: "hasInFlightRun (\<lambda>_. None) ''a'' running_snapshot" using f by (simp add: hasInFlightRun_def)
  have "''a'' \<noteq> []" by simp
  note th = run_indicators_agree [OF this ob fr]
  show ?thesis using th has f c by auto
qed

text \<open>A run in flight dated before 1970 has the decoration but neither spinner nor stop button.\<close>

definition pre_epoch_snapshot :: jsv where
  "pre_epoch_snapshot = JObj [(''zone'', JObj [(''run_frames'', JObj [
     (''r1'', JObj [(''executor_id'', JStr ''a''), (''started_at'', JStr ''1969-12-31T23:59:59Z'')])])])]"

lemma pre_epoch_run_hidden:
  "hasInFlightRunFrame ''a'' pre_epoch_snapshot" "\<not> hasInFlightRun other ''a'' pre_epoch_snapshot"
proof -
  show "hasInFlightRunFrame ''a'' pre_epoch_snapshot" by code_simp
  have "date_ms other ''1969-12-31T23:59:59Z'' = - 1000" by (simp add: date_ms_def date_eval)
  then show "\<not> hasInFlightRun other ''a'' pre_epoch_snapshot"
    by (simp add: hasInFlightRun_iff snapshot_frames_def pre_epoch_snapshot_def snap_zone_def js_get_def Let_def startedAtMs_def)
qed

text \<open>The zone of a URI plays no part: a row of another notebook gets the condition its agent id has in
  the active one.\<close>

lemma decoration_ignores_zone:
  assumes "z \<noteq> []" "z' \<noteq> []" "a \<noteq> []"
  shows "provideFileDecoration other rg eg
      \<lparr>uri_scheme = AGENT_RESOURCE_SCHEME, uri_path = ''/'' @ encodeURIComponent z @ ''/'' @ encodeURIComponent a\<rparr> snap =
    provideFileDecoration other rg eg
      \<lparr>uri_scheme = AGENT_RESOURCE_SCHEME, uri_path = ''/'' @ encodeURIComponent z' @ ''/'' @ encodeURIComponent a\<rparr> snap"
  using parse_agent_path [OF assms(1,3)] parse_agent_path [OF assms(2,3)] by (simp add: provideFileDecoration_def)

end
