(* ===== verification/Activity_Tree.thy ===== *)
theory Activity_Tree
  imports Sidebar_State
begin

section \<open>Activity tree (\<open>extension/src/sidebar/activity-tree.ts\<close>)\<close>

text \<open>
  The entries synthesised from the event log and the run frames of a snapshot, their order, the
  window of the tree with "Load more", and the tree items. \<open>arrow\<close> is the arrow character of
  the labels, \<open>dash\<close> the em dash. An \<open>event_log\<close> that is not an array has no entries.
\<close>

datatype entry_type = Agent_spawn | Agent_branch | Agent_revert | Agent_stop | Ref_move | Run_start | Run_end

fun entry_type_text :: "entry_type \<Rightarrow> string" where
  "entry_type_text Agent_spawn = ''agent_spawn''"
| "entry_type_text Agent_branch = ''agent_branch''"
| "entry_type_text Agent_revert = ''agent_revert''"
| "entry_type_text Agent_stop = ''agent_stop''"
| "entry_type_text Ref_move = ''ref_move''"
| "entry_type_text Run_start = ''run_start''"
| "entry_type_text Run_end = ''run_end''"

datatype entry_source = Event_log_legacy | Event_log_envelope | From_run_frames

record activity_entry =
  entry_ms :: rat
  entry_kind :: entry_type
  entry_label :: string
  entry_cell :: jsv
  entry_from :: entry_source

text \<open>\<open>getActivityIconId\<close> of \<open>badge-style.ts\<close>.\<close>

definition getActivityIconId :: "string \<Rightarrow> string" where
  "getActivityIconId t =
     (if t = ''agent_spawn'' then ''play'' else if t = ''agent_branch'' then ''source-control''
      else if t = ''agent_revert'' then ''discard'' else if t = ''agent_stop'' then ''debug-stop''
      else if t = ''ref_move'' then ''arrow-right'' else if t = ''run_start'' then ''play-circle''
      else if t = ''run_end'' then ''pass'' else ''circle-small'')"

subsection \<open>Classification\<close>

definition isoToMs :: "(string \<Rightarrow> int option) \<Rightarrow> jsv \<Rightarrow> int" where
  "isoToMs other v = (case v of JStr s \<Rightarrow> if s = [] then 0 else date_ms other s | _ \<Rightarrow> 0)"

definition envelopeTimestampMs :: "(string \<Rightarrow> int option) \<Rightarrow> jsv \<Rightarrow> rat" where
  "envelopeTimestampMs other env =
     (if is_string (jprop env ''created_at'') then of_int (isoToMs other (jprop env ''created_at''))
      else case jprop env ''ts'' of
        JNum (Fin r) \<Rightarrow> r
      | JStr s \<Rightarrow> of_int (isoToMs other (JStr s))
      | _ \<Rightarrow> 0)"

definition shortTurnId :: "string \<Rightarrow> string" where
  "shortTurnId t = (let trimmed = (if startsWith t ''t_'' then drop 2 t else t) in
     if 8 < length trimmed then take 8 trimmed else trimmed)"

definition shortTurn :: "jsv \<Rightarrow> string" where
  "shortTurn v = (case v of JStr s \<Rightarrow> if s = [] then ''?'' else shortTurnId s | _ \<Rightarrow> ''?'')"

definition or_question :: "jsv \<Rightarrow> string" where
  "or_question v = js_String (coalesce v (JStr ''?''))"

definition classify_legacy :: "(string \<Rightarrow> int option) \<Rightarrow> string \<Rightarrow> jsv \<Rightarrow> activity_entry" where
  "classify_legacy other arrow legacy =
     (let ts = of_int (isoToMs other (jprop legacy ''recorded_at'')); agent = or_question (jprop legacy ''agent_id'') in
      if jprop legacy ''reason'' = JStr ''operator_revert''
      then \<lparr>entry_ms = ts, entry_kind = Agent_revert,
        entry_label = ''revert '' @ agent @ '' '' @ arrow @ '' '' @ shortTurn (jprop legacy ''to_turn_id''),
        entry_cell = JUndef, entry_from = Event_log_legacy\<rparr>
      else if jprop legacy ''reason'' = JStr ''operator_branch''
      then \<lparr>entry_ms = ts, entry_kind = Agent_branch,
        entry_label = ''branch '' @ agent @ '' @ '' @ shortTurn (jprop legacy ''from_turn_id''),
        entry_cell = JUndef, entry_from = Event_log_legacy\<rparr>
      else \<lparr>entry_ms = ts, entry_kind = Ref_move,
        entry_label = ''ref-move '' @ agent @ '': '' @ js_String (coalesce (jprop legacy ''reason'') (JStr ''unknown'')),
        entry_cell = JUndef, entry_from = Event_log_legacy\<rparr>)"

definition classify_envelope :: "(string \<Rightarrow> int option) \<Rightarrow> jsv \<Rightarrow> activity_entry option" where
  "classify_envelope other env =
     (if jprop env ''message_type'' \<noteq> JStr ''operator.action'' then None
      else let payload = jprop env ''payload''; params = jprop payload ''parameters'';
               entry = (\<lambda>kind label. Some \<lparr>entry_ms = envelopeTimestampMs other env, entry_kind = kind, entry_label = label,
                          entry_cell = jprop payload ''originating_cell_id'', entry_from = Event_log_envelope\<rparr>) in
        if jprop payload ''action_type'' = JStr ''agent_spawn''
        then entry Agent_spawn (''spawn '' @ or_question (jprop params ''agent_id''))
        else if jprop payload ''action_type'' = JStr ''zone_mutate'' then
          if jprop params ''intent_kind'' = JStr ''fork_agent'' then entry Agent_branch ''branch (fork_agent)''
          else if jprop params ''intent_kind'' = JStr ''move_agent_head'' then
            if jprop params ''cause'' = JStr ''revert'' then entry Agent_revert ''revert (move_agent_head)''
            else entry Ref_move ''ref-move (move_agent_head)''
          else None
        else None)"

definition classifyEventLogEntry :: "(string \<Rightarrow> int option) \<Rightarrow> string \<Rightarrow> jsv \<Rightarrow> activity_entry option" where
  "classifyEventLogEntry other arrow entry =
     (if \<not> is_objectlike entry then None
      else if jprop entry ''kind'' = JStr ''agent_ref_move'' then Some (classify_legacy other arrow entry)
      else classify_envelope other entry)"

definition classifyRunFrame :: "(string \<Rightarrow> int option) \<Rightarrow> string \<Rightarrow> jsv \<Rightarrow> activity_entry list" where
  "classifyRunFrame other arrow rf =
     (if \<not> is_objectlike rf then []
      else let startTs = isoToMs other (jprop rf ''started_at''); endTs = isoToMs other (jprop rf ''ended_at'') in
        (if 0 < startTs
         then [\<lparr>entry_ms = of_int startTs, entry_kind = Run_start,
                entry_label = ''run start '' @ or_question (jprop rf ''run_id'') @ '' ('' @ or_question (jprop rf ''executor_id'') @ '')'',
                entry_cell = jprop rf ''cell_id'', entry_from = From_run_frames\<rparr>] else []) @
        (if 0 < endTs
         then [\<lparr>entry_ms = of_int endTs, entry_kind = Run_end,
                entry_label = ''run end '' @ or_question (jprop rf ''run_id'') @ '' '' @ arrow @ '' '' @ or_question (jprop rf ''status''),
                entry_cell = jprop rf ''cell_id'', entry_from = From_run_frames\<rparr>] else []))"

text \<open>All entries in source order, and the list the tree shows.\<close>

definition activity_entries :: "(string \<Rightarrow> int option) \<Rightarrow> string \<Rightarrow> jsv \<Rightarrow> activity_entry list" where
  "activity_entries other arrow snap =
     List.map_filter (classifyEventLogEntry other arrow) (array_items (snap_zone snap ''event_log'')) @
     concat (map (classifyRunFrame other arrow) (map snd (entries (coalesce (snap_zone snap ''run_frames'') (JObj [])))))"

definition synthesizeActivity :: "(string \<Rightarrow> int option) \<Rightarrow> string \<Rightarrow> jsv \<Rightarrow> activity_entry list" where
  "synthesizeActivity other arrow snap =
     js_sort (compare_num (\<lambda>e. - entry_ms e)) (activity_entries other arrow snap)"

subsection \<open>The tree\<close>

datatype activity_node = Activity_empty string | Activity_row activity_entry | Activity_more

definition ACTIVITY_EMPTY :: string where
  "ACTIVITY_EMPTY = ''No recent activity. Run a cell to see events here.''"

definition DEFAULT_MAX_VISIBLE_ENTRIES :: nat where
  "DEFAULT_MAX_VISIBLE_ENTRIES = 500"

definition LOAD_MORE_STEP :: nat where
  "LOAD_MORE_STEP = 200"

definition activity_children :: "(string \<Rightarrow> int option) \<Rightarrow> string \<Rightarrow> nat \<Rightarrow> jsv \<Rightarrow> activity_node list" where
  "activity_children other arrow maxVisible snap =
     (if \<not> truthy snap then [Activity_empty ACTIVITY_EMPTY]
      else let es = synthesizeActivity other arrow snap in
        if es = [] then [Activity_empty ACTIVITY_EMPTY]
        else map Activity_row (take maxVisible es) @ (if maxVisible < length es then [Activity_more] else []))"

definition loadMore :: "nat \<Rightarrow> nat" where
  "loadMore maxVisible = maxVisible + LOAD_MORE_STEP"

text \<open>A tree item: the fields the providers set. \<open>None\<close> of \<open>activity_item\<close> is the \<open>RangeError\<close> of
  \<open>toISOString\<close>.\<close>

datatype collapsible = Not_collapsible | Collapsed_item | Expanded_item

record tree_item =
  ti_label :: jsv
  ti_state :: collapsible
  ti_icon :: "(string \<times> string option) option"
  ti_description :: "jsv option"
  ti_tooltip :: "string option"
  ti_context :: "string option"
  ti_resource :: "string option"
  ti_command :: "(string \<times> jsv) option"

definition plain_item :: "jsv \<Rightarrow> collapsible \<Rightarrow> tree_item" where
  "plain_item label st = \<lparr>ti_label = label, ti_state = st, ti_icon = None, ti_description = None, ti_tooltip = None,
     ti_context = None, ti_resource = None, ti_command = None\<rparr>"

definition empty_item :: "string \<Rightarrow> tree_item" where
  "empty_item message = (plain_item (JStr message) Not_collapsible)\<lparr>ti_icon := Some (''info'', None)\<rparr>"

definition reveal_command :: "jsv \<Rightarrow> (string \<times> jsv) option" where
  "reveal_command cell =
     (if truthy cell then Some (''llmnb.revealCell'', JArr [JObj [(''cell_id'', cell)]]) else None)"

definition entry_item :: "string \<Rightarrow> activity_entry \<Rightarrow> tree_item option" where
  "entry_item dash e =
     map_option (\<lambda>d. (plain_item (JStr (entry_label e)) Not_collapsible)\<lparr>
         ti_icon := Some (getActivityIconId (entry_type_text (entry_kind e)), None),
         ti_description := Some (JStr d),
         ti_tooltip := Some (entry_type_text (entry_kind e) @ '' '' @ dash @ '' '' @ entry_label e),
         ti_context := Some (''llmnb.sidebar.activity.'' @ entry_type_text (entry_kind e)),
         ti_command := reveal_command (entry_cell e)\<rparr>)
       (if 0 < entry_ms e then toISOString (entry_ms e) else Some [])"

fun activity_item :: "string \<Rightarrow> activity_node \<Rightarrow> tree_item option" where
  "activity_item dash (Activity_empty message) = Some (empty_item message)"
| "activity_item dash Activity_more =
     Some ((plain_item (JStr (''Load older entries (+'' @ show_nat LOAD_MORE_STEP @ '')'')) Not_collapsible)\<lparr>
       ti_icon := Some (''ellipsis'', None), ti_context := Some ''llmnb.sidebar.activityLoadMore'',
       ti_command := Some (''llmnb.sidebar.activity.loadMore'', JUndef)\<rparr>)"
| "activity_item dash (Activity_row e) = entry_item dash e"

subsection \<open>Properties\<close>

definition shown_entries :: "activity_node list \<Rightarrow> activity_entry list" where
  "shown_entries ns = List.map_filter (\<lambda>n. case n of Activity_row e \<Rightarrow> Some e | _ \<Rightarrow> None) ns"

lemma shown_rows [simp]: "shown_entries (map Activity_row es @ ns) = es @ shown_entries ns"
  by (induction es) (simp_all add: shown_entries_def List.map_filter_simps)

lemma shown_none [simp]: "shown_entries [Activity_empty m] = []" "shown_entries [Activity_more] = []" "shown_entries [] = []"
  by (simp_all add: shown_entries_def List.map_filter_simps)

lemma loadMore_clicks: "(loadMore ^^ k) n = n + LOAD_MORE_STEP * k"
  by (induction k) (simp_all add: loadMore_def)

lemma synthesizeActivity_order:
  "mset (synthesizeActivity other arrow snap) = mset (activity_entries other arrow snap)"
  "sorted_wrt (\<lambda>a b. entry_ms b \<le> entry_ms a) (synthesizeActivity other arrow snap)"
  "filter (\<lambda>e. entry_ms e = t) (synthesizeActivity other arrow snap) = filter (\<lambda>e. entry_ms e = t) (activity_entries other arrow snap)"
  using js_sort_num_sorted [of "\<lambda>e. - entry_ms e" "activity_entries other arrow snap"]
    js_sort_num_stable [of "\<lambda>e. - entry_ms e" "- t" "activity_entries other arrow snap"]
  by (simp_all add: synthesizeActivity_def)

text \<open>The activity window. After \<open>k\<close> clicks on "Load more" the tree shows the \<open>500 + 200 k\<close> most recent
  entries, newest first and entries of the same time in source order; what is hidden is not newer than
  what is shown, and the "Load more" row is there exactly while something is hidden, so that
  enough clicks show every entry.\<close>

theorem activity_window:
  assumes "truthy snap"
  shows "let every = activity_entries other arrow snap;
             nodes = activity_children other arrow ((loadMore ^^ k) DEFAULT_MAX_VISIBLE_ENTRIES) snap;
             rows = shown_entries nodes
         in length rows = min (500 + 200 * k) (length every) \<and>
            sorted_wrt (\<lambda>a b. entry_ms b \<le> entry_ms a) rows \<and>
            (\<exists>hidden. mset rows + mset hidden = mset every \<and>
               (\<forall>t. filter (\<lambda>e. entry_ms e = t) (rows @ hidden) = filter (\<lambda>e. entry_ms e = t) every) \<and>
               (\<forall>r \<in> set rows. \<forall>h \<in> set hidden. entry_ms h \<le> entry_ms r) \<and>
               (Activity_more \<in> set nodes \<longleftrightarrow> hidden \<noteq> []))"
proof -
  define es where "es = synthesizeActivity other arrow snap"
  define n where "n = (loadMore ^^ k) DEFAULT_MAX_VISIBLE_ENTRIES"
  have n: "n = 500 + 200 * k" by (simp add: n_def loadMore_clicks DEFAULT_MAX_VISIBLE_ENTRIES_def LOAD_MORE_STEP_def)
  note order = synthesizeActivity_order [where other = other and arrow = arrow and snap = snap, folded es_def]
  have len: "length es = length (activity_entries other arrow snap)" using order(1) by (metis size_mset)
  have nodes: "shown_entries (activity_children other arrow n snap) = take n es"
    "Activity_more \<in> set (activity_children other arrow n snap) \<longleftrightarrow> drop n es \<noteq> []"
    using assms by (auto simp: activity_children_def es_def [symmetric] Let_def)
  have "sorted_wrt (\<lambda>a b. entry_ms b \<le> entry_ms a) (take n es @ drop n es)" using order(2) by simp
  then have cut: "sorted_wrt (\<lambda>a b. entry_ms b \<le> entry_ms a) (take n es)"
    "\<forall>r \<in> set (take n es). \<forall>h \<in> set (drop n es). entry_ms h \<le> entry_ms r"
    unfolding sorted_wrt_append by blast+
  show ?thesis
    unfolding Let_def n_def [symmetric] nodes
    using order(1,3) cut len n
    by (intro conjI exI [of _ "drop n es"]) (auto simp flip: mset_append)
qed

definition activity_snapshot :: jsv where
  "activity_snapshot = JObj [(''zone'', JObj [(''event_log'', JArr [
     JObj [(''message_type'', JStr ''operator.action''), (''ts'', num 5),
       (''payload'', JObj [(''action_type'', JStr ''agent_spawn'')])],
     JNull,
     JObj [(''message_type'', JStr ''operator.action''), (''ts'', num 1714557600000000000),
       (''payload'', JObj [(''action_type'', JStr ''agent_spawn'')])]])])]"

theorem activity_window_witness:
  "truthy activity_snapshot \<and>
   length (shown_entries (activity_children (\<lambda>_. None) ''>'' ((loadMore ^^ 0) DEFAULT_MAX_VISIBLE_ENTRIES) activity_snapshot)) = 2"
proof -
  have "length (activity_entries (\<lambda>_. None) ''>'' activity_snapshot) = 2" by code_simp
  moreover have "truthy activity_snapshot" by code_simp
  ultimately show ?thesis
    using activity_window [of activity_snapshot "\<lambda>_. None" "''>''" 0] by (simp add: Let_def)
qed

lemma date_ms_le: "date_ms other s \<le> max_time"
  by (auto simp: date_ms_def date_parse_def time_clip_def max_time_def bind_eq_Some_conv split: option.splits if_splits)

lemma isoToMs_le: "isoToMs other v \<le> max_time"
  using date_ms_le [of other] by (auto simp: isoToMs_def max_time_def split: jsv.split)

lemma classify_legacy_ms: "entry_ms (classify_legacy other arrow v) = of_int (isoToMs other (jprop v ''recorded_at''))"
  by (simp add: classify_legacy_def Let_def)

lemma classify_envelope_from: "classify_envelope other v = Some e \<Longrightarrow> entry_from e = Event_log_envelope"
  by (auto simp: classify_envelope_def Let_def split: if_splits)

lemma classifyRunFrame_ms: "e \<in> set (classifyRunFrame other arrow v) \<Longrightarrow> \<exists>w. entry_ms e = of_int (isoToMs other w)"
  by (auto simp: classifyRunFrame_def Let_def split: if_splits)

lemma entry_ms_parsed:
  assumes "e \<in> set (activity_entries other arrow snap)" "entry_from e \<noteq> Event_log_envelope"
  shows "\<lfloor>entry_ms e\<rfloor> \<le> max_time"
proof -
  have "(\<exists>v. classifyEventLogEntry other arrow v = Some e) \<or> (\<exists>v. e \<in> set (classifyRunFrame other arrow v))"
    using assms(1) by (auto simp: activity_entries_def List.map_filter_def)
  then have "\<exists>w. entry_ms e = of_int (isoToMs other w)"
  proof
    assume "\<exists>v. classifyEventLogEntry other arrow v = Some e"
    then obtain v where "classify_legacy other arrow v = e \<or> classify_envelope other v = Some e"
      by (auto simp: classifyEventLogEntry_def split: if_splits)
    then show ?thesis using assms(2) classify_legacy_ms classify_envelope_from by blast
  qed (use classifyRunFrame_ms in blast)
  then show ?thesis using isoToMs_le by auto
qed

text \<open>Dates of activity items. The item of an entry with a positive time shows a text that \<open>Date.parse\<close>
  reads back as that time without its fraction; building the item throws exactly for times beyond
  the range of dates, which only the numeric \<open>ts\<close> of an envelope can be.\<close>

theorem activity_items_dated:
  assumes "e \<in> set (activity_entries other arrow snap)"
  shows "(entry_item dash e = None \<longleftrightarrow> max_time < \<lfloor>entry_ms e\<rfloor>) \<and>
    (entry_from e \<noteq> Event_log_envelope \<longrightarrow> entry_item dash e \<noteq> None) \<and>
    (\<forall>it. 0 < entry_ms e \<and> entry_item dash e = Some it \<longrightarrow>
       (\<exists>s. ti_description it = Some (JStr s) \<and> date_parse other s = Some \<lfloor>entry_ms e\<rfloor>))"
proof -
  have none: "entry_item dash e = None \<longleftrightarrow> max_time < \<lfloor>entry_ms e\<rfloor>"
  proof (cases "0 < entry_ms e")
    case True
    then have "0 \<le> \<lfloor>entry_ms e\<rfloor>" by simp
    with True show ?thesis by (auto simp: entry_item_def toISOString_def truncate_rat_def time_clip_def)
  next
    case False
    then have "\<lfloor>entry_ms e\<rfloor> \<le> 0" by (simp add: floor_le_iff)
    with False show ?thesis by (simp add: entry_item_def max_time_def)
  qed
  moreover have "\<lfloor>entry_ms e\<rfloor> \<le> max_time" if "entry_from e \<noteq> Event_log_envelope"
    using assms that by (rule entry_ms_parsed)
  moreover have "\<exists>s. ti_description it = Some (JStr s) \<and> date_parse other s = Some \<lfloor>entry_ms e\<rfloor>"
    if "0 < entry_ms e" "entry_item dash e = Some it" for it
    using that date_parse_toISOString [of "entry_ms e"]
    by (auto simp: entry_item_def truncate_rat_def plain_item_def)
  ultimately show ?thesis by (meson not_le)
qed

theorem activity_items_dated_witness:
  "\<exists>e \<in> set (activity_entries (\<lambda>_. None) ''>'' activity_snapshot). entry_item ''-'' e = None \<and> entry_from e = Event_log_envelope"
proof -
  let ?e = "activity_entries (\<lambda>_. None) ''>'' activity_snapshot ! 1"
  have "length (activity_entries (\<lambda>_. None) ''>'' activity_snapshot) = 2" by code_simp
  then have e: "?e \<in> set (activity_entries (\<lambda>_. None) ''>'' activity_snapshot)" by (intro nth_mem) simp
  have "entry_from ?e = Event_log_envelope" "entry_ms ?e = 1714557600000000000" by code_simp+
  then show ?thesis using activity_items_dated [OF e, of "''-''"] e by (auto simp: max_time_def)
qed

end
