(* ===== verification/Sidebar_Trees.thy ===== *)
theory Sidebar_Trees
  imports Agent_Decorations Activity_Tree
begin

section \<open>Sidebar trees (\<open>metadata-source.ts\<close>, \<open>agents-tree.ts\<close>, \<open>zones-tree.ts\<close>)\<close>

text \<open>
  The metadata source the trees share, with its throttle, and the tree data providers of agents
  and zones. Where a snapshot makes the code throw (an event log that cannot be iterated, a
  turn that is \<open>null\<close>) the result is \<open>None\<close>. \<open>dash\<close> and \<open>larr\<close> are the two characters outside the
  modelled strings.
\<close>

subsection \<open>The metadata source\<close>

record notebook_doc =
  doc_type :: string
  doc_uri :: string
  doc_path :: string
  doc_fs_path :: string
  doc_metadata :: jsv

record zone_snapshot =
  zone_uri :: string
  zone_fs_path :: string
  zone_label :: string
  zone_metadata :: jsv

definition basename :: "string \<Rightarrow> string" where
  "basename path = rev (takeWhile (\<lambda>c. c \<noteq> CHR ''/'') (rev path))"

definition readRtsMetadata :: "jsv \<Rightarrow> jsv" where
  "readRtsMetadata meta =
     (if \<not> is_objectlike meta then JUndef
      else case jprop meta ''rts'' of JObj kvs \<Rightarrow> JObj kvs | _ \<Rightarrow> JUndef)"

definition zone_of_doc :: "notebook_doc \<Rightarrow> zone_snapshot" where
  "zone_of_doc nb = \<lparr>zone_uri = doc_uri nb, zone_fs_path = doc_fs_path nb, zone_label = basename (doc_path nb),
     zone_metadata = readRtsMetadata (doc_metadata nb)\<rparr>"

definition getAllZones :: "string \<Rightarrow> notebook_doc list \<Rightarrow> zone_snapshot list" where
  "getAllZones nbtype docs = map zone_of_doc (filter (\<lambda>nb. doc_type nb = nbtype) docs)"

definition getActiveZone :: "string \<Rightarrow> notebook_doc option \<Rightarrow> zone_snapshot option" where
  "getActiveZone nbtype editor =
     (case editor of
        None \<Rightarrow> None
      | Some nb \<Rightarrow> if doc_type nb \<noteq> nbtype then None else Some (zone_of_doc nb))"

text \<open>The throttle. Inputs are the signals the source subscribes to, the timer callback, \<open>fireNow\<close>
  and \<open>dispose\<close>; effects are timers set and cleared, and events emitted.\<close>

record source_state =
  pendingTimer :: "nat option"
  nextTimer :: nat
  source_disposed :: bool

definition new_source :: source_state where
  "new_source = \<lparr>pendingTimer = None, nextTimer = 0, source_disposed = False\<rparr>"

datatype source_signal = Accepted_version | Doc_changed string | Doc_opened string | Doc_closed string | Editor_changed

datatype source_input = Signal source_signal | Timer_callback nat | Fire_now | Dispose_source

datatype source_effect = Set_timer nat | Clear_timer nat | Emit_change

definition scheduleFire :: "source_state \<Rightarrow> source_state \<times> source_effect list" where
  "scheduleFire s =
     (if pendingTimer s \<noteq> None then (s, [])
      else (s\<lparr>pendingTimer := Some (nextTimer s), nextTimer := Suc (nextTimer s)\<rparr>, [Set_timer (nextTimer s)]))"

fun relevant :: "string \<Rightarrow> source_signal \<Rightarrow> bool" where
  "relevant nbtype (Doc_changed t) = (t = nbtype)"
| "relevant nbtype (Doc_opened t) = (t = nbtype)"
| "relevant nbtype (Doc_closed t) = (t = nbtype)"
| "relevant nbtype _ = True"

definition clear_pending :: "source_state \<Rightarrow> source_state \<times> source_effect list" where
  "clear_pending s =
     (case pendingTimer s of None \<Rightarrow> (s, []) | Some t \<Rightarrow> (s\<lparr>pendingTimer := None\<rparr>, [Clear_timer t]))"

text \<open>A disposed emitter fires no event, and disposed subscriptions deliver no signal.\<close>

definition emit :: "source_state \<Rightarrow> source_effect list" where
  "emit s = (if source_disposed s then [] else [Emit_change])"

fun source_step :: "string \<Rightarrow> source_input \<Rightarrow> source_state \<Rightarrow> source_state \<times> source_effect list" where
  "source_step nbtype (Signal g) s = (if source_disposed s \<or> \<not> relevant nbtype g then (s, []) else scheduleFire s)"
| "source_step nbtype (Timer_callback t) s = (s\<lparr>pendingTimer := None\<rparr>, emit s)"
| "source_step nbtype Fire_now s = (let (s', es) = clear_pending s in (s', es @ emit s'))"
| "source_step nbtype Dispose_source s = (let (s', es) = clear_pending s in (s'\<lparr>source_disposed := True\<rparr>, es))"

text \<open>Runs: the timers alive (set and neither cleared nor run) and whether a relevant signal came
  after the last event. A callback runs only for a timer that is alive.\<close>

definition timers_after :: "source_effect list \<Rightarrow> nat list \<Rightarrow> nat list" where
  "timers_after es ts = fold (\<lambda>e ts. case e of Set_timer t \<Rightarrow> t # ts | Clear_timer t \<Rightarrow> remove1 t ts | Emit_change \<Rightarrow> ts) es ts"

definition unseen_after :: "string \<Rightarrow> source_input \<Rightarrow> source_effect list \<Rightarrow> bool \<Rightarrow> bool" where
  "unseen_after nbtype i es u =
     (if Emit_change \<in> set es then False else case i of Signal g \<Rightarrow> u \<or> relevant nbtype g | _ \<Rightarrow> u)"

inductive source_run :: "string \<Rightarrow> source_state \<Rightarrow> nat list \<Rightarrow> bool \<Rightarrow> bool" for nbtype where
  start: "source_run nbtype new_source [] False"
| step: "source_run nbtype s ts u \<Longrightarrow> (\<And>t. i = Timer_callback t \<Longrightarrow> t \<in> set ts) \<Longrightarrow>
    source_step nbtype i s = (s', es) \<Longrightarrow>
    ts' = timers_after es (case i of Timer_callback t \<Rightarrow> remove1 t ts | _ \<Rightarrow> ts) \<Longrightarrow>
    source_run nbtype s' ts' (unseen_after nbtype i es u)"

lemma timers_after_simps [simp]:
  "timers_after [] ts = ts" "timers_after [Set_timer t] ts = t # ts" "timers_after [Clear_timer t] ts = remove1 t ts"
  "timers_after [Emit_change] ts = ts" "timers_after [Clear_timer t, Emit_change] ts = remove1 t ts"
  by (simp_all add: timers_after_def)

text \<open>The pending timer is the only one alive, and an unseen signal has one.\<close>

lemma source_run_inv:
  "source_run nbtype s ts u \<Longrightarrow>
     ts = (case pendingTimer s of None \<Rightarrow> [] | Some t \<Rightarrow> [t]) \<and> (u \<and> \<not> source_disposed s \<longrightarrow> pendingTimer s \<noteq> None) \<and>
     (source_disposed s \<longrightarrow> pendingTimer s = None)"
proof (induction rule: source_run.induct)
  case start
  then show ?case by (simp add: new_source_def)
next
  case (step s ts u i s' es ts')
  then show ?case
    by (cases i; cases "pendingTimer s")
      (auto simp: scheduleFire_def clear_pending_def emit_def unseen_after_def split: if_splits)
qed

text \<open>C18. No change is lost and bursts are coalesced. Whatever signals, timer callbacks, forced events and
  disposals come in whatever order, at most one timer is alive; while the source is not disposed, a
  relevant signal after the last change event has a live timer whose callback emits one event,
  and further signals before that set no second timer; after disposal no timer is alive and no
  input emits an event.\<close>

theorem sidebar_changes_not_lost:
  assumes "source_run nbtype s ts u"
  shows "length ts \<le> 1 \<and>
    (if source_disposed s then ts = [] \<and> (\<forall>i. Emit_change \<notin> set (snd (source_step nbtype i s)))
     else (u \<longrightarrow> (\<exists>t. ts = [t] \<and> snd (source_step nbtype (Timer_callback t) s) = [Emit_change] \<and>
                 (\<forall>g. snd (source_step nbtype (Signal g) s) = []))))"
proof (cases "source_disposed s")
  case True
  then have "Emit_change \<notin> set (snd (source_step nbtype i s))" for i
    using source_run_inv [OF assms] by (cases i) (auto simp: emit_def clear_pending_def split: option.split)
  then show ?thesis using True source_run_inv [OF assms] by auto
next
  case False
  then show ?thesis using source_run_inv [OF assms] by (auto simp: emit_def scheduleFire_def split: option.split)
qed

theorem sidebar_changes_not_lost_witness:
  "\<exists>s ts. source_run ''llmnb'' s ts True \<and> length ts = 1"
proof -
  have r: "source_run ''llmnb'' (new_source\<lparr>pendingTimer := Some 0, nextTimer := 1\<rparr>) [0] True"
    using source_run.step [OF source_run.start, of "Signal Accepted_version" "''llmnb''"
        "new_source\<lparr>pendingTimer := Some 0, nextTimer := 1\<rparr>" "[Set_timer 0]"]
    by (simp add: scheduleFire_def new_source_def unseen_after_def)
  have "\<not> source_disposed (new_source\<lparr>pendingTimer := Some 0, nextTimer := 1\<rparr>)" by (simp add: new_source_def)
  with sidebar_changes_not_lost [OF r] r show ?thesis by (intro exI conjI) auto
qed

subsection \<open>The agents tree\<close>

datatype agents_node =
    Agents_empty string
  | Agent_row string
  | Agent_detail string string string
  | Branches_root string
  | Branch_agent string string "string option" "string option"

definition AGENTS_EMPTY :: string where
  "AGENTS_EMPTY = ''No agents in the active notebook. Spawn one with @@spawn.''"

text \<open>\<open>Object.keys(v).sort()\<close>; \<open>None\<close> when the object is missing or has no keys.\<close>

definition sorted_keys :: "jsv \<Rightarrow> string list option" where
  "sorted_keys v =
     (if \<not> truthy v \<or> entries v = [] then None else Some (js_sort compare_str (map fst (entries v))))"

definition detail_row :: "string \<Rightarrow> string \<Rightarrow> jsv \<Rightarrow> agents_node list" where
  "detail_row agentId label v =
     (if nullish v \<or> v = JStr [] then [] else [Agent_detail agentId label (js_String v)])"

definition buildSessionDetails :: "string \<Rightarrow> jsv \<Rightarrow> agents_node list" where
  "buildSessionDetails agentId session =
     (let rows = concat (map (\<lambda>k. detail_row agentId k (jprop session k))
            [''head_turn_id'', ''last_seen_turn_id'', ''claude_session_id'', ''pid'']) in
      if rows = [] then [Agent_detail agentId ''session'' ''(empty)''] else rows)"

definition branches_of :: "lineage \<Rightarrow> string \<Rightarrow> fork_record list" where
  "branches_of l agentId = (case map_of (children l) agentId of Some rs \<Rightarrow> rs | None \<Rightarrow> [])"

fun agents_children :: "(string \<Rightarrow> int option) \<Rightarrow> jsv \<Rightarrow> agents_node option \<Rightarrow> agents_node list option" where
  "agents_children other snap None =
     (case sorted_keys (snap_zone snap ''agents'') of
        None \<Rightarrow> Some [Agents_empty AGENTS_EMPTY]
      | Some ids \<Rightarrow> Some (map Agent_row ids))"
| "agents_children other snap (Some (Agent_row agentId)) =
     map_option (\<lambda>l. buildSessionDetails agentId (jprop (agent_of snap agentId) ''session'') @
         (if 0 < length (branches_of l agentId) then [Branches_root agentId] else []))
       (buildAgentLineage other snap)"
| "agents_children other snap (Some (Branches_root parentId)) =
     map_option (\<lambda>l. map (\<lambda>r. Branch_agent (sourceAgentId r) (branchAgentId r) (atTurnId r) (fork_case r)) (branches_of l parentId))
       (buildAgentLineage other snap)"
| "agents_children other snap (Some _) = Some []"

text \<open>The loop reads \<open>t.cell_id\<close> of each turn up to the first that has one; the outer \<open>None\<close> is the
  \<open>TypeError\<close> of a turn that is \<open>null\<close>.\<close>

fun first_cell :: "jsv list \<Rightarrow> string option option" where
  "first_cell [] = Some None"
| "first_cell (t # ts) =
     (if nullish t then None
      else case nonempty_str (jprop t ''cell_id'') of Some c \<Rightarrow> Some (Some c) | None \<Rightarrow> first_cell ts)"

definition firstTurnCellId :: "jsv \<Rightarrow> string option option" where
  "firstTurnCellId turns = (case turns of JArr ts \<Rightarrow> first_cell ts | _ \<Rightarrow> Some None)"

definition reveal_first :: "string option \<Rightarrow> (string \<times> jsv) option" where
  "reveal_first c = (case c of None \<Rightarrow> None | Some i \<Rightarrow> reveal_command (JStr i))"

definition buildAgentItem :: "(string \<Rightarrow> int option) \<Rightarrow> string \<Rightarrow> string \<Rightarrow> jsv \<Rightarrow> jsv \<Rightarrow> tree_item option" where
  "buildAgentItem other dash agentId agent snap =
     (let st = session_status agent; inFlight = hasInFlightRun other agentId snap in
      map_option (\<lambda>c. (plain_item (JStr agentId) Collapsed_item)\<lparr>
          ti_icon := Some (if inFlight then ''loading~spin'' else ''person'', Some (getAgentStatusBadgeColor st)),
          ti_description := Some st,
          ti_context := Some (isAgentRunningContextValue inFlight),
          ti_tooltip := Some (buildAgentTooltipMarkdown other dash agentId snap),
          ti_resource := Some (agentResourceUriString (snapshot_zone_id snap) agentId),
          ti_command := reveal_first c\<rparr>)
        (firstTurnCellId (jprop agent ''turns'')))"

definition formatLineageDescription :: "string \<Rightarrow> string \<Rightarrow> string option \<Rightarrow> string option \<Rightarrow> string" where
  "formatLineageDescription larr src turn cs =
     larr @ '' '' @ src @ (case turn of Some t \<Rightarrow> '' @ '' @ shortTurnId t | None \<Rightarrow> []) @
     (case cs of Some c \<Rightarrow> '' ['' @ c @ '']'' | None \<Rightarrow> [])"

definition middle_dot :: string where
  "middle_dot = [CHR '' '', CHR 0xB7, CHR '' '']"

definition buildBranchAgentItem :: "string \<Rightarrow> string \<Rightarrow> string \<Rightarrow> string option \<Rightarrow> string option \<Rightarrow> jsv \<Rightarrow> tree_item option" where
  "buildBranchAgentItem larr src branch turn cs snap =
     (let agent = agent_of snap branch; st = session_status agent in
      map_option (\<lambda>c. (plain_item (JStr branch) Not_collapsible)\<lparr>
          ti_icon := Some (''git-branch'', Some (getAgentStatusBadgeColor st)),
          ti_description := Some (JStr (formatLineageDescription larr src turn cs @ middle_dot @ js_String st)),
          ti_tooltip := Some (branch @ '' (forked from '' @ src @
            (case turn of Some t \<Rightarrow> '' at '' @ shortTurnId t | None \<Rightarrow> []) @
            (case cs of Some k \<Rightarrow> '', case '' @ k | None \<Rightarrow> []) @ '')''),
          ti_context := Some ''llmnb.sidebar.branchAgent'',
          ti_command := reveal_first c\<rparr>)
        (firstTurnCellId (jprop agent ''turns'')))"

fun agents_item :: "(string \<Rightarrow> int option) \<Rightarrow> string \<Rightarrow> string \<Rightarrow> jsv \<Rightarrow> agents_node \<Rightarrow> tree_item option" where
  "agents_item other dash larr snap (Agents_empty message) = Some (empty_item message)"
| "agents_item other dash larr snap (Agent_row agentId) =
     buildAgentItem other dash agentId (agent_of snap agentId) snap"
| "agents_item other dash larr snap (Agent_detail agentId label v) =
     Some ((plain_item (JStr label) Not_collapsible)\<lparr>ti_description := Some (JStr v), ti_tooltip := Some v,
       ti_context := Some ''llmnb.sidebar.agentDetail''\<rparr>)"
| "agents_item other dash larr snap (Branches_root parentId) =
     map_option (\<lambda>l. let n = length (branches_of l parentId) in
         (plain_item (JStr ''Branches'') Collapsed_item)\<lparr>
           ti_description := Some (JStr (if n = 1 then ''1 branch'' else show_nat n @ '' branches'')),
           ti_icon := Some (''source-control'', None), ti_context := Some ''llmnb.sidebar.branchesRoot''\<rparr>)
       (buildAgentLineage other snap)"
| "agents_item other dash larr snap (Branch_agent src branch turn cs) =
     buildBranchAgentItem larr src branch turn cs snap"

subsection \<open>The zones tree\<close>

datatype zones_node =
    Zones_empty string
  | Zone_row string string
  | Agents_root string
  | Sections_root string
  | Zone_agent string string
  | Zone_section string string

definition ZONES_EMPTY :: string where
  "ZONES_EMPTY = ''No .llmnb notebooks open in this workspace.''"

definition ZONE_NO_AGENTS :: string where
  "ZONE_NO_AGENTS = ''No agents in this zone.''"

definition ZONE_NO_SECTIONS :: "string \<Rightarrow> string" where
  "ZONE_NO_SECTIONS dash = ''No sections '' @ dash @ '' operators create them with @@section.''"

definition findZone :: "zone_snapshot list \<Rightarrow> string \<Rightarrow> jsv" where
  "findZone zones u = (case find (\<lambda>z. zone_uri z = u) zones of Some z \<Rightarrow> zone_metadata z | None \<Rightarrow> JUndef)"

fun zones_children :: "string \<Rightarrow> zone_snapshot list \<Rightarrow> zones_node option \<Rightarrow> zones_node list" where
  "zones_children dash zones None =
     (if zones = [] then [Zones_empty ZONES_EMPTY] else map (\<lambda>z. Zone_row (zone_uri z) (zone_label z)) zones)"
| "zones_children dash zones (Some (Zone_row u l)) = [Agents_root u, Sections_root u]"
| "zones_children dash zones (Some (Agents_root u)) =
     (case sorted_keys (snap_zone (findZone zones u) ''agents'') of
        None \<Rightarrow> [Zones_empty ZONE_NO_AGENTS] | Some ids \<Rightarrow> map (Zone_agent u) ids)"
| "zones_children dash zones (Some (Sections_root u)) =
     (case sorted_keys (snap_zone (findZone zones u) ''sections'') of
        None \<Rightarrow> [Zones_empty (ZONE_NO_SECTIONS dash)] | Some ids \<Rightarrow> map (Zone_section u) ids)"
| "zones_children dash zones (Some _) = []"

definition buildZoneAgentItem :: "string \<Rightarrow> jsv \<Rightarrow> tree_item" where
  "buildZoneAgentItem agentId snap =
     (let st = session_status (agent_of snap agentId) in
      (plain_item (JStr agentId) Not_collapsible)\<lparr>
        ti_icon := Some (''person'', Some (getAgentStatusBadgeColor st)), ti_description := Some st,
        ti_context := Some ''llmnb.sidebar.zoneAgent'',
        ti_resource := Some (agentResourceUriString (snapshot_zone_id snap) agentId)\<rparr>)"

definition buildSectionItem :: "string \<Rightarrow> jsv \<Rightarrow> tree_item" where
  "buildSectionItem sectionId section =
     (let st = coalesce (jprop section ''status'') (JStr ''open'');
          n = coalesce (jelem (jprop section ''cell_range'') ''length'') (num 0) in
      (plain_item (coalesce (jprop section ''title'') (JStr sectionId)) Not_collapsible)\<lparr>
        ti_icon := Some (''symbol-namespace'', Some (getSectionStatusBadgeColor st)),
        ti_description := Some (JStr (js_String st @ middle_dot @ js_String n @ '' cells'')),
        ti_context := Some ''llmnb.sidebar.zoneSection''\<rparr>)"

text \<open>\<open>fs_path u\<close> is \<open>uri.fsPath\<close>.\<close>

fun zones_item :: "(string \<Rightarrow> string) \<Rightarrow> zone_snapshot list \<Rightarrow> zones_node \<Rightarrow> tree_item" where
  "zones_item fs_path zones (Zones_empty message) = empty_item message"
| "zones_item fs_path zones (Zone_row u label) =
     (plain_item (JStr label) Expanded_item)\<lparr>ti_icon := Some (''notebook'', None), ti_context := Some ''llmnb.sidebar.zone'',
       ti_resource := Some u, ti_description := Some (JStr (fs_path u))\<rparr>"
| "zones_item fs_path zones (Agents_root u) =
     (plain_item (JStr ''Agents'') Collapsed_item)\<lparr>ti_icon := Some (''person'', None),
       ti_context := Some ''llmnb.sidebar.agentsRoot'',
       ti_resource := Some (AGENT_RESOURCE_SCHEME @ '':///'' @ encodeURIComponent (snapshot_zone_id (findZone zones u)))\<rparr>"
| "zones_item fs_path zones (Sections_root u) =
     (plain_item (JStr ''Sections'') Collapsed_item)\<lparr>ti_icon := Some (''symbol-namespace'', None),
       ti_context := Some ''llmnb.sidebar.sectionsRoot''\<rparr>"
| "zones_item fs_path zones (Zone_agent u agentId) = buildZoneAgentItem agentId (findZone zones u)"
| "zones_item fs_path zones (Zone_section u sectionId) =
     buildSectionItem sectionId (jelem (snap_zone (findZone zones u) ''sections'') sectionId)"

subsection \<open>Rows of the agents tree\<close>

lemma compare_str_le [simp]: "compare_str a b \<le> 0 \<longleftrightarrow> a \<le> b"
  by (auto simp: compare_str_def)

lemma sorted_keys_strict:
  assumes "kvs \<noteq> []" "distinct (map fst kvs)"
  obtains ids where "sorted_keys (JObj kvs) = Some ids" "set ids = fst ` set kvs" "sorted_wrt (<) ids"
proof -
  let ?ids = "js_sort compare_str (map fst kvs)"
  have "sorted_wrt (\<le>) ?ids" using by_str.sorted_js_sort [of "map fst kvs"] by simp
  moreover have "distinct ?ids" using assms(2) distinct_map_js_sort [of id compare_str "map fst kvs"] by simp
  ultimately have "sorted_wrt (<) ?ids" by (simp add: strict_sorted_iff)
  then show thesis using that [of ?ids] assms(1) by (simp add: sorted_keys_def)
qed

lemma detail_rows:
  "x \<in> set (concat (map (\<lambda>k. detail_row a k (jprop session k)) ks)) \<Longrightarrow> \<exists>l v. x = Agent_detail a l v"
  by (auto simp: detail_row_def split: if_splits)

lemma buildSessionDetails_rows:
  "\<exists>l v. Agent_detail a l v \<in> set (buildSessionDetails a session)"
  "Branches_root b \<notin> set (buildSessionDetails a session)"
proof -
  define rows where "rows = concat (map (\<lambda>k. detail_row a k (jprop session k))
      [''head_turn_id'', ''last_seen_turn_id'', ''claude_session_id'', ''pid''])"
  have all: "x \<in> set rows \<Longrightarrow> \<exists>l v. x = Agent_detail a l v" for x unfolding rows_def by (rule detail_rows)
  have b: "buildSessionDetails a session = (if rows = [] then [Agent_detail a ''session'' ''(empty)''] else rows)"
    by (simp add: buildSessionDetails_def rows_def Let_def del: concat.simps list.map)
  show "\<exists>l v. Agent_detail a l v \<in> set (buildSessionDetails a session)"
  proof (cases rows)
    case (Cons x xs)
    then show ?thesis using all [of x] b by auto
  qed (use b in auto)
  show "Branches_root b \<notin> set (buildSessionDetails a session)"
    using b all [of "Branches_root b"] by auto
qed

definition branch_node :: "fork_record \<Rightarrow> agents_node" where
  "branch_node r = Branch_agent (sourceAgentId r) (branchAgentId r) (atTurnId r) (fork_case r)"

text \<open>Rows of the agents tree. For a snapshot with agents and a log that can be iterated, the agents tree
  has one row for each agent, in code unit order, and the zones tree lists the same agents in
  the same order; the row of an agent expands to at least one detail, and to a "Branches" row exactly
  when the log has forks of it, whose rows are those forks in order of time.\<close>

theorem agents_tree_rows:
  assumes "snap_zone snap ''agents'' = JObj kvs" "kvs \<noteq> []" "distinct (map fst kvs)"
    and "iterate (coalesce (snap_zone snap ''event_log'') (JArr [])) = Some es"
    and "findZone zones u = snap"
  shows "\<exists>ids. agents_children other snap None = Some (map Agent_row ids) \<and>
    zones_children dash zones (Some (Agents_root u)) = map (Zone_agent u) ids \<and>
    set ids = fst ` set kvs \<and> sorted_wrt (<) ids \<and>
    (\<forall>a. let forks = filter (\<lambda>r. sourceAgentId r = a) (fork_records other es) in
       \<exists>rows bs. agents_children other snap (Some (Agent_row a)) = Some rows \<and>
         agents_children other snap (Some (Branches_root a)) = Some (map branch_node bs) \<and>
         (\<exists>l v. Agent_detail a l v \<in> set rows) \<and> (Branches_root a \<in> set rows \<longleftrightarrow> forks \<noteq> []) \<and>
         mset bs = mset forks \<and> sorted_wrt (\<lambda>x y. fork_time x \<le> fork_time y) bs)"
proof -
  obtain l where l: "buildAgentLineage other snap = Some l"
    "\<And>s. map_of (children l) s = (let rs = filter (\<lambda>r. sourceAgentId r = s) (fork_records other es)
        in if rs = [] then None else Some (js_sort (compare_num fork_time) rs))"
    by (rule buildAgentLineage_spec [OF assms(4), where other = other]) blast
  have bs: "branches_of l a = js_sort (compare_num fork_time) (filter (\<lambda>r. sourceAgentId r = a) (fork_records other es))" for a
    by (simp add: branches_of_def l(2) Let_def)
  obtain ids where ids: "sorted_keys (JObj kvs) = Some ids" "set ids = fst ` set kvs" "sorted_wrt (<) ids"
    using sorted_keys_strict [OF assms(2,3)] .
  have branch: "agents_children other snap (Some (Branches_root a)) = Some (map branch_node (branches_of l a))" for a
    by (simp add: l(1) branch_node_def [abs_def])
  have rows: "\<exists>rows. agents_children other snap (Some (Agent_row a)) = Some rows \<and>
      (\<exists>l v. Agent_detail a l v \<in> set rows) \<and> (Branches_root a \<in> set rows \<longleftrightarrow> branches_of l a \<noteq> [])" for a
    using buildSessionDetails_rows [where a = a and session = "jprop (agent_of snap a) ''session''"] by (auto simp: l(1))
  have sorted: "sorted_wrt (\<lambda>x y. fork_time x \<le> fork_time y) (branches_of l a)"
    "mset (branches_of l a) = mset (filter (\<lambda>r. sourceAgentId r = a) (fork_records other es))" for a
    by (simp_all add: bs js_sort_num_sorted)
  have empty: "branches_of l a = [] \<longleftrightarrow> filter (\<lambda>r. sourceAgentId r = a) (fork_records other es) = []" for a
    by (simp only: bs js_sort_Nil_iff)
  have expand: "\<exists>rows bs. agents_children other snap (Some (Agent_row a)) = Some rows \<and>
      agents_children other snap (Some (Branches_root a)) = Some (map branch_node bs) \<and>
      (\<exists>l v. Agent_detail a l v \<in> set rows) \<and>
      (Branches_root a \<in> set rows \<longleftrightarrow> filter (\<lambda>r. sourceAgentId r = a) (fork_records other es) \<noteq> []) \<and>
      mset bs = mset (filter (\<lambda>r. sourceAgentId r = a) (fork_records other es)) \<and>
      sorted_wrt (\<lambda>x y. fork_time x \<le> fork_time y) bs" for a
    using rows [of a] branch [of a] sorted [of a] empty [of a] by metis
  have "agents_children other snap None = Some (map Agent_row ids)"
    "zones_children dash zones (Some (Agents_root u)) = map (Zone_agent u) ids"
    using ids(1) assms(1,5) by simp_all
  then show ?thesis unfolding Let_def using ids(2,3) expand by blast
qed

theorem agents_tree_rows_witness:
  "\<exists>rows. agents_children (\<lambda>_. None) (JObj [(''zone'', JObj [(''agents'', JObj [(''b'', JNull), (''a'', JNull)]),
      (''event_log'', JArr [fork_entry ''a'' ''b'' 5])])]) (Some (Agent_row ''a'')) = Some rows \<and> Branches_root ''a'' \<in> set rows"
proof -
  let ?snap = "JObj [(''zone'', JObj [(''agents'', JObj [(''b'', JNull), (''a'', JNull)]),
      (''event_log'', JArr [fork_entry ''a'' ''b'' 5])])]"
  let ?z = "\<lparr>zone_uri = ''u'', zone_fs_path = ''u'', zone_label = ''u'', zone_metadata = ?snap\<rparr>"
  have h: "snap_zone ?snap ''agents'' = JObj [(''b'', JNull), (''a'', JNull)]" "[(''b'', JNull), (''a'', JNull)] \<noteq> []"
    "distinct (map fst [(''b'', JNull), (''a'', JNull)])"
    "iterate (coalesce (snap_zone ?snap ''event_log'') (JArr [])) = Some [fork_entry ''a'' ''b'' 5]"
    "findZone [?z] ''u'' = ?snap"
    by (simp_all add: snap_zone_def js_get_def coalesce_def nullish_def findZone_def)
  have "map sourceAgentId (fork_records (\<lambda>_. None) [fork_entry ''a'' ''b'' 5]) = [''a'']" by code_simp
  then have ne: "filter (\<lambda>r. sourceAgentId r = ''a'') (fork_records (\<lambda>_. None) [fork_entry ''a'' ''b'' 5]) \<noteq> []"
    by (auto simp: map_eq_Cons_conv)
  from agents_tree_rows [OF h, of "\<lambda>_. None" "''-''"] obtain rows
    where "agents_children (\<lambda>_. None) ?snap (Some (Agent_row ''a'')) = Some rows"
      "Branches_root ''a'' \<in> set rows \<longleftrightarrow> filter (\<lambda>r. sourceAgentId r = ''a'') (fork_records (\<lambda>_. None) [fork_entry ''a'' ''b'' 5]) \<noteq> []"
    unfolding Let_def by blast
  with ne show ?thesis by blast
qed

end
