(* ===== verification/Html_Text.thy ===== *)
theory Html_Text
  imports JSON_Text "HOL-Library.Monad_Syntax"
begin

section \<open>HTML text (\<open>extension/src/renderers/components/escape.ts\<close>)\<close>

text \<open>
  The escaping functions of the renderer components, \<open>String(v)\<close> on JSON values, and a reference
  checker for markup: a scanner with the states of an HTML tokenizer that matter for injection (text,
  inside a tag, inside a quoted attribute value), which collects each tag with its attribute values
  erased and accepts it only when its name and its attributes are on a list without scripts and
  event handlers.
\<close>

subsection \<open>Escaping\<close>

definition replace_all :: "char \<Rightarrow> string \<Rightarrow> string \<Rightarrow> string" where
  "replace_all c r s = concat (map (\<lambda>d. if d = c then r else [d]) s)"

definition escapeHtml :: "string \<Rightarrow> string" where
  "escapeHtml s =
     replace_all (CHR 0x27) ''&#39;'' (replace_all QUOTE ''&quot;''
       (replace_all (CHR ''>'') ''&gt;'' (replace_all (CHR ''<'') ''&lt;'' (replace_all (CHR ''&'') ''&amp;'' s))))"

definition escapeAttr :: "string \<Rightarrow> string" where
  "escapeAttr s = filter (\<lambda>c. \<not> ((of_char c :: nat) \<le> 31 \<or> (of_char c :: nat) = 127)) (escapeHtml s)"

subsection \<open>Conversion to strings\<close>

text \<open>\<open>String(v)\<close>: an own \<open>toString\<close> of a parsed object is no function, so the conversion
  throws (\<open>None\<close>); arrays join their elements with commas, null and undefined as nothing.\<close>

definition num_String :: "jsnum \<Rightarrow> string" where
  "num_String x =
     (case x of PosInf \<Rightarrow> ''Infinity'' | NegInf \<Rightarrow> ''-Infinity'' | NaN \<Rightarrow> ''NaN'' | Fin _ \<Rightarrow> show_num x)"

fun js_String :: "jsv \<Rightarrow> string option" where
  "js_String JUndef = Some ''undefined''"
| "js_String JNull = Some ''null''"
| "js_String (JBool b) = Some (if b then ''true'' else ''false'')"
| "js_String (JNum x) = Some (num_String x)"
| "js_String (JBigInt n) = Some (show_int n)"
| "js_String (JStr s) = Some s"
| "js_String (JArr xs) =
     map_option (join '','') (those (map (\<lambda>x. if nullish x then Some [] else js_String x) xs))"
| "js_String (JObj kvs) = (if ''toString'' \<in> set (map fst kvs) then None else Some ''[object Object]'')"

text \<open>\<open>v.k\<close> throws on null and undefined.\<close>

definition member :: "jsv \<Rightarrow> string \<Rightarrow> jsv option" where
  "member v k = (if nullish v then None else Some (jprop v k))"

subsection \<open>The markup checker\<close>

datatype html_state = Data | In_tag | Double_quoted | Single_quoted

definition ALLOWED_TAGS :: "string list" where
  "ALLOWED_TAGS = [''div'', ''span'', ''button'', ''pre'', ''ul'', ''li'', ''strong'', ''em'', ''a'', ''label'',
     ''input'', ''textarea'', ''table'', ''thead'', ''tbody'', ''tr'', ''th'', ''td'', ''code'', ''mark'']"

definition ALLOWED_ATTRS :: "string list" where
  "ALLOWED_ATTRS = [''class'', ''id'', ''type'', ''role'', ''style'', ''href'', ''name'', ''value'', ''rows'',
     ''placeholder'', ''hidden'', ''readonly'', ''checked'', ''title'', ''/'']"

fun snoc :: "'a list \<Rightarrow> 'a \<Rightarrow> 'a list" where
  "snoc [] c = [c]"
| "snoc (x # xs) c = x # snoc xs c"

text \<open>The words of a tag, split at white space.\<close>

fun tag_words :: "string \<Rightarrow> string \<Rightarrow> string list" where
  "tag_words w [] = (if w = [] then [] else [w])"
| "tag_words w (c # s) =
     (if c = CHR '' '' \<or> c = LF then (if w = [] then tag_words [] s else w # tag_words [] s)
      else tag_words (snoc w c) s)"

definition attr_ok :: "string \<Rightarrow> bool" where
  "attr_ok w \<longleftrightarrow>
     (let n = takeWhile (\<lambda>c. c \<noteq> CHR ''='') w in
      startsWith n ''data-'' \<or> startsWith n ''aria-'' \<or> n \<in> set ALLOWED_ATTRS)"

definition tag_ok :: "string \<Rightarrow> bool" where
  "tag_ok t \<longleftrightarrow>
     (case t of
        [] \<Rightarrow> False
      | c # r \<Rightarrow>
          if c = CHR ''/'' then r \<in> set ALLOWED_TAGS
          else (case tag_words [] t of [] \<Rightarrow> False | n # as \<Rightarrow> n \<in> set ALLOWED_TAGS \<and> list_all attr_ok as))"

text \<open>The scanner: the state and the tag read so far, or \<open>None\<close> once a tag was not accepted. A tag
  name directly after \<open><\<close> is not required, so it sees at least the tags that a browser does.\<close>

fun html_check :: "(string \<Rightarrow> bool) \<Rightarrow> html_state \<Rightarrow> string \<Rightarrow> string \<Rightarrow> (html_state \<times> string) option" where
  "html_check ok st t [] = Some (st, t)"
| "html_check ok Data t (c # s) =
     (if c = CHR ''<'' then html_check ok In_tag [] s else html_check ok Data t s)"
| "html_check ok In_tag t (c # s) =
     (if c = CHR ''>'' then (if ok t then html_check ok Data [] s else None)
      else if c = QUOTE then html_check ok Double_quoted (snoc t c) s
      else if c = CHR 0x27 then html_check ok Single_quoted (snoc t c) s
      else html_check ok In_tag (snoc t c) s)"
| "html_check ok Double_quoted t (c # s) =
     (if c = QUOTE then html_check ok In_tag (snoc t c) s else html_check ok Double_quoted t s)"
| "html_check ok Single_quoted t (c # s) =
     (if c = CHR 0x27 then html_check ok In_tag (snoc t c) s else html_check ok Single_quoted t s)"

definition html_ok :: "string \<Rightarrow> bool" where
  "html_ok s \<longleftrightarrow> html_check tag_ok Data [] s = Some (Data, [])"

subsection \<open>Lemmas\<close>

named_theorems html_intros \<open>fragments accepted by the markup checker\<close>

lemma html_check_append:
  "html_check ok st t (a @ b) = html_check ok st t a \<bind> (\<lambda>(st', t'). html_check ok st' t' b)"
  by (induction ok st t a rule: html_check.induct) auto

lemma html_ok_append: "html_ok a \<Longrightarrow> html_ok b \<Longrightarrow> html_ok (a @ b)"
  by (simp add: html_ok_def html_check_append)

lemma html_ok_Nil [simp, html_intros]: "html_ok []"
  by (simp add: html_ok_def)

lemma html_ok_concat: "(\<And>x. x \<in> set xs \<Longrightarrow> html_ok x) \<Longrightarrow> html_ok (concat xs)"
  by (induction xs) (auto intro: html_ok_append)

lemma html_ok_join: "(\<And>x. x \<in> set xs \<Longrightarrow> html_ok x) \<Longrightarrow> html_ok sep \<Longrightarrow> html_ok (join sep xs)"
  by (induction sep xs rule: join.induct) (auto intro!: html_ok_append)

lemma html_check_text: "CHR ''<'' \<notin> set s \<Longrightarrow> html_check ok Data t s = Some (Data, t)"
  by (induction s) auto

lemma html_check_value: "QUOTE \<notin> set s \<Longrightarrow> html_check ok Double_quoted t s = Some (Double_quoted, t)"
  by (induction s) auto

lemma set_replace_all: "set (replace_all c r s) = (set s - {c}) \<union> (if c \<in> set s then set r else {})"
  by (auto simp: replace_all_def split: if_splits)

lemma escapeHtml_chars: "CHR ''<'' \<notin> set (escapeHtml s)" "CHR ''>'' \<notin> set (escapeHtml s)"
    "QUOTE \<notin> set (escapeHtml s)" "CHR 0x27 \<notin> set (escapeHtml s)"
  by (auto simp: escapeHtml_def set_replace_all split: if_splits)

lemma html_check_escapeHtml [simp]:
  "html_check ok Data t (escapeHtml s) = Some (Data, t)"
  "html_check ok Double_quoted t (escapeHtml s) = Some (Double_quoted, t)"
  by (simp_all add: html_check_text html_check_value escapeHtml_chars)

lemma html_check_escapeAttr [simp]: "html_check ok Double_quoted t (escapeAttr s) = Some (Double_quoted, t)"
  using escapeHtml_chars(3)[of s] by (intro html_check_value) (auto simp: escapeAttr_def)

lemma html_ok_escapeHtml [html_intros]: "html_ok (escapeHtml s)"
  by (simp add: html_ok_def)

text \<open>Accepted markup contains no script and no event handler.\<close>

lemma no_script: "\<not> html_ok (''<script>'' @ s)" "\<not> html_ok (''<img src=x onerror=alert(1)>'' @ s)"
    "\<not> html_ok (''<div onclick='' @ [QUOTE] @ ''x()'' @ [QUOTE] @ ''>'' @ s)"
  by (simp_all add: html_ok_def html_check_append tag_ok_def ALLOWED_TAGS_def attr_ok_def ALLOWED_ATTRS_def
      startsWith_def)

text \<open>Evaluation of the checker piece by piece: a piece is scanned once the state before it is known, and
  an optional piece that leaves the state as it is does not split the goal.\<close>

lemma bind_cong_weak: "x = y \<Longrightarrow> Option.bind x f = Option.bind y f"
  by simp

lemma html_check_if: "html_check ok st t (if b then x else y) = (if b then html_check ok st t x else html_check ok st t y)"
  by simp

lemmas html_eval = html_check_append html_check_if tag_ok_def ALLOWED_TAGS_def attr_ok_def ALLOWED_ATTRS_def startsWith_def

text \<open>What a browser shows for escaped text is the text.\<close>

definition ENTITIES :: "(string \<times> char) list" where
  "ENTITIES = [(''&amp;'', CHR ''&''), (''&lt;'', CHR ''<''), (''&gt;'', CHR ''>''), (''&quot;'', QUOTE), (''&#39;'', CHR 0x27)]"

function decode_entities :: "string \<Rightarrow> string" where
  "decode_entities [] = []"
| "decode_entities (c # s) =
     (case List.find (\<lambda>(e, d). prefix e (c # s)) ENTITIES of
        Some (e, d) \<Rightarrow> d # decode_entities (drop (length e - 1) s)
      | None \<Rightarrow> c # decode_entities s)"
  by pat_completeness auto
termination by (relation "measure length") (auto simp: less_Suc_eq_le)

definition escape_char :: "char \<Rightarrow> string" where
  "escape_char c = (case List.find (\<lambda>(e, d). d = c) ENTITIES of Some (e, d) \<Rightarrow> e | None \<Rightarrow> [c])"

lemma escape_char_simp:
  "escape_char c = (if c = CHR ''&'' then ''&amp;'' else if c = CHR ''<'' then ''&lt;'' else if c = CHR ''>'' then ''&gt;''
     else if c = QUOTE then ''&quot;'' else if c = CHR 0x27 then ''&#39;'' else [c])"
  by (simp add: escape_char_def ENTITIES_def)

lemma replace_all_simps [simp]:
  "replace_all c r [] = []" "replace_all c r (d # s) = (if d = c then r else [d]) @ replace_all c r s"
  "replace_all c r (a @ b) = replace_all c r a @ replace_all c r b"
  by (simp_all add: replace_all_def)

lemma escapeHtml_eq: "escapeHtml s = concat (map escape_char s)"
  by (induction s) (auto simp: escapeHtml_def escape_char_simp)

lemma decode_escape_char: "decode_entities (escape_char c @ s) = c # decode_entities s"
  if "\<And>e d. (e, d) \<in> set ENTITIES \<Longrightarrow> c \<noteq> CHR ''&'' \<Longrightarrow> \<not> prefix e (c # s)"
  using that by (auto simp: escape_char_simp ENTITIES_def)

lemma decode_escapeHtml: "decode_entities (escapeHtml s) = s"
proof (induction s)
  case (Cons c s)
  have "decode_entities (escape_char c @ escapeHtml s) = c # decode_entities (escapeHtml s)"
    by (rule decode_escape_char) (auto simp: ENTITIES_def)
  then show ?case using Cons by (simp add: escapeHtml_eq)
qed (simp add: escapeHtml_eq)

end
