(* ===== verification/Tool_Cards.thy ===== *)
theory Tool_Cards
  imports Html_Text Otel_Attrs
begin

section \<open>Renderer components (\<open>extension/src/renderers/components\<close>)\<close>

text \<open>
  The cards of the run renderer, one definition per component: \<open>notify.ts\<close>, \<open>progress.ts\<close>,
  \<open>proxied.ts\<close>, \<open>conversational.ts\<close>, \<open>approval.ts\<close>, \<open>agent-emit.ts\<close>, \<open>provenance-chip.ts\<close>
  and \<open>contamination-badge.ts\<close>. A component maps the arguments of a tool call, the run id and
  the id counters of its module to the HTML text, or to \<open>None\<close> where the source throws, and
  the new counters. The text of \<open>Date.now().toString(36)\<close> and the glyphs outside the modelled
  character range are fields of the environment.
\<close>

record render_env =
  now36 :: string
  ellipsis :: string
  hook_arrow :: string

record id_counters =
  cardCounter :: nat
  talk_counter :: nat
  proxied_counter :: nat

type_synonym tool_renderer = "render_env \<Rightarrow> jsv \<Rightarrow> string \<Rightarrow> id_counters \<Rightarrow> string option \<times> id_counters"

definition nextId :: "render_env \<Rightarrow> string \<Rightarrow> nat \<Rightarrow> string" where
  "nextId env pre n = pre @ ''-'' @ now36 env @ ''-'' @ show_nat (Suc n)"

text \<open>\<open>String(args[k] ?? d)\<close> and \<open>Array.isArray(args[k]) ? args[k] : []\<close>.\<close>

definition str_arg :: "jsv \<Rightarrow> string \<Rightarrow> string \<Rightarrow> string option" where
  "str_arg args k d = js_String (coalesce (jprop args k) (JStr d))"

definition list_arg :: "jsv \<Rightarrow> string \<Rightarrow> jsv list" where
  "list_arg args k = (case jprop args k of JArr xs \<Rightarrow> xs | _ \<Rightarrow> [])"

text \<open>\<open>xs.map(f).join('')\<close>.\<close>

definition render_items :: "('a \<Rightarrow> string option) \<Rightarrow> 'a list \<Rightarrow> string option" where
  "render_items f xs = map_option concat (those (map f xs))"

definition list_item :: "jsv \<Rightarrow> string option" where
  "list_item v = map_option (\<lambda>s. ''<li>'' @ escapeHtml s @ ''</li>'') (js_String v)"

subsection \<open>\<open>notify\<close>\<close>

definition normImportance :: "jsv \<Rightarrow> string option" where
  "normImportance v = map_option (\<lambda>s. if s \<in> {''trace'', ''info'', ''warn''} then s else []) (js_String (coalesce v (JStr [])))"

definition notify_html :: "jsv \<Rightarrow> string option" where
  \<open>notify_html args = do {
     obs \<leftarrow> str_arg args ''observation'' [];
     imp \<leftarrow> normImportance (jprop args ''importance'');
     let badge = (if imp \<noteq> [] then ''<span class="rts-importance-badge" data-importance="'' @ escapeAttr imp @ ''">'' @ escapeHtml imp @ ''</span>''
                  else []);
         legacy = ''[NOTIFY] '' @ escapeHtml obs @ '' &mdash; importance: '' @ escapeHtml imp
     in Some (''<div class="rts-card rts-notify">'' @ badge @ ''<span class="rts-card-body">'' @ legacy @ ''</span></div>'') }\<close>

definition renderNotify :: tool_renderer where
  "renderNotify env args runId cs = (notify_html args, cs)"

subsection \<open>Progress reports\<close>

text \<open>\<open>Math.max(0, Math.min(100, p))\<close>.\<close>

fun clamp_percent :: "jsnum \<Rightarrow> jsnum" where
  "clamp_percent (Fin r) = Fin (max 0 (min 100 r))"
| "clamp_percent PosInf = Fin 100"
| "clamp_percent NegInf = Fin 0"
| "clamp_percent NaN = NaN"

definition progress_html :: "jsv \<Rightarrow> string option" where
  \<open>progress_html args = do {
     status \<leftarrow> str_arg args ''status'' [];
     let percent = (case jprop args ''percent'' of JNum x \<Rightarrow> Some (num_String (clamp_percent x)) | _ \<Rightarrow> None);
     let blockers = list_arg args ''blockers'';
     let bar = (case percent of
           Some p \<Rightarrow> ''<div class="rts-progress-bar" role="progressbar" aria-valuenow="'' @ escapeAttr p @
             ''" aria-valuemin="0" aria-valuemax="100"><div class="rts-progress-fill" style="width:'' @ p @ ''%"></div></div>''
         | None \<Rightarrow> []);
     let pctLabel = (case percent of Some p \<Rightarrow> '' ('' @ p @ ''%)'' | None \<Rightarrow> []);
     items \<leftarrow> render_items list_item blockers;
     let blockersList = (if blockers \<noteq> [] then ''<ul class="rts-artifact-list">'' @ items @ ''</ul>'' else [])
     in Some (''<div class="rts-card rts-report-progress"><div class="rts-card-title">'' @ escapeHtml status @ pctLabel @ ''</div>'' @
              bar @ blockersList @ ''</div>'') }\<close>

definition renderReportProgress :: tool_renderer where
  "renderReportProgress env args runId cs = (progress_html args, cs)"

definition artifact_item :: "jsv \<Rightarrow> string option" where
  \<open>artifact_item a = do {
     k \<leftarrow> member a ''kind'';
     kind \<leftarrow> js_String (coalesce k (JStr []));
     uri \<leftarrow> str_arg a ''uri'' [];
     title \<leftarrow> str_arg a ''title'' uri;
     let link = (if uri \<noteq> [] then ''<a href="'' @ escapeAttr uri @ ''">'' @ escapeHtml title @ ''</a>'' else escapeHtml title)
     in Some (''<li>'' @ escapeHtml kind @ '': '' @ (if uri \<noteq> [] then link @ '' '' else []) @
              ''<span class="rts-mono">'' @ escapeHtml uri @ ''</span></li>'') }\<close>

definition completion_html :: "jsv \<Rightarrow> string option" where
  \<open>completion_html args = do {
     summary \<leftarrow> str_arg args ''summary'' [];
     outcome \<leftarrow> str_arg args ''outcome'' ''success'';
     items \<leftarrow> render_items artifact_item (list_arg args ''artifacts'');
     let list = (if items \<noteq> [] then ''<ul class="rts-artifact-list">'' @ items @ ''</ul>'' else [])
     in Some (''<div class="rts-card rts-report-completion" data-outcome="'' @ escapeAttr outcome @
       ''"><div class="rts-card-title"><span class="rts-check-icon" aria-hidden="true"></span>[COMPLETED] '' @ escapeHtml summary @
       ''</div>'' @ list @ ''</div>'') }\<close>

definition renderReportCompletion :: tool_renderer where
  "renderReportCompletion env args runId cs = (completion_html args, cs)"

definition remediation_block :: "jsv \<Rightarrow> string option" where
  \<open>remediation_block remediation =
     (if truthy remediation
      then map_option (\<lambda>r. ''<div class="rts-card-body"><strong>Remediation:</strong> '' @ escapeHtml r @ ''</div>'') (js_String remediation)
      else Some [])\<close>

definition problem_html :: "jsv \<Rightarrow> string option" where
  \<open>problem_html args = do {
     severity \<leftarrow> str_arg args ''severity'' ''info'';
     description \<leftarrow> str_arg args ''description'' [];
     remBlock \<leftarrow> remediation_block (jprop args ''suggested_remediation'');
     items \<leftarrow> render_items list_item (list_arg args ''related_artifacts'');
     let relBlock = (if list_arg args ''related_artifacts'' \<noteq> [] then ''<ul class="rts-artifact-list">'' @ items @ ''</ul>'' else [])
     in Some (''<div class="rts-card rts-report-problem"><div class="rts-card-title"><span class="rts-severity-badge" data-severity="'' @
       escapeAttr severity @ ''">'' @ escapeHtml severity @ ''</span>'' @ escapeHtml description @ ''</div>'' @ remBlock @ relBlock @ ''</div>'') }\<close>

definition renderReportProblem :: tool_renderer where
  "renderReportProblem env args runId cs = (problem_html args, cs)"

subsection \<open>Proxied tools\<close>

definition read_file_html :: "string \<Rightarrow> jsv \<Rightarrow> string option" where
  \<open>read_file_html id0 args = do {
     path \<leftarrow> str_arg args ''path'' [];
     enc \<leftarrow> str_arg args ''encoding'' ''utf-8'';
     let outId = id0 @ ''-out'';
     Some (''
<div class="rts-card rts-read-file" id="'' @ escapeAttr id0 @ ''" data-rts-tool="read_file">
  <div class="rts-card-title">[read_file] <span class="rts-mono">'' @ escapeHtml path @ ''</span></div>
  <div class="rts-card-body">encoding='' @ escapeHtml enc @ ''</div>
  <div class="rts-button-row">
    <button type="button" class="rts-button-secondary" data-rts-toggle="'' @ escapeAttr outId @ ''">Show output</button>
  </div>
  <pre class="rts-terminal-block" id="'' @ escapeAttr outId @ ''" hidden>(output streams in via run.event)</pre>
</div>'') }\<close>

definition renderReadFile :: tool_renderer where
  "renderReadFile env args runId cs =
     (read_file_html (nextId env ''read'' (proxied_counter cs)) args, cs\<lparr>proxied_counter := Suc (proxied_counter cs)\<rparr>)"

definition write_file_html :: "string \<Rightarrow> jsv \<Rightarrow> string option" where
  \<open>write_file_html id0 args = do {
     path \<leftarrow> str_arg args ''path'' [];
     mode \<leftarrow> str_arg args ''mode'' ''overwrite'';
     Some (''
<div class="rts-card rts-write-file" id="'' @ escapeAttr id0 @ ''" data-rts-tool="write_file">
  <div class="rts-card-title">[write_file] <span class="rts-mono">'' @ escapeHtml path @ ''</span></div>
  <div class="rts-card-body">mode='' @ escapeHtml mode @ ''</div>
  <div class="rts-button-row">
    <button type="button" class="rts-button-secondary" data-rts-action="write_file_diff" data-rts-path="'' @ escapeAttr path @ ''">Show diff</button>
  </div>
</div>'') }\<close>

definition renderWriteFile :: tool_renderer where
  "renderWriteFile env args runId cs =
     (write_file_html (nextId env ''write'' (proxied_counter cs)) args, cs\<lparr>proxied_counter := Suc (proxied_counter cs)\<rparr>)"

definition run_command_html :: "string \<Rightarrow> jsv \<Rightarrow> string option" where
  \<open>run_command_html id0 args = do {
     command \<leftarrow> str_arg args ''command'' [];
     argsList \<leftarrow> those (map js_String (list_arg args ''args''));
     cwd \<leftarrow> str_arg args ''cwd'' [];
     let cmdLine = join '' '' (map escapeHtml (command # argsList));
     let termId = id0 @ ''-term'';
     Some (''
<div class="rts-card rts-run-command" id="'' @ escapeAttr id0 @ ''" data-rts-tool="run_command">
  <div class="rts-card-title">[run_command]</div>
  <div class="rts-mono">$ '' @ cmdLine @ (if cwd \<noteq> [] then ''   <span style="opacity:0.7">(cwd: '' @ escapeHtml cwd @ '')</span>'' else []) @ ''</div>
  <pre class="rts-terminal-block" id="'' @ escapeAttr termId @ ''">(stdout/stderr stream in via run.event)</pre>
</div>'') }\<close>

definition renderRunCommand :: tool_renderer where
  "renderRunCommand env args runId cs =
     (run_command_html (nextId env ''cmd'' (proxied_counter cs)) args, cs\<lparr>proxied_counter := Suc (proxied_counter cs)\<rparr>)"

subsection \<open>Conversational tools\<close>

definition ask_html :: "render_env \<Rightarrow> string \<Rightarrow> jsv \<Rightarrow> string \<Rightarrow> string option" where
  \<open>ask_html env id0 args runId = do {
     let inputId = id0 @ ''-answer'';
     question \<leftarrow> str_arg args ''question'' [];
     ctx \<leftarrow> str_arg args ''context'' [];
     let ctxBlock = (if ctx \<noteq> [] then ''<div class="rts-card-body"><em>'' @ escapeHtml ctx @ ''</em></div>'' else []);
     Some (''
<div class="rts-card rts-ask" id="'' @ escapeAttr id0 @ ''" data-rts-tool="ask" data-rts-run-id="'' @ escapeAttr runId @ ''">
  <div class="rts-card-title">'' @ escapeHtml question @ ''</div>
  '' @ ctxBlock @ ''
  <textarea class="rts-textarea" id="'' @ escapeAttr inputId @ ''" rows="3" data-rts-input-for="'' @ escapeAttr id0 @ ''" placeholder="Type your answer'' @ ellipsis env @ ''"></textarea>
  <div class="rts-button-row">
    <button type="button" class="rts-button-approve" data-rts-action="ask_response" data-rts-run-id="'' @ escapeAttr runId @ ''" data-rts-input-id="'' @ escapeAttr inputId @ ''">Submit</button>
  </div>
</div>'') }\<close>

definition renderAsk :: tool_renderer where
  "renderAsk env args runId cs =
     (ask_html env (nextId env ''ask'' (talk_counter cs)) args runId, cs\<lparr>talk_counter := Suc (talk_counter cs)\<rparr>)"

definition option_item :: "string \<Rightarrow> string \<Rightarrow> jsv \<Rightarrow> string option" where
  \<open>option_item groupName defaultId opt = do {
     i \<leftarrow> member opt ''id'';
     optId \<leftarrow> js_String (coalesce i (JStr []));
     label \<leftarrow> str_arg opt ''label'' optId;
     desc \<leftarrow> str_arg opt ''description'' [];
     let checked = (if optId = defaultId then '' checked'' else []);
     let descBlock = (if desc \<noteq> [] then '' <span class="rts-card-body">'' @ escapeHtml desc @ ''</span>'' else []);
     Some (''<li><label><input type="radio" name="'' @ escapeAttr groupName @ ''" value="'' @ escapeAttr optId @ ''"'' @ checked @ ''> '' @
       escapeHtml label @ ''</label>'' @ descBlock @ ''</li>'') }\<close>

definition clarify_html :: "string \<Rightarrow> jsv \<Rightarrow> string \<Rightarrow> string option" where
  \<open>clarify_html id0 args runId = do {
     let groupName = id0 @ ''-opt'';
     question \<leftarrow> str_arg args ''question'' [];
     defaultId \<leftarrow> str_arg args ''default_id'' [];
     items \<leftarrow> render_items (option_item groupName defaultId) (list_arg args ''options'');
     Some (''
<div class="rts-card rts-clarify" id="'' @ escapeAttr id0 @ ''" data-rts-tool="clarify" data-rts-run-id="'' @ escapeAttr runId @ ''">
  <div class="rts-card-title">'' @ escapeHtml question @ ''</div>
  <ul class="rts-radio-list">'' @ items @ ''</ul>
  <div class="rts-button-row">
    <button type="button" class="rts-button-approve" data-rts-action="clarify_response" data-rts-run-id="'' @ escapeAttr runId @ ''" data-rts-radio-name="'' @ escapeAttr groupName @ ''">Submit</button>
  </div>
</div>'') }\<close>

definition renderClarify :: tool_renderer where
  "renderClarify env args runId cs =
     (clarify_html (nextId env ''clarify'' (talk_counter cs)) args runId, cs\<lparr>talk_counter := Suc (talk_counter cs)\<rparr>)"

definition present_html :: "string \<Rightarrow> jsv \<Rightarrow> string \<Rightarrow> string option" where
  \<open>present_html id0 args runId = do {
     kind \<leftarrow> str_arg args ''kind'' [];
     summary \<leftarrow> str_arg args ''summary'' [];
     let artifact = (if truthy (jprop args ''artifact'') \<and> typeof_object (jprop args ''artifact'') then jprop args ''artifact'' else JObj []);
     uri \<leftarrow> str_arg artifact ''uri'' [];
     language \<leftarrow> str_arg artifact ''language'' [];
     Some (''
<div class="rts-card rts-present" id="'' @ escapeAttr id0 @ ''" data-rts-tool="present" data-rts-run-id="'' @ escapeAttr runId @ ''">
  <div class="rts-card-title">[present:'' @ escapeHtml kind @ ''] '' @ escapeHtml summary @ ''</div>
  '' @ (if uri \<noteq> [] then ''<div class="rts-card-body"><span class="rts-mono">'' @ escapeHtml uri @ ''</span>'' @
          (if language \<noteq> [] then '' ('' @ escapeHtml language @ '')'' else []) @ ''</div>'' else []) @ ''
  <div class="rts-button-row">
    <button type="button" class="rts-button-secondary" data-rts-action="present_show" data-rts-run-id="'' @ escapeAttr runId @ ''" data-rts-artifact-kind="'' @ escapeAttr kind @ ''" data-rts-artifact-uri="'' @ escapeAttr uri @ ''">Show artifact</button>
  </div>
</div>'') }\<close>

definition renderPresent :: tool_renderer where
  "renderPresent env args runId cs =
     (present_html (nextId env ''present'' (talk_counter cs)) args runId, cs\<lparr>talk_counter := Suc (talk_counter cs)\<rparr>)"

definition escalate_html :: "string \<Rightarrow> jsv \<Rightarrow> string \<Rightarrow> string option" where
  \<open>escalate_html id0 args runId = do {
     reason \<leftarrow> str_arg args ''reason'' [];
     severity \<leftarrow> str_arg args ''severity'' ''medium'';
     ctx \<leftarrow> str_arg args ''context'' [];
     let ctxBlock = (if ctx \<noteq> [] then ''<div class="rts-card-body">'' @ escapeHtml ctx @ ''</div>'' else []);
     Some (''
<div class="rts-card rts-escalate-banner" id="'' @ escapeAttr id0 @ ''" data-rts-tool="escalate" data-rts-run-id="'' @ escapeAttr runId @ ''" data-severity="'' @ escapeAttr severity @ ''">
  <div class="rts-card-title"><span class="rts-severity-badge" data-severity="'' @ escapeAttr (if severity = ''critical'' then ''fatal'' else ''error'') @ ''">'' @ escapeHtml severity @ ''</span>[ESCALATE] '' @ escapeHtml reason @ ''</div>
  '' @ ctxBlock @ ''
  <div class="rts-button-row">
    <button type="button" class="rts-button-approve" data-rts-action="dismiss_notification" data-rts-run-id="'' @ escapeAttr runId @ ''">Acknowledge</button>
  </div>
</div>'') }\<close>

definition renderEscalate :: tool_renderer where
  "renderEscalate env args runId cs =
     (escalate_html (nextId env ''escalate'' (talk_counter cs)) args runId, cs\<lparr>talk_counter := Suc (talk_counter cs)\<rparr>)"

subsection \<open>Approval cards\<close>

text \<open>\<open>readDiffPreview\<close> and \<open>readPreview\<close>: the key differs.\<close>

definition read_preview :: "string \<Rightarrow> jsv \<Rightarrow> jsv option" where
  "read_preview k args = (let p = jprop args k in if \<not> truthy p \<or> \<not> typeof_object p then None else Some p)"

definition readDiffPreview :: "jsv \<Rightarrow> jsv option" where
  "readDiffPreview args = read_preview ''diff_preview'' args"

definition readPreview :: "jsv \<Rightarrow> jsv option" where
  "readPreview args = read_preview ''preview'' args"

definition readAlternatives :: "jsv \<Rightarrow> jsv list" where
  "readAlternatives args = list_arg args ''alternatives''"

record card_opts =
  toolName :: string
  card_action :: string
  rationale :: string
  riskOrScope :: string
  riskAttr :: string
  card_preview :: "jsv option"
  card_alternatives :: "jsv list"

definition alternative_item :: "jsv \<Rightarrow> string option" where
  \<open>alternative_item a = do {
     l \<leftarrow> member a ''label'';
     label \<leftarrow> js_String (coalesce l (JStr []));
     desc \<leftarrow> str_arg a ''description'' [];
     Some (''<li><strong>'' @ escapeHtml label @ ''</strong>: '' @ escapeHtml desc @ ''</li>'') }\<close>

definition preview_block :: "string \<Rightarrow> jsv option \<Rightarrow> string option" where
  \<open>preview_block diffId preview =
     (case preview of
        Some p \<Rightarrow>
          if truthy (jprop p ''body'')
          then map_option (\<lambda>b. ''<pre class="rts-terminal-block" id="'' @ escapeAttr diffId @ ''" hidden>'' @ escapeHtml b @ ''</pre>'') (js_String (jprop p ''body''))
          else Some []
      | None \<Rightarrow> Some [])\<close>

definition buildCard :: "string \<Rightarrow> card_opts \<Rightarrow> string \<Rightarrow> string option" where
  \<open>buildCard cardId opts runId = do {
     let altsId = cardId @ ''-alts'';
     let diffId = cardId @ ''-diff'';
     let runIdAttr = escapeAttr runId;
     let alts = card_alternatives opts;
     previewBlock \<leftarrow> preview_block diffId (card_preview opts);
     let showDiff = (if card_preview opts \<noteq> None then ''<button type="button" class="rts-button-secondary" data-rts-toggle="'' @ escapeAttr diffId @ ''">Show diff</button>'' else []);
     items \<leftarrow> render_items alternative_item alts;
     let altsBlock = (if alts \<noteq> [] then ''<ul class="rts-artifact-list" id="'' @ escapeAttr altsId @ ''" hidden>'' @ items @ ''</ul>'' else []);
     let showAlts = (if alts \<noteq> [] then ''<button type="button" class="rts-button-secondary" data-rts-toggle="'' @ escapeAttr altsId @ ''">Show alternatives ('' @ show_nat (length alts) @ '')</button>'' else []);
     Some (''
<div class="rts-card rts-approval-card" data-'' @ riskAttr opts @ ''="'' @ escapeAttr (riskOrScope opts) @ ''" id="'' @ escapeAttr cardId @ ''" data-rts-tool="'' @ escapeAttr (toolName opts) @ ''" data-rts-run-id="'' @ runIdAttr @ ''">
  <div class="rts-card-title">['' @ escapeHtml (toolName opts) @ ''] '' @ escapeHtml (card_action opts) @ ''<span class="rts-risk-badge">'' @ escapeHtml (riskOrScope opts) @ ''</span></div>
  <div class="rts-card-body">'' @ escapeHtml (rationale opts) @ ''</div>
  '' @ previewBlock @ ''
  <div class="rts-button-row">
    <button type="button" class="rts-button-approve" data-rts-action="approval_response" data-rts-decision="approve" data-rts-run-id="'' @ runIdAttr @ ''">Approve</button>
    <button type="button" class="rts-button-reject" data-rts-action="approval_response" data-rts-decision="reject" data-rts-run-id="'' @ runIdAttr @ ''">Reject</button>
    '' @ showDiff @ ''
    '' @ showAlts @ ''
  </div>
  '' @ altsBlock @ ''
</div>'') }\<close>

text \<open>The strings are converted before \<open>buildCard\<close> takes an id.\<close>

definition renderRequestApproval :: tool_renderer where
  "renderRequestApproval env args runId cs =
     (case do {
        act \<leftarrow> str_arg args ''action'' [];
        rat \<leftarrow> js_String (coalesce (jprop args ''rationale'') (coalesce (jprop args ''description'') (JStr [])));
        risk \<leftarrow> str_arg args ''risk_level'' ''medium'';
        Some \<lparr>toolName = ''request_approval'', card_action = act, rationale = rat, riskOrScope = risk, riskAttr = ''risk'',
          card_preview = readDiffPreview args, card_alternatives = readAlternatives args\<rparr> } of
        None \<Rightarrow> (None, cs)
      | Some opts \<Rightarrow> (buildCard (nextId env ''request_approval'' (cardCounter cs)) opts runId,
                      cs\<lparr>cardCounter := Suc (cardCounter cs)\<rparr>))"

definition renderPropose :: tool_renderer where
  "renderPropose env args runId cs =
     (case do {
        act \<leftarrow> str_arg args ''action'' [];
        rat \<leftarrow> str_arg args ''rationale'' [];
        scp \<leftarrow> str_arg args ''scope'' ''one_shot'';
        Some \<lparr>toolName = ''propose'', card_action = act, rationale = rat, riskOrScope = scp, riskAttr = ''scope'',
          card_preview = readPreview args, card_alternatives = []\<rparr> } of
        None \<Rightarrow> (None, cs)
      | Some opts \<Rightarrow> (buildCard (nextId env ''propose'' (cardCounter cs)) opts runId,
                      cs\<lparr>cardCounter := Suc (cardCounter cs)\<rparr>))"

definition edit_buttons :: "bool \<Rightarrow> string \<Rightarrow> string \<Rightarrow> string \<Rightarrow> string \<Rightarrow> string" where
  \<open>edit_buttons decisionRecorded pathAttr approvalIdAttr runIdAttr proposedFieldId =
     (if decisionRecorded then ''<div class="rts-card-body rts-mono">decision recorded.</div>''
      else ''
  <div class="rts-button-row">
    <button type="button" class="rts-button-secondary" data-rts-action="propose_edit_review" data-rts-path="'' @ pathAttr @ ''" data-rts-approval-id="'' @ approvalIdAttr @ ''" data-rts-input-id="'' @ escapeAttr proposedFieldId @ ''">Review diff</button>
    <button type="button" class="rts-button-approve" data-rts-action="approval_response" data-rts-decision="approve" data-rts-run-id="'' @ runIdAttr @ ''" data-rts-approval-id="'' @ approvalIdAttr @ ''">Approve</button>
    <button type="button" class="rts-button-reject" data-rts-action="approval_response" data-rts-decision="reject" data-rts-run-id="'' @ runIdAttr @ ''" data-rts-approval-id="'' @ approvalIdAttr @ ''">Reject</button>
  </div>'')\<close>

definition edit_head :: "string \<Rightarrow> bool \<Rightarrow> string \<Rightarrow> string \<Rightarrow> string \<Rightarrow> string \<Rightarrow> string \<Rightarrow> string" where
  \<open>edit_head cardId decisionRecorded path summary proposedContent approvalId runId = ''
<div class="rts-card rts-approval-card rts-propose-edit" data-scope="propose_edit" id="'' @ escapeAttr cardId @ ''" data-rts-tool="propose_edit" data-rts-run-id="'' @ escapeAttr runId @ ''" data-rts-approval-id="'' @ escapeAttr approvalId @ ''"'' @ (if decisionRecorded then '' data-rts-decision-recorded="true"'' else []) @ ''>
  <div class="rts-card-title">[propose_edit] <span class="rts-mono">'' @ escapeHtml path @ ''</span></div>
  <div class="rts-card-body">'' @ escapeHtml summary @ ''</div>
  <textarea class="rts-propose-edit-payload" id="'' @ escapeAttr (cardId @ ''-proposed'') @ ''" hidden readonly>'' @ escapeHtml proposedContent @ ''</textarea>
  <input type="hidden" data-rts-proposed="true" value="'' @ escapeAttr proposedContent @ ''" />
  ''\<close>

definition propose_edit_html :: "string \<Rightarrow> jsv \<Rightarrow> string \<Rightarrow> string option" where
  \<open>propose_edit_html cardId args runId = do {
     path \<leftarrow> str_arg args ''path'' [];
     proposedContent \<leftarrow> str_arg args ''proposed_content'' [];
     approvalId \<leftarrow> str_arg args ''approval_id'' runId;
     summary \<leftarrow> str_arg args ''summary'' path;
     let decisionRecorded = (jprop args ''decision_recorded'' = JBool True);
     let buttonsBlock = edit_buttons decisionRecorded (escapeAttr path) (escapeAttr approvalId) (escapeAttr runId) (cardId @ ''-proposed'');
     Some (edit_head cardId decisionRecorded path summary proposedContent approvalId runId @ buttonsBlock @ ''
</div>'') }\<close>

definition renderProposeEdit :: tool_renderer where
  "renderProposeEdit env args runId cs =
     (propose_edit_html (nextId env ''propose_edit'' (cardCounter cs)) args runId, cs\<lparr>cardCounter := Suc (cardCounter cs)\<rparr>)"

subsection \<open>Raw agent output\<close>

definition EMIT_KINDS :: "string list" where
  "EMIT_KINDS = [''prose'', ''reasoning'', ''system_message'', ''result'', ''error'', ''stderr'', ''invalid_tool_use'', ''malformed_json'']"

definition normalizeEmitKind :: "string \<Rightarrow> string" where
  "normalizeEmitKind s = (if s \<in> set EMIT_KINDS then s else ''unknown'')"

definition PREVIEW_MAX_CHARS :: nat where
  "PREVIEW_MAX_CHARS = 80"

text \<open>\<open>replace(/\s+/g, ' ')\<close>.\<close>

fun squeeze_ws :: "bool \<Rightarrow> string \<Rightarrow> string" where
  "squeeze_ws inws [] = []"
| "squeeze_ws inws (c # s) =
     (if is_ws c then (if inws then [] else '' '') @ squeeze_ws True s else c # squeeze_ws False s)"

definition previewOf :: "render_env \<Rightarrow> string \<Rightarrow> string" where
  "previewOf env content =
     (if content = [] then []
      else let flat = trim (squeeze_ws False content) in
        if length flat \<le> PREVIEW_MAX_CHARS then flat
        else trimEnd (take (PREVIEW_MAX_CHARS - 1) flat) @ ellipsis env)"

definition renderAgentEmit :: "render_env \<Rightarrow> otlp_attribute list option \<Rightarrow> string \<Rightarrow> string" where
  \<open>renderAgentEmit env attributes runId =
     (let kind = normalizeEmitKind (getStringAttr attributes ''llmnb.emit_kind'' []);
          agentId = getStringAttr attributes ''llmnb.agent_id'' ''?'';
          content = getStringAttr attributes ''llmnb.emit_content'' [];
          diagnostic = getStringAttr attributes ''llmnb.parser_diagnostic'' [];
          preview = previewOf env content;
          bodyId = ''rts-agent-emit-body-'' @ escapeAttr runId;
          diagBlock = (if diagnostic \<noteq> [] then ''<div class="rts-agent-emit-diagnostic"><strong>parser:</strong> '' @ escapeHtml diagnostic @ ''</div>'' else [])
      in ''<div class="rts-card rts-agent-emit" data-emit-kind="'' @ escapeAttr kind @ ''">'' @
         ''<div class="rts-agent-emit-header" data-rts-action="agent_emit_toggle" data-rts-toggle="'' @ escapeAttr bodyId @ ''" data-rts-run-id="'' @ escapeAttr runId @ ''">'' @
         ''<span class="rts-agent-emit-kind">['' @ escapeHtml kind @ '']</span>'' @
         '' <span class="rts-agent-emit-agent">agent: '' @ escapeHtml agentId @ ''</span>'' @
         (if preview \<noteq> [] then '' <span class="rts-agent-emit-preview">'' @ escapeHtml preview @ ''</span>'' else []) @
         ''</div>'' @
         ''<div id="'' @ escapeAttr bodyId @ ''" class="rts-agent-emit-body" hidden>'' @
         ''<pre class="rts-agent-emit-content">'' @ escapeHtml content @ ''</pre>'' @
         diagBlock @ ''</div>'' @ ''</div>'')\<close>

subsection \<open>Provenance chip\<close>

record provenance =
  prov_cellId :: string
  generatedBy :: string
  generatedAt :: "string option"
  generatorMagicText :: "string option"

definition SHORT_ID_LEN :: nat where "SHORT_ID_LEN = 6"

definition GENERATOR_TEXT_MAX_CHARS :: nat where "GENERATOR_TEXT_MAX_CHARS = 40"

definition truncate_chip :: "render_env \<Rightarrow> string \<Rightarrow> nat \<Rightarrow> string" where
  "truncate_chip env s n = (if length s \<le> n then s else take (n - 1) s @ ellipsis env)"

definition firstNonBlankLine :: "string \<Rightarrow> string" where
  "firstNonBlankLine source =
     (case List.find (\<lambda>l. 0 < length (trim l)) (split_lines source) of Some l \<Rightarrow> trim l | None \<Rightarrow> [])"

definition formatProvenanceChipText :: "render_env \<Rightarrow> string option \<Rightarrow> string \<Rightarrow> string" where
  "formatProvenanceChipText env magicText by =
     (let shortId = take SHORT_ID_LEN by;
          trimmed = trim (case magicText of Some t \<Rightarrow> t | None \<Rightarrow> [])
      in if trimmed = [] then hook_arrow env @ '' from c_'' @ shortId
         else hook_arrow env @ '' from `'' @ truncate_chip env trimmed GENERATOR_TEXT_MAX_CHARS @ ''` in c_'' @ shortId)"

definition formatProvenanceChipTooltip :: "string option \<Rightarrow> string" where
  "formatProvenanceChipTooltip ts =
     ''Generated at '' @ (case ts of Some t \<Rightarrow> if t \<noteq> [] then t else ''(unknown time)'' | None \<Rightarrow> ''(unknown time)'') @
     ''. Click to jump to source.''"

definition renderProvenanceChip :: "render_env \<Rightarrow> provenance \<Rightarrow> string" where
  \<open>renderProvenanceChip env props =
     (if generatedBy props = [] then []
      else let chip = formatProvenanceChipText env (generatorMagicText props) (generatedBy props);
               tooltip = formatProvenanceChipTooltip (generatedAt props)
      in ''
<div class="rts-provenance-chip" data-rts-cell-id="'' @ escapeAttr (prov_cellId props) @ ''">
  <button type="button"
          class="rts-provenance-chip-button"
          data-rts-reveal-cell="'' @ escapeAttr (generatedBy props) @ ''"
          title="'' @ escapeAttr tooltip @ ''"
          aria-label="'' @ escapeAttr tooltip @ ''"
          style="background:var(--vscode-editorWidget-background,#252526);
                 color:var(--vscode-descriptionForeground,#9d9d9d);
                 border:1px solid var(--vscode-panel-border,#444);
                 padding:2px 8px;border-radius:3px;cursor:pointer;
                 font-family:var(--vscode-font-family,sans-serif);
                 font-size:var(--vscode-font-size,12px);">
    '' @ escapeHtml chip @ ''
  </button>
</div>'')\<close>

subsection \<open>Contamination badge\<close>

text \<open>\<open>escapeHtml(e.k ?? '')\<close>: throws when the entry is null or the field is no string.\<close>

definition entry_text :: "jsv \<Rightarrow> string \<Rightarrow> string option" where
  "entry_text e k = do { v \<leftarrow> member e k; case coalesce v (JStr []) of JStr s \<Rightarrow> Some (escapeHtml s) | _ \<Rightarrow> None }"

definition contamination_row :: "jsv \<Rightarrow> string option" where
  \<open>contamination_row e = do {
     ts \<leftarrow> entry_text e ''ts'';
     src \<leftarrow> entry_text e ''source'';
     layer \<leftarrow> entry_text e ''layer'';
     ln \<leftarrow> entry_text e ''line'';
     Some (''
    <tr>
      <td class="rts-cont-ts">'' @ ts @ ''</td>
      <td class="rts-cont-source">'' @ src @ ''</td>
      <td class="rts-cont-layer">'' @ layer @ ''</td>
      <td class="rts-cont-line"><code>'' @ ln @ ''</code></td>
    </tr>'') }\<close>

definition badge_head :: "string \<Rightarrow> nat \<Rightarrow> string" where
  \<open>badge_head cellId n = ''
<div class="rts-contamination-badge" data-rts-cell-id="'' @ escapeAttr cellId @ ''">
  <button type="button"
          class="rts-contamination-chip"
          id="'' @ escapeAttr (''rts-cont-'' @ cellId @ ''-header'') @ ''"
          data-rts-toggle="'' @ escapeAttr (''rts-cont-'' @ cellId @ ''-panel'') @ ''"
          aria-controls="'' @ escapeAttr (''rts-cont-'' @ cellId @ ''-panel'') @ ''"
          aria-expanded="false"
          style="background:var(--vscode-inputValidation-warningBackground,#5a3e00);
                 color:var(--vscode-inputValidation-warningForeground,#ffd966);
                 border:1px solid var(--vscode-inputValidation-warningBorder,#b8860b);
                 padding:4px 10px;border-radius:3px;cursor:pointer;
                 font-family:var(--vscode-font-family,sans-serif);
                 font-size:var(--vscode-font-size,13px);">
    &#9888; Contamination detected ('' @ show_nat n @ '' '' @ (if n = 1 then ''entry'' else ''entries'') @ '')
  </button>''\<close>

definition badge_panel :: "string \<Rightarrow> string \<Rightarrow> string" where
  \<open>badge_panel cellId rs = ''
  <div class="rts-contamination-panel"
       id="'' @ escapeAttr (''rts-cont-'' @ cellId @ ''-panel'') @ ''"
       hidden
       style="margin-top:6px;padding:8px;
              background:var(--vscode-editor-background,#1e1e1e);
              color:var(--vscode-foreground,#cccccc);
              border:1px solid var(--vscode-panel-border,#444);
              border-radius:3px;">
'' @ ''    <table class="rts-contamination-table" style="width:100%;border-collapse:collapse;font-size:12px;">
'' @ ''      <thead>
        <tr style="text-align:left;border-bottom:1px solid var(--vscode-panel-border,#444);">
'' @ ''          <th style="padding:2px 6px;">Time</th>
          <th style="padding:2px 6px;">Source</th>
'' @ ''          <th style="padding:2px 6px;">Layer</th>
          <th style="padding:2px 6px;">Line</th>
        </tr>
      </thead>
'' @ ''      <tbody>'' @ rs @ ''</tbody>
    </table>
    <div style="margin-top:8px;display:flex;justify-content:flex-end;">
'' @ ''      <button type="button"
              class="rts-contamination-reset"
              data-rts-reset-contamination="'' @ escapeAttr cellId @ ''"
              style="padding:4px 10px;border-radius:3px;cursor:pointer;
                     background:var(--vscode-button-background,#0e639c);
                     color:var(--vscode-button-foreground,#ffffff);
                     border:1px solid var(--vscode-button-border,transparent);">
        Reset contamination
      </button>
    </div>
  </div>
</div>''\<close>

definition renderContaminationBadge :: "string \<Rightarrow> bool \<Rightarrow> jsv \<Rightarrow> string option" where
  "renderContaminationBadge cellId flagged log_value =
     (if \<not> flagged then Some []
      else let es = (case log_value of JArr xs \<Rightarrow> xs | _ \<Rightarrow> []) in
        map_option (\<lambda>rs. badge_head cellId (length es) @ badge_panel cellId rs) (render_items contamination_row es))"

subsection \<open>Accepted markup\<close>

lemma render_items_ok:
  assumes "render_items f xs = Some s" "\<And>x t. f x = Some t \<Longrightarrow> html_ok t"
  shows "html_ok s"
proof -
  obtain ts where ts: "those (map f xs) = Some ts" "s = concat ts" using assms(1) by (auto simp: render_items_def)
  have "\<forall>t \<in> set ts. html_ok t" using ts(1) assms(2)
    by (induction xs arbitrary: ts) (auto split: option.splits)
  then show ?thesis using ts(2) html_ok_concat by auto
qed

lemma html_ok_check: "html_ok s \<Longrightarrow> html_check tag_ok Data [] s = Some (Data, [])"
  by (simp add: html_ok_def)

lemma list_item_ok: "list_item v = Some t \<Longrightarrow> html_ok t"
  by (auto simp: list_item_def html_ok_def html_eval)

lemma notify_ok: "notify_html args = Some s \<Longrightarrow> html_ok s"
  by (auto simp: notify_html_def html_ok_def html_eval bind_eq_Some_conv Let_def split: if_splits)

lemma show_nat_chars: "c \<in> set (show_nat n) \<Longrightarrow> is_digit c"
  using show_nat_digits[of n] by (simp add: list_all_iff)

lemma frac_digits_chars: "0 \<le> f \<Longrightarrow> f < 1 \<Longrightarrow> c \<in> set (frac_digits n f) \<Longrightarrow> is_digit c"
proof (induction n arbitrary: f)
  case (Suc n)
  have d: "nat \<lfloor>10 * f\<rfloor> < 10" using Suc.prems by (simp add: nat_less_iff floor_less_iff)
  have r: "0 \<le> 10 * f - of_int \<lfloor>10 * f\<rfloor>" "10 * f - of_int \<lfloor>10 * f\<rfloor> < 1" by (simp, linarith)
  show ?case using Suc.IH[OF r] Suc.prems digit_char_digit[OF d] by (auto split: if_splits)
qed simp

lemma clamped_chars:
  assumes "c \<in> set (num_String (clamp_percent x))"
  shows "c \<noteq> CHR ''<'' \<and> c \<noteq> QUOTE"
proof -
  have d: "is_digit c \<Longrightarrow> c \<noteq> CHR ''<'' \<and> c \<noteq> QUOTE" by (auto simp: is_digit_def)
  show ?thesis
  proof (cases "clamp_percent x")
    case (Fin r)
    then have r: "0 \<le> r" "r \<le> 100" by (cases x, auto)+
    have safe: "safe_int \<lfloor>r\<rfloor>" using r by (simp add: safe_int_def max_safe_integer_def le_floor_iff floor_le_iff abs_le_iff)
    have f: "c \<in> set (frac_digits 1100 (r - of_int \<lfloor>r\<rfloor>)) \<Longrightarrow> is_digit c"
      by (rule frac_digits_chars[of "r - of_int \<lfloor>r\<rfloor>"]) (simp, linarith, simp)
    have "\<lfloor>r\<rfloor> \<ge> 0" "\<bar>r\<bar> = r" "\<not> r < 0" using r by simp_all
    then have "c \<in> set (show_nat (nat \<lfloor>r\<rfloor>)) \<or> c = CHR ''.'' \<or> c \<in> set (frac_digits 1100 (r - of_int \<lfloor>r\<rfloor>))"
      using assms Fin safe by (auto simp: num_String_def show_num_def show_int_def split: if_splits)
    then show ?thesis using d f show_nat_chars by auto
  qed (use assms in \<open>auto simp: num_String_def\<close>)
qed

lemma html_check_digits [simp]: "html_check ok Data t (show_nat n) = Some (Data, t)"
  by (intro html_check_text) (auto simp: is_digit_def dest: show_nat_chars)

lemma percent_check [simp]:
  "html_check ok Data t (num_String (clamp_percent x)) = Some (Data, t)"
  "html_check ok Double_quoted t (num_String (clamp_percent x)) = Some (Double_quoted, t)"
  using clamped_chars[of _ x] by (auto intro!: html_check_text html_check_value)

lemmas card_parts = bind_eq_Some_conv Let_def

lemmas card_eval = html_ok_def html_eval

lemma progress_ok:
  assumes "progress_html args = Some s"
  shows "html_ok s"
proof -
  obtain items where i: "render_items list_item (list_arg args ''blockers'') = Some items"
    using assms by (auto simp: progress_html_def bind_eq_Some_conv Let_def)
  have "html_check tag_ok Data [] items = Some (Data, [])" by (rule html_ok_check[OF render_items_ok[OF i list_item_ok]])
  then show ?thesis using assms i
    by (cases "jprop args ''percent''") (clarsimp simp: progress_html_def card_parts simp del: append_Cons, simp add: card_eval del: append_Cons cong: bind_cong_weak)+
qed

lemma artifact_item_ok: "artifact_item a = Some s \<Longrightarrow> html_ok s"
  by (clarsimp simp: artifact_item_def card_parts simp del: append_Cons) (simp add: card_eval del: append_Cons cong: bind_cong_weak)

lemma completion_ok:
  assumes "completion_html args = Some s"
  shows "html_ok s"
proof -
  obtain items where i: "render_items artifact_item (list_arg args ''artifacts'') = Some items"
    using assms by (auto simp: completion_html_def bind_eq_Some_conv Let_def)
  have "html_check tag_ok Data [] items = Some (Data, [])" by (rule html_ok_check[OF render_items_ok[OF i artifact_item_ok]])
  then show ?thesis using assms i by (clarsimp simp: completion_html_def card_parts simp del: append_Cons) (simp add: card_eval del: append_Cons cong: bind_cong_weak)
qed

lemma remediation_ok: "remediation_block v = Some s \<Longrightarrow> html_ok s"
  by (auto simp: remediation_block_def card_eval split: if_splits)

lemma problem_ok:
  assumes "problem_html args = Some s"
  shows "html_ok s"
proof -
  obtain items rem where i: "render_items list_item (list_arg args ''related_artifacts'') = Some items"
    and r: "remediation_block (jprop args ''suggested_remediation'') = Some rem"
    using assms by (auto simp: problem_html_def card_parts)
  have "html_check tag_ok Data [] items = Some (Data, [])" by (rule html_ok_check[OF render_items_ok[OF i list_item_ok]])
  moreover have "html_check tag_ok Data [] rem = Some (Data, [])" by (rule html_ok_check[OF remediation_ok[OF r]])
  ultimately show ?thesis using assms i r by (clarsimp simp: problem_html_def card_parts simp del: append_Cons) (simp add: card_eval del: append_Cons cong: bind_cong_weak)
qed

lemma read_file_ok: "read_file_html i args = Some s \<Longrightarrow> html_ok s"
  by (clarsimp simp: read_file_html_def card_parts simp del: append_Cons) (simp add: card_eval del: append_Cons cong: bind_cong_weak)

lemma write_file_ok: "write_file_html i args = Some s \<Longrightarrow> html_ok s"
  by (clarsimp simp: write_file_html_def card_parts simp del: append_Cons) (simp add: card_eval del: append_Cons cong: bind_cong_weak)

lemma command_line_ok: "html_check tag_ok Data [] (join '' '' (map escapeHtml xs)) = Some (Data, [])"
  by (rule html_ok_check, rule html_ok_join) (auto intro: html_intros simp: html_ok_def)

lemma run_command_ok: "run_command_html i args = Some s \<Longrightarrow> html_ok s"
  by (clarsimp simp: run_command_html_def card_parts simp del: append_Cons join.simps list.map) (simp add: card_eval command_line_ok del: join.simps list.map append_Cons cong: bind_cong_weak)

text \<open>The placeholder of an answer field holds the ellipsis unescaped.\<close>

definition plain_glyphs :: "render_env \<Rightarrow> bool" where
  "plain_glyphs env \<longleftrightarrow> QUOTE \<notin> set (ellipsis env)"

lemma ask_ok: "ask_html env i args r = Some s \<Longrightarrow> plain_glyphs env \<Longrightarrow> html_ok s"
  by (clarsimp simp: ask_html_def card_parts simp del: append_Cons) (simp add: card_eval plain_glyphs_def html_check_value del: append_Cons cong: bind_cong_weak)

lemma option_item_ok: "option_item g d v = Some s \<Longrightarrow> html_ok s"
  by (clarsimp simp: option_item_def card_parts simp del: append_Cons) (simp add: card_eval del: append_Cons cong: bind_cong_weak)

lemma clarify_ok:
  assumes "clarify_html i args r = Some s"
  shows "html_ok s"
proof -
  obtain d items where it: "render_items (option_item (i @ ''-opt'') d) (list_arg args ''options'') = Some items"
    and d: "str_arg args ''default_id'' [] = Some d"
    using assms by (auto simp: clarify_html_def bind_eq_Some_conv Let_def)
  have "html_check tag_ok Data [] items = Some (Data, [])" by (rule html_ok_check[OF render_items_ok[OF it option_item_ok]])
  then show ?thesis using assms it d by (clarsimp simp: clarify_html_def card_parts simp del: append_Cons) (simp add: card_eval del: append_Cons cong: bind_cong_weak)
qed

lemma present_ok: "present_html i args r = Some s \<Longrightarrow> html_ok s"
  by (clarsimp simp: present_html_def card_parts simp del: append_Cons) (simp add: card_eval del: append_Cons cong: bind_cong_weak)

lemma escalate_ok: "escalate_html i args r = Some s \<Longrightarrow> html_ok s"
  by (clarsimp simp: escalate_html_def card_parts simp del: append_Cons) (simp add: card_eval del: append_Cons cong: bind_cong_weak)

lemma preview_block_ok: "preview_block i p = Some s \<Longrightarrow> html_ok s"
  by (auto simp: preview_block_def card_eval split: if_splits option.splits)

lemma alternative_item_ok: "alternative_item a = Some s \<Longrightarrow> html_ok s"
  by (clarsimp simp: alternative_item_def card_parts simp del: append_Cons) (simp add: card_eval del: append_Cons cong: bind_cong_weak)

lemma buildCard_ok:
  assumes "buildCard i opts r = Some s" "riskAttr opts = ''risk'' \<or> riskAttr opts = ''scope''"
  shows "html_ok s"
proof -
  obtain pb items where p: "preview_block (i @ ''-diff'') (card_preview opts) = Some pb"
    and it: "render_items alternative_item (card_alternatives opts) = Some items"
    using assms by (auto simp: buildCard_def bind_eq_Some_conv Let_def)
  have "html_check tag_ok Data [] items = Some (Data, [])" by (rule html_ok_check[OF render_items_ok[OF it alternative_item_ok]])
  moreover have "html_check tag_ok Data [] pb = Some (Data, [])" by (rule html_ok_check[OF preview_block_ok[OF p]])
  ultimately show ?thesis using assms(1) p it
    by (cases rule: disjE[OF assms(2)]) (clarsimp simp: buildCard_def card_parts simp del: append_Cons, simp add: card_eval del: append_Cons cong: bind_cong_weak)+
qed

lemma edit_buttons_ok: "html_ok (edit_buttons b (escapeAttr p) (escapeAttr a) (escapeAttr r) i)"
  by (simp add: edit_buttons_def card_eval del: append_Cons cong: bind_cong_weak)

lemma edit_head_ok: "html_ok (edit_head i b p sm c a r)"
  by (simp add: edit_head_def card_eval del: append_Cons cong: bind_cong_weak)

lemma propose_edit_ok: "propose_edit_html i args r = Some s \<Longrightarrow> html_ok s"
  by (clarsimp simp: propose_edit_html_def card_parts simp del: append_Cons)
    (simp add: card_eval html_ok_check[OF edit_head_ok] html_ok_check[OF edit_buttons_ok] del: append_Cons cong: bind_cong_weak)

lemma agent_emit_ok: "html_ok (renderAgentEmit env attrs r)"
  by (simp add: renderAgentEmit_def Let_def card_eval del: append_Cons cong: bind_cong_weak)

lemma provenance_ok: "html_ok (renderProvenanceChip env pr)"
  by (simp add: renderProvenanceChip_def Let_def card_eval del: append_Cons cong: bind_cong_weak)

lemma entry_text_check: "entry_text e k = Some s \<Longrightarrow> html_check ok Data t s = Some (Data, t)"
  by (cases "coalesce (jprop e k) (JStr [])") (auto simp: entry_text_def member_def split: if_splits)

lemma contamination_row_ok: "contamination_row e = Some s \<Longrightarrow> html_ok s"
  by (clarsimp simp: contamination_row_def card_parts simp del: append_Cons) (simp add: card_eval entry_text_check del: append_Cons cong: bind_cong_weak)

lemma badge_head_ok: "html_ok (badge_head c n)"
  by (simp add: badge_head_def card_eval del: append_Cons cong: bind_cong_weak)

lemma badge_panel_ok: "html_ok rs \<Longrightarrow> html_ok (badge_panel c rs)"
  by (simp add: badge_panel_def card_eval del: append_Cons cong: bind_cong_weak)

lemma contamination_badge_ok:
  assumes "renderContaminationBadge c flagged lg = Some s"
  shows "html_ok s"
proof (cases flagged)
  case True
  let ?es = "case lg of JArr xs \<Rightarrow> xs | _ \<Rightarrow> []"
  obtain rs where rs: "render_items contamination_row ?es = Some rs" "s = badge_head c (length ?es) @ badge_panel c rs"
    using assms True by (auto simp: renderContaminationBadge_def Let_def)
  have "html_check tag_ok Data [] rs = Some (Data, [])" by (rule html_ok_check[OF render_items_ok[OF rs(1) contamination_row_ok]])
  then show ?thesis unfolding rs(2) by (intro html_ok_append badge_head_ok badge_panel_ok) (simp add: html_ok_def)
qed (use assms in \<open>simp add: renderContaminationBadge_def\<close>)

end
