(* ===== verification/Run_Renderer.thy ===== *)
theory Run_Renderer
  imports Tool_Cards Blob_Resolver
begin

section \<open>Run renderer (\<open>extension/src/renderers/run-renderer.ts\<close>)\<close>

text \<open>
  The dispatch of a run-MIME payload to the components, the provenance of an output item, the
  arguments of a tool call read through the blob table, and the delegated click handler. A payload
  is given by what the renderer reads of it; \<open>None\<close> as a result is an exception, which
  \<open>renderOutputItem\<close> turns into a line of text. An element of the page is its attribute list and
  a click target the path of elements from the target to the root.
\<close>

subsection \<open>Payloads\<close>

record run_payload =
  pl_json :: jsv
  pl_event :: "(string \<times> otlp_attribute list option) option"
  pl_attributes :: "otlp_attribute list option option"
  pl_spanId :: "string option"
  pl_name :: string
  pl_endTime :: "string option"
  pl_status :: "string option"

definition pl_object :: "run_payload \<Rightarrow> bool" where
  "pl_object p \<longleftrightarrow> truthy (pl_json p) \<and> typeof_object (pl_json p)"

definition span_attributes :: "run_payload \<Rightarrow> otlp_attribute list option" where
  "span_attributes p = (case pl_attributes p of Some a \<Rightarrow> a | None \<Rightarrow> None)"

subsection \<open>Tool dispatch\<close>

definition TOOL_RENDERERS :: "(string \<times> tool_renderer) list" where
  "TOOL_RENDERERS =
     [(''notify'', renderNotify), (''request_approval'', renderRequestApproval), (''propose'', renderPropose),
      (''propose_edit'', renderProposeEdit), (''report_progress'', renderReportProgress),
      (''report_completion'', renderReportCompletion), (''report_problem'', renderReportProblem), (''ask'', renderAsk),
      (''clarify'', renderClarify), (''present'', renderPresent), (''escalate'', renderEscalate),
      (''read_file'', renderReadFile), (''write_file'', renderWriteFile), (''run_command'', renderRunCommand)]"

text \<open>The table is an object literal: a name it does not have is looked up in \<open>Object.prototype\<close>.
  Called without a receiver, \<open>constructor\<close> returns its argument, \<open>toString\<close> the text of
  undefined, and every other member throws (\<open>__proto__\<close> is no function). The result is then
  concatenated to a string.\<close>

definition OBJECT_MEMBERS :: "string list" where
  "OBJECT_MEMBERS =
     [''constructor'', ''toString'', ''hasOwnProperty'', ''isPrototypeOf'', ''propertyIsEnumerable'', ''toLocaleString'',
      ''valueOf'', ''__defineGetter__'', ''__defineSetter__'', ''__lookupGetter__'', ''__lookupSetter__'', ''__proto__'']"

definition call_inherited :: "string \<Rightarrow> jsv \<Rightarrow> string option" where
  "call_inherited name args =
     (if name = ''constructor'' then js_String args
      else if name = ''toString'' then Some ''[object Undefined]'' else None)"

definition parseInputValue :: "hash \<Rightarrow> (string \<times> blob_entry) list \<Rightarrow> otlp_attribute list option \<Rightarrow> jsv" where
  "parseInputValue sha256 blobs attrs =
     (let raw = getStringAttr attrs ''input.value'' [] in
      if raw = [] then JObj []
      else case JSON_parse (fst (resolveString sha256 blobs raw)) of
        Some parsed \<Rightarrow> if truthy parsed \<and> typeof_object parsed then fst (resolve sha256 blobs parsed) else JObj []
      | None \<Rightarrow> JObj [])"

text \<open>\<open>args['decision_recorded'] = true\<close>; an array keeps its elements under their indices, and
  neither \<open>JSON.stringify\<close> nor \<open>String\<close> shows a named property of an array.\<close>

fun record_decision :: "jsv \<Rightarrow> jsv" where
  "record_decision (JObj kvs) = JObj (js_assign ''decision_recorded'' (JBool True) kvs)"
| "record_decision (JArr xs) = JObj (array_entries xs @ [(''decision_recorded'', JBool True)])"
| "record_decision v = v"

fun shown_args :: "jsv \<Rightarrow> bool \<Rightarrow> jsv" where
  "shown_args (JArr xs) recorded = JArr xs"
| "shown_args v recorded = (if recorded then record_decision v else v)"

definition first_nonempty :: "string list \<Rightarrow> string \<Rightarrow> string" where
  "first_nonempty xs d = (case List.find (\<lambda>s. s \<noteq> []) xs of Some s \<Rightarrow> s | None \<Rightarrow> d)"

definition run_tool_name :: "run_payload \<Rightarrow> string" where
  "run_tool_name p =
     first_nonempty [getStringAttr (span_attributes p) ''tool.name'' [], getStringAttr (span_attributes p) ''llmnb.tool_name'' []]
       (pl_name p)"

definition render_tool ::
  "render_env \<Rightarrow> hash \<Rightarrow> (string \<times> blob_entry) list \<Rightarrow> run_payload \<Rightarrow> string \<Rightarrow> id_counters \<Rightarrow> string option \<times> id_counters" where
  \<open>render_tool env sha256 blobs p spanId cs =
     (let attrs = span_attributes p;
          args = parseInputValue sha256 blobs attrs;
          recorded = (getStringAttr attrs ''llmnb.approval.decision_recorded'' [] = ''true'');
          name = run_tool_name p
      in case map_of TOOL_RENDERERS name of
           Some fn \<Rightarrow> fn env (if recorded then record_decision args else args) spanId cs
         | None \<Rightarrow>
             if name \<in> set OBJECT_MEMBERS then (call_inherited name (shown_args args recorded), cs)
             else (map_option (\<lambda>j. ''<div class="rts-tool-generic">['' @ escapeHtml name @ ''] '' @ escapeHtml j @ ''</div>'')
                     (JSON_stringify None (shown_args args recorded)), cs))\<close>

definition renderOpenSpan ::
  "render_env \<Rightarrow> hash \<Rightarrow> (string \<times> blob_entry) list \<Rightarrow> run_payload \<Rightarrow> string \<Rightarrow> id_counters \<Rightarrow> string option \<times> id_counters" where
  \<open>renderOpenSpan env sha256 blobs p spanId cs =
     (let runType = getStringAttr (span_attributes p) ''llmnb.run_type'' [] in
      if runType = ''agent_emit'' then (Some (renderAgentEmit env (span_attributes p) spanId), cs)
      else if runType = ''tool'' then render_tool env sha256 blobs p spanId cs
      else (Some (''<div class="rts-run-start"><strong>['' @ escapeHtml (if runType \<noteq> [] then runType else ''unknown'') @ ''] '' @
                  escapeHtml (pl_name p) @ ''</strong></div>''), cs))\<close>

definition renderClosedSpan :: "run_payload \<Rightarrow> string" where
  \<open>renderClosedSpan p =
     (let code = (case pl_status p of Some c \<Rightarrow> c | None \<Rightarrow> ''STATUS_CODE_UNSET'');
          label = (if code = ''STATUS_CODE_OK'' then ''success'' else if code = ''STATUS_CODE_ERROR'' then ''error'' else ''unset'')
      in ''<div class="rts-run-complete">[done: '' @ escapeHtml label @ '']</div>'')\<close>

definition json_dump :: "run_payload \<Rightarrow> string option" where
  "json_dump p = map_option (\<lambda>j. ''<pre>'' @ escapeHtml j @ ''</pre>'') (JSON_stringify (Some 0) (pl_json p))"

definition event_html :: "string \<Rightarrow> otlp_attribute list option \<Rightarrow> string option" where
  \<open>event_html name attrs =
     map_option (\<lambda>j. ''<div class="rts-run-event"><em>'' @ escapeHtml name @ ''</em> '' @ escapeHtml j @ ''</div>'')
       (JSON_stringify None (JObj (decodeAttrs attrs)))\<close>

definition renderRunMime ::
  "render_env \<Rightarrow> hash \<Rightarrow> (string \<times> blob_entry) list \<Rightarrow> run_payload \<Rightarrow> id_counters \<Rightarrow> string option \<times> id_counters" where
  "renderRunMime env sha256 blobs p cs =
     (if \<not> pl_object p then (json_dump p, cs)
      else case pl_event p of
        Some (name, attrs) \<Rightarrow> (event_html name attrs, cs)
      | None \<Rightarrow>
          (case pl_spanId p of
             None \<Rightarrow> (json_dump p, cs)
           | Some i \<Rightarrow>
               (case pl_endTime p of
                  Some (_ # _) \<Rightarrow> (Some (renderClosedSpan p), cs)
                | _ \<Rightarrow> renderOpenSpan env sha256 blobs p i cs)))"

subsection \<open>Provenance and output items\<close>

definition nonempty_text_of :: "jsv \<Rightarrow> string option" where
  "nonempty_text_of v = (case v of JStr s \<Rightarrow> if 0 < length s then Some s else None | _ \<Rightarrow> None)"

definition extractProvenanceFromOutputItem :: "jsv \<Rightarrow> run_payload \<Rightarrow> provenance option" where
  "extractProvenanceFromOutputItem item_meta p =
     (let present = pl_object p \<and> pl_attributes p \<noteq> None;
          attr = (\<lambda>k. if present then getStringAttr (span_attributes p) k [] else []);
          opt = (\<lambda>s. if 0 < length s then Some s else None);
          from_span = \<lparr>prov_cellId = attr ''llmnb.cell_id'', generatedBy = attr ''llmnb.generated_by'',
            generatedAt = opt (attr ''llmnb.generated_at''), generatorMagicText = opt (attr ''llmnb.generator_text'')\<rparr>;
          rts = jprop item_meta ''rts'';
          field = (\<lambda>k. nonempty_text_of (jprop rts k));
          prov = (if generatedBy from_span = [] \<and> truthy rts \<and> typeof_object rts then
            \<lparr>prov_cellId = (case field ''cell_id'' of Some s \<Rightarrow> s | None \<Rightarrow> prov_cellId from_span),
             generatedBy = (case field ''generated_by'' of Some s \<Rightarrow> s | None \<Rightarrow> []),
             generatedAt = (case field ''generated_at'' of Some s \<Rightarrow> Some s | None \<Rightarrow> generatedAt from_span),
             generatorMagicText = (case field ''generator_text'' of Some s \<Rightarrow> Some s | None \<Rightarrow> generatorMagicText from_span)\<rparr>
            else from_span)
      in if generatedBy prov = [] then None else Some prov)"

datatype element_content = Inner_html string | Render_failed

definition renderOutputItem ::
  "render_env \<Rightarrow> hash \<Rightarrow> (string \<times> blob_entry) list \<Rightarrow> jsv \<Rightarrow> run_payload option \<Rightarrow> id_counters \<Rightarrow> element_content \<times> id_counters" where
  "renderOutputItem env sha256 blobs item_meta payload cs =
     (case payload of
        None \<Rightarrow> (Render_failed, cs)
      | Some p \<Rightarrow>
          (let chipHtml = (case extractProvenanceFromOutputItem item_meta p of
                 Some pr \<Rightarrow> renderProvenanceChip env pr | None \<Rightarrow> []);
               (html, cs') = renderRunMime env sha256 blobs p cs
           in (case html of Some h \<Rightarrow> Inner_html (chipHtml @ h) | None \<Rightarrow> Render_failed, cs')))"

subsection \<open>Clicks\<close>

type_synonym element = "(string \<times> string) list"

definition closest :: "string \<Rightarrow> element list \<Rightarrow> element option" where
  "closest attr path = List.find (\<lambda>e. map_of e attr \<noteq> None) path"

text \<open>What the handler finds in the page: the ids of its elements, the text fields (whether one
  belongs to an edit proposal, and its value) and the checked radio buttons.\<close>

record page =
  page_ids :: "string list"
  page_inputs :: "(string \<times> bool \<times> string) list"
  page_radios :: "(string \<times> string) list"

datatype click_effect = Toggle_hidden string | Post_message jsv

text \<open>\<open>if (v) params[k] = v\<close>.\<close>

definition put_attr :: "element \<Rightarrow> string \<Rightarrow> string \<Rightarrow> jsobj \<Rightarrow> jsobj" where
  "put_attr e attr k params =
     (case map_of e attr of Some v \<Rightarrow> if v \<noteq> [] then js_assign k (JStr v) params else params | None \<Rightarrow> params)"

definition put_input :: "page \<Rightarrow> element \<Rightarrow> jsobj \<Rightarrow> jsobj" where
  "put_input pg e params =
     (case map_of e ''data-rts-input-id'' of
        Some i \<Rightarrow>
          if i = [] then params
          else (case map_of (page_inputs pg) i of
                  Some (isProposed, v) \<Rightarrow> js_assign (if isProposed then ''proposed_content'' else ''answer'') (JStr v) params
                | None \<Rightarrow> params)
      | None \<Rightarrow> params)"

definition put_radio :: "page \<Rightarrow> element \<Rightarrow> jsobj \<Rightarrow> jsobj" where
  "put_radio pg e params =
     (case map_of e ''data-rts-radio-name'' of
        Some n \<Rightarrow>
          if n = [] then params
          else (case map_of (page_radios pg) n of Some v \<Rightarrow> js_assign ''selected_id'' (JStr v) params | None \<Rightarrow> params)
      | None \<Rightarrow> params)"

definition collectParams :: "page \<Rightarrow> element \<Rightarrow> jsobj" where
  "collectParams pg e =
     put_attr e ''data-rts-approval-id'' ''approval_id'' (put_attr e ''data-rts-path'' ''path''
       (put_attr e ''data-rts-artifact-uri'' ''artifact_uri'' (put_attr e ''data-rts-artifact-kind'' ''artifact_kind''
         (put_radio pg e (put_input pg e (put_attr e ''data-rts-decision'' ''decision''
           [(''run_id'', JStr (case map_of e ''data-rts-run-id'' of Some r \<Rightarrow> r | None \<Rightarrow> []))]))))))"

definition action_envelope :: "string \<Rightarrow> jsobj \<Rightarrow> jsv" where
  "action_envelope action params =
     JObj [(''type'', JStr ''operator.action''),
           (''payload'', JObj [(''action_type'', JStr action), (''parameters'', JObj params)])]"

definition reveal_envelope :: "string \<Rightarrow> jsv" where
  "reveal_envelope cid =
     JObj [(''type'', JStr ''command.invoke''),
           (''payload'', JObj [(''command'', JStr ''llmnb.revealCell''), (''args'', JObj [(''cellId'', JStr cid)])])]"

definition on_click :: "bool \<Rightarrow> page \<Rightarrow> element list \<Rightarrow> click_effect list" where
  "on_click can_post pg path =
     (case closest ''data-rts-reveal-cell'' path of
        Some e \<Rightarrow>
          (case map_of e ''data-rts-reveal-cell'' of
             Some c \<Rightarrow> if 0 < length c \<and> can_post then [Post_message (reveal_envelope c)] else []
           | None \<Rightarrow> [])
      | None \<Rightarrow>
          (let toggles = (case closest ''data-rts-toggle'' path of
                 Some e \<Rightarrow> (case map_of e ''data-rts-toggle'' of
                   Some i \<Rightarrow> if i \<noteq> [] \<and> i \<in> set (page_ids pg) then [Toggle_hidden i] else []
                 | None \<Rightarrow> [])
               | None \<Rightarrow> [])
           in case closest ''data-rts-action'' path of
                None \<Rightarrow> toggles
              | Some e \<Rightarrow>
                  (case map_of e ''data-rts-action'' of
                     Some action \<Rightarrow>
                       if action = [] \<or> action = ''agent_emit_toggle'' \<or> \<not> can_post then toggles
                       else toggles @ [Post_message (action_envelope action (collectParams pg e))]
                   | None \<Rightarrow> toggles)))"

text \<open>\<open>bindProvenanceChipHandlers\<close> and \<open>bindContaminationBadgeHandlers\<close>: the command and the
  cell id dispatched by a click.\<close>

definition bound_click :: "string \<Rightarrow> string \<Rightarrow> element list \<Rightarrow> (string \<times> string) option" where
  "bound_click attr command path =
     (case closest attr path of
        Some e \<Rightarrow> (case map_of e attr of Some c \<Rightarrow> if 0 < length c then Some (command, c) else None | None \<Rightarrow> None)
      | None \<Rightarrow> None)"

definition provenance_click :: "element list \<Rightarrow> (string \<times> string) option" where
  "provenance_click path = bound_click ''data-rts-reveal-cell'' ''llmnb.revealCell'' path"

definition contamination_click :: "element list \<Rightarrow> (string \<times> string) option" where
  "contamination_click path = bound_click ''data-rts-reset-contamination'' ''llmnb.resetContamination'' path"

subsection \<open>No injection\<close>

lemma card_renderers_ok:
  assumes "(n, f) \<in> set TOOL_RENDERERS" "plain_glyphs env" "fst (f env args i cs) = Some h"
  shows "html_ok h"
proof -
  have req: "html_ok h" if "fst (renderRequestApproval env args i cs) = Some h"
    using that by (auto simp: renderRequestApproval_def bind_eq_Some_conv split: option.splits intro: buildCard_ok)
  have pro: "html_ok h" if "fst (renderPropose env args i cs) = Some h"
    using that by (auto simp: renderPropose_def bind_eq_Some_conv split: option.splits intro: buildCard_ok)
  show ?thesis using assms req pro
    by (auto simp: TOOL_RENDERERS_def renderNotify_def renderProposeEdit_def renderReportProgress_def
        renderReportCompletion_def renderReportProblem_def renderAsk_def renderClarify_def renderPresent_def
        renderEscalate_def renderReadFile_def renderWriteFile_def renderRunCommand_def
        intro: notify_ok propose_edit_ok progress_ok completion_ok problem_ok ask_ok clarify_ok present_ok
          escalate_ok read_file_ok write_file_ok run_command_ok)
qed

lemma generic_ok:
  \<open>html_ok (''<div class="rts-tool-generic">['' @ escapeHtml n @ ''] '' @ escapeHtml j @ ''</div>'')\<close>
  by (simp add: card_eval del: append_Cons cong: bind_cong_weak)

lemma run_start_ok:
  \<open>html_ok (''<div class="rts-run-start"><strong>['' @ escapeHtml n @ ''] '' @ escapeHtml j @ ''</strong></div>'')\<close>
  by (simp add: card_eval del: append_Cons cong: bind_cong_weak)

lemma event_ok: "event_html n a = Some h \<Longrightarrow> html_ok h"
  by (clarsimp simp: event_html_def simp del: append_Cons) (simp add: card_eval del: append_Cons cong: bind_cong_weak)

lemma json_dump_ok: "json_dump p = Some h \<Longrightarrow> html_ok h"
  by (clarsimp simp: json_dump_def simp del: append_Cons) (simp add: card_eval del: append_Cons cong: bind_cong_weak)

lemma closed_span_ok: "html_ok (renderClosedSpan p)"
  by (simp add: renderClosedSpan_def Let_def card_eval del: append_Cons cong: bind_cong_weak)

lemma render_tool_ok:
  assumes "plain_glyphs env" "run_tool_name p \<noteq> ''constructor''" "fst (render_tool env sha256 blobs p i cs) = Some h"
  shows "html_ok h"
proof (cases "map_of TOOL_RENDERERS (run_tool_name p)")
  case (Some fn)
  then show ?thesis using assms card_renderers_ok[OF map_of_SomeD[OF Some] assms(1)]
    by (auto simp: render_tool_def Let_def)
next
  case None
  have u: "html_ok ''[object Undefined]''" by (simp add: html_ok_def)
  show ?thesis using assms None u generic_ok
    by (auto simp: render_tool_def call_inherited_def Let_def simp del: append_Cons split: if_splits)
qed

text \<open>C2. No markup injection: whatever the payload of a run and the metadata of the output item
  contain, the HTML assigned to the output element consists of complete tags of the templates' own
  kinds, without scripts, event handlers or other attributes, and ends outside every tag. The one
  exception is the tool name \<open>constructor\<close>.\<close>

theorem rendered_markup_safe:
  assumes "plain_glyphs env" "run_tool_name p \<noteq> ''constructor''"
    and "renderOutputItem env sha256 blobs item_meta (Some p) cs = (Inner_html h, cs')"
  shows "html_ok h"
proof -
  let ?chip = "case extractProvenanceFromOutputItem item_meta p of Some pr \<Rightarrow> renderProvenanceChip env pr | None \<Rightarrow> []"
  obtain b where b: "fst (renderRunMime env sha256 blobs p cs) = Some b" "h = ?chip @ b"
    using assms(3) by (auto simp: renderOutputItem_def split: prod.splits option.splits)
  have "html_ok ?chip" by (simp add: provenance_ok split: option.splits)
  moreover have "html_ok b"
  proof (cases "pl_object p \<and> pl_event p = None \<and> pl_spanId p \<noteq> None")
    case True
    then obtain i where i: "pl_object p" "pl_event p = None" "pl_spanId p = Some i" by auto
    then have "b = renderClosedSpan p \<or> fst (renderOpenSpan env sha256 blobs p i cs) = Some b"
      using b(1) by (auto simp: renderRunMime_def split: option.splits list.splits)
    then show ?thesis using render_tool_ok[OF assms(1,2)] run_start_ok agent_emit_ok closed_span_ok
      by (auto simp: renderOpenSpan_def Let_def simp del: append_Cons split: if_splits)
  next
    case False
    then show ?thesis using b(1) event_ok json_dump_ok
      by (auto simp: renderRunMime_def split: option.splits if_splits)
  qed
  ultimately show ?thesis unfolding b(2) by (rule html_ok_append)
qed

definition demo_render_env :: render_env where
  "demo_render_env = \<lparr>now36 = ''m1'', ellipsis = ''...'', hook_arrow = ''>''\<rparr>"

definition demo_counters :: id_counters where
  "demo_counters = \<lparr>cardCounter = 0, talk_counter = 0, proxied_counter = 0\<rparr>"

definition tool_payload :: "string \<Rightarrow> string \<Rightarrow> run_payload" where
  "tool_payload tool input =
     \<lparr>pl_json = JObj [], pl_event = None,
      pl_attributes = Some (Some [(''llmnb.run_type'', string_value ''tool''), (''tool.name'', string_value tool),
        (''input.value'', string_value input)]),
      pl_spanId = Some ''s1'', pl_name = ''n'', pl_endTime = None, pl_status = None\<rparr>"

definition demo_attack :: string where
  \<open>demo_attack = ''{"observation": "</span><script>alert(1)</script>", "importance": "warn"}''\<close>

theorem rendered_markup_safe_witness:
  "\<exists>h cs'. renderOutputItem demo_render_env (\<lambda>_. None) [] JNull (Some (tool_payload ''notify'' demo_attack)) demo_counters
      = (Inner_html h, cs') \<and> html_ok h"
proof -
  have f: "fst (renderOutputItem demo_render_env (\<lambda>_. None) [] JNull (Some (tool_payload ''notify'' demo_attack)) demo_counters) \<noteq> Render_failed"
    by code_simp
  have g: "plain_glyphs demo_render_env" by (simp add: plain_glyphs_def demo_render_env_def)
  have n: "run_tool_name (tool_payload ''notify'' demo_attack) \<noteq> ''constructor''" by code_simp
  obtain h cs' where r: "renderOutputItem demo_render_env (\<lambda>_. None) [] JNull (Some (tool_payload ''notify'' demo_attack)) demo_counters = (Inner_html h, cs')"
    using f by (metis element_content.exhaust prod.collapse)
  then show ?thesis using rendered_markup_safe[OF g n r] by blast
qed

text \<open>With the tool name \<open>constructor\<close> the table yields \<open>Object\<close>, which returns the arguments; an
  array of them is assigned to \<open>innerHTML\<close> as it stands.\<close>

lemma constructor_injects:
  "fst (renderOutputItem demo_render_env (\<lambda>_. None) [] JNull
     (Some (tool_payload ''constructor'' (''['' @ quote ''<img src=x onerror=alert(1)>'' @ '']''))) demo_counters)
   = Inner_html ''<img src=x onerror=alert(1)>''"
  by code_simp

subsection \<open>Elements of the page\<close>

text \<open>A reference parser for rendered HTML: each start tag (and end tag, with no attributes) as the
  list of its attributes, their values as the browser decodes them, with the text that follows it up
  to the next tag. The text before the first tag stands with an element without attributes.\<close>

type_synonym labelled = "element \<times> string"

datatype parse_state =
    P_text "labelled list" element string
  | P_tag "labelled list"
  | P_gap element "labelled list"
  | P_attr element string "labelled list"
  | P_eq element string "labelled list"
  | P_value element string string "labelled list"

fun parse_step :: "parse_state \<Rightarrow> char \<Rightarrow> parse_state" where
  "parse_step (P_text es e t) c = (if c = CHR ''<'' then P_tag (snoc es (e, t)) else P_text es e (snoc t c))"
| "parse_step (P_tag es) c =
     (if c = CHR ''>'' then P_text es [] [] else if c = CHR '' '' \<or> c = LF then P_gap [] es else P_tag es)"
| "parse_step (P_gap e es) c =
     (if c = CHR ''>'' then P_text es e [] else if c = CHR '' '' \<or> c = LF then P_gap e es else P_attr e [c] es)"
| "parse_step (P_attr e a es) c =
     (if c = CHR ''>'' then P_text es (snoc e (a, [])) [] else if c = CHR '' '' \<or> c = LF then P_gap (snoc e (a, [])) es
      else if c = CHR ''='' then P_eq e a es else P_attr e (snoc a c) es)"
| "parse_step (P_eq e a es) c = (if c = QUOTE then P_value e a [] es else P_gap (snoc e (a, [])) es)"
| "parse_step (P_value e a v es) c =
     (if c = QUOTE then P_gap (snoc e (a, decode_entities v)) es else P_value e a (snoc v c) es)"

definition html_elements :: "string \<Rightarrow> labelled list" where
  "html_elements s = (case foldl parse_step (P_text [] [] []) s of P_text es e t \<Rightarrow> snoc es (e, t) | _ \<Rightarrow> [])"

text \<open>The elements with a given attribute.\<close>

definition elements_with :: "string \<Rightarrow> string option \<Rightarrow> string \<Rightarrow> labelled list" where
  "elements_with k v s = filter (\<lambda>(e, _). case v of Some w \<Rightarrow> map_of e k = Some w | None \<Rightarrow> map_of e k \<noteq> None) (html_elements s)"

lemma snoc_append: "snoc xs x = xs @ [x]"
  by (induction xs) auto

lemma parse_text: "CHR ''<'' \<notin> set s \<Longrightarrow> foldl parse_step (P_text es e t) s = P_text es e (t @ s)"
  by (induction s arbitrary: t) (auto simp: snoc_append)

lemma parse_value: "QUOTE \<notin> set s \<Longrightarrow> foldl parse_step (P_value e a v es) s = P_value e a (v @ s) es"
  by (induction s arbitrary: v) (auto simp: snoc_append)

definition control_char :: "char \<Rightarrow> bool" where
  "control_char c \<longleftrightarrow> (of_char c :: nat) \<le> 31 \<or> (of_char c :: nat) = 127"

lemma escapeAttr_eq: "escapeAttr s = escapeHtml (filter (\<lambda>c. \<not> control_char c) s)"
  by (induction s) (auto simp: escapeAttr_def escapeHtml_eq escape_char_simp control_char_def)

lemma decode_escapeAttr: "decode_entities (escapeAttr s) = filter (\<lambda>c. \<not> control_char c) s"
  by (simp add: escapeAttr_eq decode_escapeHtml)

lemma parse_escaped [simp]:
  "foldl parse_step (P_text es e t) (escapeHtml s) = P_text es e (t @ escapeHtml s)"
  "foldl parse_step (P_value e a [] es) (escapeAttr s) = P_value e a (escapeAttr s) es"
  using escapeHtml_chars(3) by (auto simp: parse_text escapeHtml_chars parse_value escapeAttr_eq)

definition printable :: "string \<Rightarrow> bool" where
  "printable s \<longleftrightarrow> list_all (\<lambda>c. \<not> control_char c) s"

lemma decode_printable: "printable s \<Longrightarrow> decode_entities (escapeAttr s) = s"
  by (simp add: decode_escapeAttr printable_def list_all_iff filter_id_conv)

definition decision_button :: "string \<Rightarrow> string \<Rightarrow> string \<Rightarrow> string \<Rightarrow> element" where
  "decision_button cls d r a =
     [(''type'', ''button''), (''class'', cls), (''data-rts-action'', ''approval_response''), (''data-rts-decision'', d),
      (''data-rts-run-id'', r), (''data-rts-approval-id'', a)]"

lemma foldl_parse_if:
  "foldl parse_step st (if b then x else y) = (if b then foldl parse_step st x else foldl parse_step st y)"
  by simp

definition is_response :: "labelled \<Rightarrow> bool" where
  "is_response el \<longleftrightarrow> map_of (fst el) ''data-rts-action'' = Some ''approval_response''"

lemma edit_buttons_elements:
  assumes "foldl parse_step (P_text es e t) (edit_buttons False (escapeAttr p) (escapeAttr a) (escapeAttr r) i) = st"
    and "\<not> is_response (e, t)"
  shows "\<exists>es' e' t'. st = P_text es' e' t' \<and> \<not> is_response (e', t') \<and>
    filter is_response es' = filter is_response es @
      [(decision_button ''rts-button-approve'' ''approve'' (decode_entities (escapeAttr r)) (decode_entities (escapeAttr a)), ''Approve''),
       (decision_button ''rts-button-reject'' ''reject'' (decode_entities (escapeAttr r)) (decode_entities (escapeAttr a)), ''Reject'')]"
  using assms unfolding edit_buttons_def
  by (auto simp: ENTITIES_def decision_button_def snoc_append[where 'a="labelled"] is_response_def simp del: append_Cons)

lemma edit_head_elements:
  "\<exists>es e t. foldl parse_step (P_text [] [] []) (edit_head i b p sm c a r) = P_text es e t \<and>
     filter is_response es = [] \<and> \<not> is_response (e, t)"
  unfolding edit_head_def by (cases b) (simp_all add: ENTITIES_def is_response_def del: append_Cons)

lemma edit_card_elements:
  assumes "propose_edit_html cardId args r = Some h" "jprop args ''decision_recorded'' \<noteq> JBool True"
    and "str_arg args ''approval_id'' r = Some a"
  shows "filter is_response (html_elements h) =
      [(decision_button ''rts-button-approve'' ''approve'' (decode_entities (escapeAttr r)) (decode_entities (escapeAttr a)), ''Approve''),
       (decision_button ''rts-button-reject'' ''reject'' (decode_entities (escapeAttr r)) (decode_entities (escapeAttr a)), ''Reject'')]"
proof -
  let ?i = "cardId @ ''-proposed''"
  obtain pth c sm where s: "str_arg args ''path'' [] = Some pth" "str_arg args ''proposed_content'' [] = Some c"
      "str_arg args ''summary'' pth = Some sm"
    using assms(1) unfolding propose_edit_html_def by (auto simp only: bind_eq_Some_conv)
  have h: "h = edit_head cardId False pth sm c a r @ edit_buttons False (escapeAttr pth) (escapeAttr a) (escapeAttr r) ?i @ LF # ''</div>''"
    using assms by (simp add: propose_edit_html_def s Let_def)
  obtain es e t where es: "foldl parse_step (P_text [] [] []) (edit_head cardId False pth sm c a r) = P_text es e t"
      "filter is_response es = []" "\<not> is_response (e, t)"
    using edit_head_elements by blast
  then obtain es' e' t' where es': "foldl parse_step (P_text es e t) (edit_buttons False (escapeAttr pth) (escapeAttr a) (escapeAttr r) ?i) = P_text es' e' t'"
      "\<not> is_response (e', t')"
    and fl: "filter is_response es' =
      [(decision_button ''rts-button-approve'' ''approve'' (decode_entities (escapeAttr r)) (decode_entities (escapeAttr a)), ''Approve''),
       (decision_button ''rts-button-reject'' ''reject'' (decode_entities (escapeAttr r)) (decode_entities (escapeAttr a)), ''Reject'')]"
    using edit_buttons_elements[OF refl es(3), of es pth a r ?i] by auto
  have "html_elements h = es' @ [(e', snoc t' LF), ([], [])]" by (simp add: html_elements_def h es es' snoc_append[where 'a="labelled"])
  then show ?thesis using fl es'(2) by (simp add: is_response_def)
qed

lemma closest_Cons: "closest k (e # path) = (if map_of e k \<noteq> None then Some e else closest k path)"
  by (simp add: closest_def)

lemma named_keys: "array_index ''decision'' = None" "array_index ''approval_id'' = None" "array_index ''run_id'' = None"
  by (simp_all add: array_index_def canonical_digits_def is_digit_def)

lemma decision_click:
  assumes "closest ''data-rts-reveal-cell'' outer = None" "closest ''data-rts-toggle'' outer = None" "d \<noteq> []" "a \<noteq> []"
  shows "on_click True pg (decision_button cls d r a # outer) =
    [Post_message (action_envelope ''approval_response'' [(''run_id'', JStr r), (''decision'', JStr d), (''approval_id'', JStr a)])]"
proof -
  have "collectParams pg (decision_button cls d r a) = [(''run_id'', JStr r), (''decision'', JStr d), (''approval_id'', JStr a)]"
    using assms(3,4) by (simp add: collectParams_def decision_button_def put_attr_def put_input_def put_radio_def js_assign_def named_keys)
  then show ?thesis using assms(1,2) by (simp add: on_click_def closest_Cons decision_button_def)
qed


definition demo_edit :: jsv where
  "demo_edit = JObj [(''path'', JStr ''a.txt''), (''proposed_content'', JStr ''x''), (''approval_id'', JStr ''ap1'')]"


subsection \<open>Provenance chips\<close>

lemma closest_append: "closest k (xs @ ys) = (case closest k xs of Some e \<Rightarrow> Some e | None \<Rightarrow> closest k ys)"
  by (induction xs) (simp_all add: closest_def)

text \<open>The style attribute of the chip is read in one go.\<close>

definition chip_style :: string where
  \<open>chip_style = ''background:var(--vscode-editorWidget-background,#252526);
                 color:var(--vscode-descriptionForeground,#9d9d9d);
                 border:1px solid var(--vscode-panel-border,#444);
                 padding:2px 8px;border-radius:3px;cursor:pointer;
                 font-family:var(--vscode-font-family,sans-serif);
                 font-size:var(--vscode-font-size,12px);''\<close>

lemma chip_style_plain: "QUOTE \<notin> set chip_style"
  by (simp add: chip_style_def)

lemma provenance_chip_style:
  assumes "generatedBy pr \<noteq> []"
  shows \<open>renderProvenanceChip env pr = ''
<div class="rts-provenance-chip" data-rts-cell-id="'' @ escapeAttr (prov_cellId pr) @ ''">
  <button type="button"
          class="rts-provenance-chip-button"
          data-rts-reveal-cell="'' @ escapeAttr (generatedBy pr) @ ''"
          title="'' @ escapeAttr (formatProvenanceChipTooltip (generatedAt pr)) @ ''"
          aria-label="'' @ escapeAttr (formatProvenanceChipTooltip (generatedAt pr)) @ ''"
          style="'' @ chip_style @ ''">
    '' @ escapeHtml (formatProvenanceChipText env (generatorMagicText pr) (generatedBy pr)) @ ''
  </button>
</div>''\<close>
  using assms by (simp add: renderProvenanceChip_def chip_style_def Let_def)

lemma provenance_chip_elements:
  assumes "generatedBy pr \<noteq> []"
  shows "\<exists>e l. elements_with ''data-rts-reveal-cell'' None (renderProvenanceChip env pr) = [(e, l)] \<and>
    map_of e ''data-rts-reveal-cell'' = Some (decode_entities (escapeAttr (generatedBy pr)))"
  unfolding provenance_chip_style [OF assms] elements_with_def html_elements_def
  by (simp add: parse_value[OF chip_style_plain] snoc_append[where 'a="labelled"] del: append_Cons decode_entities.simps)

lemma reveal_click:
  assumes "map_of e ''data-rts-reveal-cell'' = Some c" "c \<noteq> []" "closest ''data-rts-reveal-cell'' inner = None"
  shows "on_click True pg (inner @ e # outer) = [Post_message (reveal_envelope c)]"
  using assms by (simp add: on_click_def closest_append closest_Cons)

subsection \<open>Decided proposals\<close>

text \<open>Tags without an action: nothing in them makes a click post an operator action.\<close>

definition inert_tag :: "string \<Rightarrow> bool" where
  "inert_tag t \<longleftrightarrow> tag_ok t \<and> list_all (\<lambda>w. \<not> startsWith w ''data-rts-action'') (tag_words [] t)"

lemma edit_head_inert: "html_check inert_tag Data [] (edit_head i b p sm c a r) = Some (Data, [])"
  by (cases b) (simp_all add: edit_head_def inert_tag_def html_eval del: append_Cons cong: bind_cong_weak)

lemma edit_buttons_inert: "html_check inert_tag Data [] (edit_buttons True p a r i) = Some (Data, [])"
  by (simp add: edit_buttons_def inert_tag_def html_eval del: append_Cons cong: bind_cong_weak)

lemma decided_card_inert:
  assumes "propose_edit_html i args r = Some h" "jprop args ''decision_recorded'' = JBool True"
  shows "html_check inert_tag Data [] h = Some (Data, [])"
  using assms by (clarsimp simp: propose_edit_html_def bind_eq_Some_conv Let_def)
    (simp add: html_check_append edit_head_inert edit_buttons_inert inert_tag_def tag_ok_def ALLOWED_TAGS_def
      attr_ok_def startsWith_def cong: bind_cong_weak)

lemma record_decision_recorded:
  "record_decision (parseInputValue sha256 blobs attrs) = v \<Longrightarrow> jprop v ''decision_recorded'' = JBool True"
proof -
  have "\<exists>kvs xs. parseInputValue sha256 blobs attrs = JObj kvs \<or> parseInputValue sha256 blobs attrs = JArr xs"
  proof -
    have "fst (resolve sha256 blobs w) = JObj [] \<or> (\<exists>kvs xs. fst (resolve sha256 blobs w) = JObj kvs \<or> fst (resolve sha256 blobs w) = JArr xs)"
      if "truthy w" "typeof_object w" for w using that by (cases w) (auto simp: Let_def)
    then show ?thesis by (auto simp: parseInputValue_def Let_def split: option.splits)
  qed
  moreover have "map_of (array_entries xs @ [(''decision_recorded'', JBool True)]) ''decision_recorded'' = Some (JBool True)" for xs
  proof -
    have "show_nat n \<noteq> ''decision_recorded''" for n
      using show_nat_digits[of n] by (auto simp: is_digit_def)
    then have "map_of (array_entries xs) ''decision_recorded'' = None"
      by (auto simp: array_entries_def map_of_eq_None_iff set_zip) metis
    then show ?thesis by (simp add: map_add_def)
  qed
  ultimately show "record_decision (parseInputValue sha256 blobs attrs) = v \<Longrightarrow> jprop v ''decision_recorded'' = JBool True"
    by (auto simp: js_get_def map_of_js_assign)
qed

text \<open>Re-rendering after a decision: once the span of a \<open>propose_edit\<close> call carries the recorded
  flag, its card has no element with an action, so it offers no second decision.\<close>

theorem decided_edit_offers_nothing:
  assumes "getStringAttr (span_attributes p) ''llmnb.run_type'' [] = ''tool''" "run_tool_name p = ''propose_edit''"
    and "getStringAttr (span_attributes p) ''llmnb.approval.decision_recorded'' [] = ''true''"
    and "fst (renderOpenSpan env sha256 blobs p i cs) = Some h"
  shows "html_check inert_tag Data [] h = Some (Data, [])"
proof -
  let ?v = "record_decision (parseInputValue sha256 blobs (span_attributes p))"
  have "propose_edit_html (nextId env ''propose_edit'' (cardCounter cs)) ?v i = Some h"
    using assms by (simp add: renderOpenSpan_def render_tool_def TOOL_RENDERERS_def renderProposeEdit_def Let_def)
  then show ?thesis by (rule decided_card_inert) (rule record_decision_recorded[OF refl])
qed

definition demo_decided :: run_payload where
  \<open>demo_decided =
     \<lparr>pl_json = JObj [], pl_event = None,
      pl_attributes = Some (Some [(''llmnb.run_type'', string_value ''tool''), (''tool.name'', string_value ''propose_edit''),
        (''llmnb.approval.decision_recorded'', string_value ''true''), (''input.value'', string_value ''{"path": "a"}'')]),
      pl_spanId = Some ''s1'', pl_name = ''n'', pl_endTime = None, pl_status = None\<rparr>\<close>

theorem decided_edit_offers_nothing_witness:
  "\<exists>h. fst (renderOpenSpan demo_render_env (\<lambda>_. None) [] demo_decided ''s1'' demo_counters) = Some h
     \<and> html_check inert_tag Data [] h = Some (Data, [])"
proof -
  have d: "getStringAttr (span_attributes demo_decided) ''llmnb.run_type'' [] = ''tool''" "run_tool_name demo_decided = ''propose_edit''"
    "getStringAttr (span_attributes demo_decided) ''llmnb.approval.decision_recorded'' [] = ''true''" by code_simp+
  have "fst (renderOpenSpan demo_render_env (\<lambda>_. None) [] demo_decided ''s1'' demo_counters) \<noteq> None" by code_simp
  then show ?thesis using decided_edit_offers_nothing[OF d] by blast
qed

end
