(* ===== verification/Section_Headers.thy ===== *)
theory Section_Headers
  imports Section_Ops Run_Frames Sidebar_Trees
begin

section \<open>Section headers and three-pane badges (\<open>notebook/sections\<close>, \<open>notebook/three-pane-badges.ts\<close>)\<close>

text \<open>
  The header of a section on its cells (\<open>section-header-compute.ts\<close>), the status bar provider, its
  metadata sources and the actions menu (\<open>section-header-provider.ts\<close>), and the streaming and
  artifact badges with the wrapper commands (\<open>three-pane-badges.ts\<close>, \<open>three-pane-commands.ts\<close>).
  The characters outside the modelled range are the fields of \<open>header_glyphs\<close>.
\<close>

subsection \<open>Header computation\<close>

record header_glyphs =
  triangle :: string
  em_dash :: string
  right_arrow :: string
  dots :: string

record section_header =
  sh_section_id :: string
  sh_title :: string
  sh_status :: string
  is_first :: bool
  cell_count :: nat
  sh_text :: string
  sh_tooltip :: string

definition SECTION_HEADER_PREFIX :: string where
  "SECTION_HEADER_PREFIX = [CHR 0xA7]"

definition renderHeaderText :: "header_glyphs \<Rightarrow> string \<Rightarrow> string \<Rightarrow> bool \<Rightarrow> nat \<Rightarrow> string" where
  "renderHeaderText g title stat first n =
     (if first then SECTION_HEADER_PREFIX @ '' '' @ title @ '' ('' @ stat @ '') '' @ [CHR 0xB7] @ '' '' @ show_nat n @ '' '' @
        (if n = 1 then ''cell'' else ''cells'')
      else triangle g @ '' '' @ title)"

definition renderHeaderTooltip :: "header_glyphs \<Rightarrow> string \<Rightarrow> string \<Rightarrow> string \<Rightarrow> bool \<Rightarrow> nat \<Rightarrow> string" where
  "renderHeaderTooltip g sid title stat first n =
     join [LF]
       ([''Section: '' @ title, ''Status:  '' @ stat, ''ID:      '' @ sid, ''Cells:   '' @ show_nat n] @
        (if stat = ''frozen'' then [[], ''(frozen sections block structural ops on member cells; unfreeze via Set status '' @
           right_arrow g @ '' open.)'']
         else if stat = ''in_progress'' then [[], ''(in_progress is the auto-flip status while an agent is running; '' @
           ''it flips back to open when the last run terminates.)'']
         else []) @
        (if \<not> first then [[], ''(continuation cell '' @ em_dash g @ '' see the first cell for the section header.)''] else []))"

text \<open>\<open>o[k]\<close> with a computed key: \<open>__proto__\<close> is found on every object.\<close>

definition computed_prop :: "jsv \<Rightarrow> string \<Rightarrow> jsv" where
  "computed_prop v k = (if k = ''__proto__'' \<and> jprop v k = JUndef then JObj [] else jprop v k)"

definition section_status_of :: "jsv \<Rightarrow> string" where
  "section_status_of section =
     (case jprop section ''status'' of JStr s \<Rightarrow> if s \<in> set SECTION_STATUSES then s else ''open'' | _ \<Rightarrow> ''open'')"

definition section_cells :: "jsv \<Rightarrow> string list" where
  "section_cells section =
     (case jprop section ''cell_range'' of
        JArr xs \<Rightarrow> concat (map (\<lambda>x. case x of JStr s \<Rightarrow> [s] | _ \<Rightarrow> []) xs)
      | _ \<Rightarrow> [])"

definition cell_section_id :: "jsv \<Rightarrow> string \<Rightarrow> string option" where
  "cell_section_id metadata cid =
     (let rec = computed_prop (jprop (jprop metadata ''rts'') ''cells'') cid in
      if \<not> truthy rec \<or> \<not> typeof_object rec then None else strField rec ''section_id'')"

definition computeSectionHeader :: "header_glyphs \<Rightarrow> string \<Rightarrow> jsv \<Rightarrow> section_header option" where
  "computeSectionHeader g cid metadata =
     (let sections = jprop (jprop (jprop metadata ''rts'') ''zone'') ''sections'' in
      if cid = [] \<or> \<not> truthy metadata \<or> \<not> truthy sections \<or> \<not> truthy (jprop (jprop metadata ''rts'') ''cells'') then None
      else case cell_section_id metadata cid of
        None \<Rightarrow> None
      | Some sid \<Rightarrow>
          (let section = computed_prop sections sid in
           if \<not> truthy section \<or> \<not> typeof_object section then None
           else let title = (case jprop section ''title'' of JStr t \<Rightarrow> t | _ \<Rightarrow> sid);
                    stat = section_status_of section;
                    range = section_cells section;
                    first = (0 < length range \<and> range ! 0 = cid);
                    n = length range
           in Some \<lparr>sh_section_id = sid, sh_title = title, sh_status = stat, is_first = first, cell_count = n,
                sh_text = renderHeaderText g title stat first n,
                sh_tooltip = renderHeaderTooltip g sid title stat first n\<rparr>))"

subsection \<open>Provider and actions\<close>

record header_item =
  hi_text :: string
  hi_tooltip :: string
  hi_args :: jsv

definition header_args :: "section_header \<Rightarrow> jsv" where
  "header_args h = JObj [(''section_id'', JStr (sh_section_id h)), (''title'', JStr (sh_title h)), (''status'', JStr (sh_status h))]"

fun first_header :: "header_glyphs \<Rightarrow> jsv \<Rightarrow> string list \<Rightarrow> section_header option" where
  "first_header g metadata [] = None"
| "first_header g metadata (i # ids) =
     (case computeSectionHeader g i metadata of Some h \<Rightarrow> Some h | None \<Rightarrow> first_header g metadata ids)"

definition provideSectionHeader :: "header_glyphs \<Rightarrow> jsv \<Rightarrow> string \<Rightarrow> jsv \<Rightarrow> header_item list" where
  "provideSectionHeader g cell_meta uri metadata =
     (if \<not> truthy metadata then []
      else case first_header g metadata (candidateCellIds cell_meta uri) of
        None \<Rightarrow> []
      | Some h \<Rightarrow> [\<lparr>hi_text = sh_text h, hi_tooltip = sh_tooltip h, hi_args = header_args h\<rparr>])"

text \<open>The router-backed source keeps the latest snapshot and says whether it fires; the
  document-backed one reads the open notebook of that URI.\<close>

definition section_snapshot :: "jsv \<Rightarrow> jsv \<Rightarrow> jsv \<times> bool" where
  "section_snapshot payload latest =
     (if jprop payload ''mode'' \<noteq> JStr ''snapshot'' \<or> \<not> truthy (jprop payload ''snapshot'') then (latest, False)
      else (JObj [(''rts'', jprop payload ''snapshot'')], True))"

definition section_document_metadata :: "string \<Rightarrow> string \<Rightarrow> notebook_doc list \<Rightarrow> jsv" where
  "section_document_metadata nbtype uri docs =
     (case List.find (\<lambda>d. doc_type d = nbtype \<and> doc_uri d = uri) docs of Some d \<Rightarrow> doc_metadata d | None \<Rightarrow> JUndef)"

definition ACTION_RENAME :: string where "ACTION_RENAME = ''Rename''"
definition ACTION_DELETE :: string where "ACTION_DELETE = ''Delete''"
definition ACTION_SET_STATUS :: "header_glyphs \<Rightarrow> string" where "ACTION_SET_STATUS g = ''Set status'' @ dots g"

definition section_actions :: "header_glyphs \<Rightarrow> string list" where
  "section_actions g = [ACTION_RENAME, ACTION_SET_STATUS g, ACTION_DELETE]"

text \<open>The pick of the menu is an argument; the result is the action returned and the command executed.\<close>

definition runSectionActionsCommand :: "header_glyphs \<Rightarrow> jsv \<Rightarrow> string option \<Rightarrow> string option \<times> (string \<times> jsv) option" where
  "runSectionActionsCommand g args pick =
     (let sid = nonempty_arg args ''section_id'' in
      if \<not> truthy args \<or> sid = [] then (None, None)
      else case pick of
        None \<Rightarrow> (None, None)
      | Some choice \<Rightarrow>
          if choice = [] then (None, None)
          else if choice = ACTION_RENAME then
            (Some choice, Some (''llmnb.section.rename'', JObj [(''section_id'', JStr sid), (''current_title'', jprop args ''title'')]))
          else if choice = ACTION_DELETE then
            (Some choice, Some (''llmnb.section.delete'', JObj [(''section_id'', JStr sid), (''title'', jprop args ''title'')]))
          else if choice = ACTION_SET_STATUS g then
            (Some choice, Some (''llmnb.section.setStatus'', JObj [(''section_id'', JStr sid)]))
          else (Some choice, None))"

subsection \<open>Three-pane badges\<close>

definition active_frame_for :: "string list \<Rightarrow> jsv \<Rightarrow> bool" where
  "active_frame_for ids rf \<longleftrightarrow>
     truthy rf \<and> typeof_object rf \<and> jprop rf ''status'' = JStr ''running'' \<and> \<not> truthy (jprop rf ''ended_at'')
     \<and> (case jprop rf ''cell_id'' of JStr c \<Rightarrow> c \<in> set ids | _ \<Rightarrow> False)"

definition findActiveRunFrame :: "string list \<Rightarrow> jsv \<Rightarrow> jsv option" where
  "findActiveRunFrame ids frames =
     (if \<not> truthy frames then None else List.find (active_frame_for ids) (map snd (entries frames)))"

definition readCellKind :: "jsv \<Rightarrow> string option" where
  "readCellKind meta =
     (case jprop (jprop (jprop meta ''rts'') ''cell'') ''kind'' of
        JStr k \<Rightarrow> Some k
      | _ \<Rightarrow> (case jprop (jprop meta ''rts'') ''kind'' of JStr k \<Rightarrow> Some k | _ \<Rightarrow> None))"

record three_pane_badges =
  streaming :: bool
  artifact :: bool

definition computeThreePaneBadges :: "cell_kind \<Rightarrow> jsv \<Rightarrow> string \<Rightarrow> jsv \<Rightarrow> three_pane_badges" where
  "computeThreePaneBadges kind meta uri snap =
     (if kind = Markup then \<lparr>streaming = False, artifact = False\<rparr>
      else \<lparr>streaming = (findActiveRunFrame (candidateCellIds meta uri) (jprop (jprop snap ''zone'') ''run_frames'') \<noteq> None),
            artifact = (readCellKind meta = Some ''artifact'')\<rparr>)"

text \<open>The items shown, by name; the cells of other notebooks than the active one show none.\<close>

definition provideThreePaneItems :: "zone_snapshot option \<Rightarrow> string \<Rightarrow> cell_kind \<Rightarrow> jsv \<Rightarrow> string \<Rightarrow> string list" where
  "provideThreePaneItems active notebook_uri kind meta uri =
     (case active of
        None \<Rightarrow> []
      | Some z \<Rightarrow>
          if zone_uri z \<noteq> notebook_uri then []
          else let b = computeThreePaneBadges kind meta uri (zone_metadata z)
            in (if streaming b then [''streaming''] else []) @ (if artifact b then [''artifact''] else []))"

definition WRAPPER_TO_BUILTIN :: "(string \<times> string) list" where
  "WRAPPER_TO_BUILTIN =
     [(''llmnb.collapseAllInputs'', ''notebook.cell.collapseAllCellInput''),
      (''llmnb.collapseAllOutputs'', ''notebook.cell.collapseAllCellOutput''),
      (''llmnb.expandAllInputs'', ''notebook.cell.expandAllCellInput''),
      (''llmnb.expandAllOutputs'', ''notebook.cell.expandAllCellOutput''),
      (''llmnb.findInCells'', ''actions.find'')]"

definition makeWrapperHandler :: "string \<Rightarrow> string + string" where
  "makeWrapperHandler wrapperId =
     (case map_of WRAPPER_TO_BUILTIN wrapperId of
        Some b \<Rightarrow> Inr b | None \<Rightarrow> Inl (''unknown wrapper command id: '' @ wrapperId))"

definition registerThreePaneCommands :: "(string \<times> (string + string)) list" where
  "registerThreePaneCommands = map (\<lambda>(w, b). (w, makeWrapperHandler w)) WRAPPER_TO_BUILTIN"

subsection \<open>Lemmas\<close>

lemma computeSectionHeader_Some:
  assumes "computeSectionHeader g cid md = Some h"
  shows "cell_section_id md cid = Some (sh_section_id h)" "sh_section_id h \<noteq> []" "sh_status h \<in> set SECTION_STATUSES"
    "is_first h \<longleftrightarrow> (\<exists>rest. section_cells (computed_prop (jprop (jprop (jprop md ''rts'') ''zone'') ''sections'') (sh_section_id h)) = cid # rest)"
    "cell_count h = length (section_cells (computed_prop (jprop (jprop (jprop md ''rts'') ''zone'') ''sections'') (sh_section_id h)))"
proof -
  let ?secs = "jprop (jprop (jprop md ''rts'') ''zone'') ''sections''"
  obtain sid where sid: "cell_section_id md cid = Some sid"
    using assms by (auto simp: computeSectionHeader_def Let_def split: if_splits option.splits)
  let ?r = "section_cells (computed_prop ?secs sid)"
  have h: "sh_section_id h = sid" "sh_status h = section_status_of (computed_prop ?secs sid)"
      "is_first h = (0 < length ?r \<and> ?r ! 0 = cid)" "cell_count h = length ?r"
    using assms sid by (auto simp: computeSectionHeader_def Let_def split: if_splits)
  show "cell_section_id md cid = Some (sh_section_id h)" using sid h by simp
  show "sh_section_id h \<noteq> []" using sid h
    by (auto simp: cell_section_id_def strField_def Let_def split: if_splits jsv.splits)
  show "sh_status h \<in> set SECTION_STATUSES"
    unfolding h section_status_of_def by (cases "jprop (computed_prop ?secs sid) ''status''") (auto simp: SECTION_STATUSES_def)
  show "is_first h \<longleftrightarrow> (\<exists>rest. section_cells (computed_prop ?secs (sh_section_id h)) = cid # rest)"
    unfolding h by (cases ?r) auto
  show "cell_count h = length (section_cells (computed_prop ?secs (sh_section_id h)))" using h by simp
qed

lemma first_header_Some:
  "first_header g md ids = Some h \<Longrightarrow> \<exists>i \<in> set ids. computeSectionHeader g i md = Some h"
  by (induction ids) (auto split: option.splits)

text \<open>Section headers: the item of a cell carries the id of the section its record names and one of
  the four statuses; at most one cell id of a section is shown as its first; and whatever action the
  operator picks in the menu behind the item is a command on that same section; renaming and deleting
  with a confirmed prompt enqueue one envelope for it.\<close>

theorem section_header_actions:
  assumes "provideSectionHeader g cell_meta uri md = [item]"
  shows "\<exists>h cid. item = \<lparr>hi_text = sh_text h, hi_tooltip = sh_tooltip h, hi_args = header_args h\<rparr>
    \<and> cid \<in> set (candidateCellIds cell_meta uri) \<and> cell_section_id md cid = Some (sh_section_id h)
    \<and> sh_status h \<in> set SECTION_STATUSES
    \<and> (\<forall>cid' h'. computeSectionHeader g cid' md = Some h' \<and> sh_section_id h' = sh_section_id h \<and> is_first h \<and> is_first h'
         \<and> computeSectionHeader g cid md = Some h \<longrightarrow> cid' = cid)
    \<and> (\<forall>pick cmd args. runSectionActionsCommand g (hi_args item) pick = (pick, Some (cmd, args)) \<longrightarrow>
         jprop args ''section_id'' = JStr (sh_section_id h)
         \<and> (cmd = ''llmnb.section.rename'' \<longrightarrow> (\<forall>r beh rnd t. t \<noteq> [] \<longrightarrow>
              runSectionRenameCommand r beh rnd args (Some t) =
                (True, enqueueOutbound r beh (buildRenameSectionEnvelope rnd (sh_section_id h) t))))
         \<and> (cmd = ''llmnb.section.delete'' \<longrightarrow> (\<forall>r beh rnd.
              runSectionDeleteCommand r beh rnd args (Some ''Delete'') =
                (True, enqueueOutbound r beh (buildDeleteSectionEnvelope rnd (sh_section_id h))))))"
proof -
  obtain h where f: "first_header g md (candidateCellIds cell_meta uri) = Some h"
      "item = \<lparr>hi_text = sh_text h, hi_tooltip = sh_tooltip h, hi_args = header_args h\<rparr>"
    using assms by (auto simp: provideSectionHeader_def split: if_splits option.splits)
  then obtain cid where c: "cid \<in> set (candidateCellIds cell_meta uri)" "computeSectionHeader g cid md = Some h"
    using first_header_Some by blast
  note h = computeSectionHeader_Some[OF c(2)]
  have first: "cid' = cid" if "computeSectionHeader g cid' md = Some h'" "sh_section_id h' = sh_section_id h" "is_first h" "is_first h'" for cid' h'
    using computeSectionHeader_Some(4)[OF that(1)] h(4) that by auto
  have sid: "nonempty_arg (header_args h) ''section_id'' = sh_section_id h" by (simp add: nonempty_arg_def header_args_def js_get_def)
  have act: "jprop args ''section_id'' = JStr (sh_section_id h)"
    if "runSectionActionsCommand g (header_args h) pick = (pick, Some (cmd, args))" for pick cmd args
    using that sid by (auto simp: runSectionActionsCommand_def js_get_def Let_def split: option.splits if_splits)
  have arg: "nonempty_arg args ''section_id'' = sh_section_id h" if "jprop args ''section_id'' = JStr (sh_section_id h)" for args
    using that by (simp add: nonempty_arg_def)
  have ren: "runSectionRenameCommand r beh rnd args (Some t) = (True, enqueueOutbound r beh (buildRenameSectionEnvelope rnd (sh_section_id h) t))"
    if "jprop args ''section_id'' = JStr (sh_section_id h)" "t \<noteq> []" for r beh rnd args t
    using that(2) h(2) by (simp add: runSectionRenameCommand_def arg[OF that(1)])
  have del: "runSectionDeleteCommand r beh rnd args (Some ''Delete'') = (True, enqueueOutbound r beh (buildDeleteSectionEnvelope rnd (sh_section_id h)))"
    if "jprop args ''section_id'' = JStr (sh_section_id h)" for r beh rnd args
    using h(2) by (simp add: runSectionDeleteCommand_def arg[OF that])
  have ha: "hi_args item = header_args h" using f(2) by simp
  show ?thesis
  proof (intro exI[of _ h] exI[of _ cid] conjI allI impI)
    fix cid' h' assume "computeSectionHeader g cid' md = Some h' \<and> sh_section_id h' = sh_section_id h \<and> is_first h \<and> is_first h'
         \<and> computeSectionHeader g cid md = Some h"
    then show "cid' = cid" using first by blast
  next
    fix pick cmd args assume r: "runSectionActionsCommand g (hi_args item) pick = (pick, Some (cmd, args))"
    then show sec: "jprop args ''section_id'' = JStr (sh_section_id h)" unfolding ha by (rule act)
    fix r beh rnd
    show "runSectionDeleteCommand r beh rnd args (Some ''Delete'') = (True, enqueueOutbound r beh (buildDeleteSectionEnvelope rnd (sh_section_id h)))"
      by (rule del[OF sec])
    fix t :: string assume "t \<noteq> []"
    then show "runSectionRenameCommand r beh rnd args (Some t) = (True, enqueueOutbound r beh (buildRenameSectionEnvelope rnd (sh_section_id h) t))"
      by (rule ren[OF sec])
  qed (use f(2) c h in simp_all)
qed

definition demo_glyphs :: header_glyphs where
  "demo_glyphs = \<lparr>triangle = ''>'', em_dash = ''--'', right_arrow = ''->'', dots = ''...''\<rparr>"

definition demo_section_md :: jsv where
  "demo_section_md = JObj [(''rts'', JObj
     [(''zone'', JObj [(''sections'', JObj [(''sec_1'', JObj [(''title'', JStr ''Intro''), (''status'', JStr ''frozen''),
        (''cell_range'', JArr [JStr ''c1'', JStr ''c2''])])])]),
      (''cells'', JObj [(''c1'', JObj [(''section_id'', JStr ''sec_1'')]), (''c2'', JObj [(''section_id'', JStr ''sec_1'')])])])]"

theorem section_header_actions_witness:
  "\<exists>item. provideSectionHeader demo_glyphs (JObj [(''id'', JStr ''c1'')]) ''u'' demo_section_md = [item]
     \<and> (\<exists>h cid. hi_args item = header_args h \<and> cell_section_id demo_section_md cid = Some (sh_section_id h))"
proof -
  have "length (provideSectionHeader demo_glyphs (JObj [(''id'', JStr ''c1'')]) ''u'' demo_section_md) = 1" by code_simp
  then obtain item where i: "provideSectionHeader demo_glyphs (JObj [(''id'', JStr ''c1'')]) ''u'' demo_section_md = [item]"
    by (auto simp: length_Suc_conv)
  obtain h cid where "item = \<lparr>hi_text = sh_text h, hi_tooltip = sh_tooltip h, hi_args = header_args h\<rparr>"
      "cell_section_id demo_section_md cid = Some (sh_section_id h)"
    using section_header_actions[OF i] by (elim exE conjE) rule
  then show ?thesis using i by auto
qed

text \<open>The streaming badge: some frame of the zone runs this cell; a frame found is in flight for the
  sidebar too, unless its end is an empty string.\<close>

lemma findActiveRunFrame_iff:
  "findActiveRunFrame ids frames \<noteq> None \<longleftrightarrow> truthy frames \<and> (\<exists>(k, rf) \<in> set (entries frames). active_frame_for ids rf)"
  unfolding findActiveRunFrame_def by (force simp: find_None_iff simp del: not_None_eq)

lemma active_frame_in_flight:
  "active_frame_for ids rf \<Longrightarrow> nullish (jprop rf ''ended_at'') \<Longrightarrow> isInFlight rf"
  by (simp add: active_frame_for_def isInFlight_def TERMINAL_STATUSES_def)

lemma badges_only_in_active_notebook:
  "provideThreePaneItems active nb kind meta uri \<noteq> [] \<Longrightarrow> \<exists>z. active = Some z \<and> zone_uri z = nb \<and> kind = Code"
  by (cases kind) (auto simp: provideThreePaneItems_def computeThreePaneBadges_def Let_def split: option.splits if_splits)

lemma wrapper_handlers_total: "\<forall>(w, h) \<in> set registerThreePaneCommands. \<exists>b. h = Inr b \<and> (w, b) \<in> set WRAPPER_TO_BUILTIN"
  by (simp add: registerThreePaneCommands_def makeWrapperHandler_def WRAPPER_TO_BUILTIN_def)

end
