(* ===== verification/Kernel_Terminal.thy ===== *)
theory Kernel_Terminal
  imports JS_Strings
begin

section \<open>Kernel terminal (\<open>extension/src/notebook/kernel-terminal.ts\<close>)\<close>

text \<open>
  The pseudoterminal that mirrors the bytes of the kernel's PTY. The state has the fields of the
  class; a chunk reaches it through the subscription that \<open>attach\<close> makes. Effects are the texts
  written to the panel, the close event and the input forwarded to the kernel.
\<close>

record kernel_terminal =
  kt_session :: string
  subscribed :: bool
  preopenBuffer :: "string list"
  opened :: bool

datatype terminal_effect = Wrote string | Closed_event | Pty_input string

definition new_terminal :: "string \<Rightarrow> kernel_terminal" where
  "new_terminal sid = \<lparr>kt_session = sid, subscribed = False, preopenBuffer = [], opened = False\<rparr>"

definition attach :: "kernel_terminal \<Rightarrow> kernel_terminal" where
  "attach t = t\<lparr>subscribed := True\<rparr>"

definition emit_chunk :: "string \<Rightarrow> kernel_terminal \<Rightarrow> kernel_terminal \<times> terminal_effect list" where
  "emit_chunk chunk t =
     (if opened t then (t, [Wrote chunk]) else (t\<lparr>preopenBuffer := preopenBuffer t @ [chunk]\<rparr>, []))"

text \<open>The subscription callback: nothing without a subscription.\<close>

definition receive_chunk :: "string \<Rightarrow> kernel_terminal \<Rightarrow> kernel_terminal \<times> terminal_effect list" where
  "receive_chunk chunk t = (if subscribed t then emit_chunk chunk t else (t, []))"

definition banner :: "string \<Rightarrow> string" where
  "banner sid = CHR 0x1B # ''[36m[LLMKernel: '' @ sid @ '']'' @ CHR 0x1B # ''[0m'' @ [CR, LF]"

definition open_terminal :: "kernel_terminal \<Rightarrow> kernel_terminal \<times> terminal_effect list" where
  "open_terminal t = (t\<lparr>opened := True, preopenBuffer := []\<rparr>, Wrote (banner (kt_session t)) # map Wrote (preopenBuffer t))"

definition close_terminal :: "kernel_terminal \<Rightarrow> kernel_terminal \<times> terminal_effect list" where
  "close_terminal t = (t\<lparr>opened := False, subscribed := False\<rparr>, [Closed_event])"

definition handleInput :: "string \<Rightarrow> kernel_terminal \<Rightarrow> kernel_terminal \<times> terminal_effect list" where
  "handleInput d t = (t, [Pty_input d])"

datatype terminal_input = Attach | Chunk string | Open_panel | Close_panel | Key string

definition terminal_step :: "terminal_input \<Rightarrow> kernel_terminal \<Rightarrow> kernel_terminal \<times> terminal_effect list" where
  "terminal_step i t =
     (case i of
        Attach \<Rightarrow> (attach t, [])
      | Chunk c \<Rightarrow> receive_chunk c t
      | Open_panel \<Rightarrow> open_terminal t
      | Close_panel \<Rightarrow> close_terminal t
      | Key k \<Rightarrow> handleInput k t)"

fun terminal_run :: "terminal_input list \<Rightarrow> kernel_terminal \<Rightarrow> kernel_terminal \<times> terminal_effect list" where
  "terminal_run [] t = (t, [])"
| "terminal_run (i # is) t =
     (let (t', es) = terminal_step i t; (t'', fs) = terminal_run is t' in (t'', es @ fs))"

subsection \<open>Replay\<close>

definition chunks :: "terminal_input list \<Rightarrow> string list" where
  "chunks is = concat (map (\<lambda>i. case i of Chunk c \<Rightarrow> [c] | _ \<Rightarrow> []) is)"

definition written :: "terminal_effect list \<Rightarrow> string list" where
  "written es = concat (map (\<lambda>e. case e of Wrote s \<Rightarrow> [s] | _ \<Rightarrow> []) es)"

definition keys_typed :: "terminal_input list \<Rightarrow> string list" where
  "keys_typed is = concat (map (\<lambda>i. case i of Key k \<Rightarrow> [k] | _ \<Rightarrow> []) is)"

definition forwarded :: "terminal_effect list \<Rightarrow> string list" where
  "forwarded es = concat (map (\<lambda>e. case e of Pty_input s \<Rightarrow> [s] | _ \<Rightarrow> []) es)"

definition panel_event :: "terminal_input \<Rightarrow> bool" where
  "panel_event i \<longleftrightarrow> i = Open_panel \<or> i = Close_panel"

lemma effect_lists [simp]:
  "chunks [] = []" "chunks (Chunk c # is) = c # chunks is" "chunks (Attach # is) = chunks is" "chunks (Key k # is) = chunks is"
  "written [] = []" "written (Wrote s # es) = s # written es" "written (Closed_event # es) = written es"
  "written (Pty_input s # es) = written es" "written (es @ fs) = written es @ written fs" "written (map Wrote ss) = ss"
  by (simp_all add: chunks_def written_def comp_def)

lemma terminal_run_append:
  "terminal_run (a @ b) t = (let (t', es) = terminal_run a t; (t'', fs) = terminal_run b t' in (t'', es @ fs))"
  by (induction a arbitrary: t) (auto simp: Let_def split: prod.splits)

lemma run_closed:
  "\<lbrakk>subscribed t; \<not> opened t; \<not> list_ex panel_event is\<rbrakk> \<Longrightarrow>
   fst (terminal_run is t) = t\<lparr>preopenBuffer := preopenBuffer t @ chunks is\<rparr> \<and> written (snd (terminal_run is t)) = []"
proof (induction "is" arbitrary: t)
  case (Cons i "is")
  then show ?case
    by (cases i) (auto simp: terminal_step_def attach_def receive_chunk_def emit_chunk_def handleInput_def panel_event_def
        Let_def case_prod_unfold)
qed simp

lemma run_opened:
  "\<lbrakk>subscribed t; opened t; \<not> list_ex panel_event is\<rbrakk> \<Longrightarrow>
   fst (terminal_run is t) = t \<and> written (snd (terminal_run is t)) = chunks is"
proof (induction "is" arbitrary: t)
  case (Cons i "is")
  then show ?case
    by (cases i) (auto simp: terminal_step_def attach_def receive_chunk_def emit_chunk_def handleInput_def panel_event_def
        Let_def case_prod_unfold)
qed simp

text \<open>Late panel: for a terminal attached before the panel opens, the panel shows the banner, then
  every chunk the kernel wrote since, those before the opening and those after it, once each and in
  order.\<close>

theorem terminal_replays_boot_output:
  assumes "\<not> list_ex panel_event before" "\<not> list_ex panel_event after"
  shows "written (snd (terminal_run (Attach # before @ Open_panel # after) (new_terminal sid)))
    = banner sid # chunks before @ chunks after"
proof -
  let ?t0 = "attach (new_terminal sid)"
  let ?t1 = "?t0\<lparr>preopenBuffer := chunks before\<rparr>"
  have b: "fst (terminal_run before ?t0) = ?t1" "written (snd (terminal_run before ?t0)) = []"
    using run_closed[OF _ _ assms(1), of ?t0] by (simp_all add: attach_def new_terminal_def)
  have a: "written (snd (terminal_run after (fst (open_terminal ?t1)))) = chunks after"
    using run_opened[OF _ _ assms(2), of "fst (open_terminal ?t1)"] by (simp add: open_terminal_def attach_def)
  show ?thesis using b a
    by (simp add: terminal_run_append terminal_step_def open_terminal_def attach_def new_terminal_def Let_def case_prod_unfold)
qed

theorem terminal_replays_boot_output_witness:
  "written (snd (terminal_run [Attach, Chunk ''boot'', Open_panel, Key ''x'', Chunk ''ready''] (new_terminal ''s'')))
   = [banner ''s'', ''boot'', ''ready'']"
  using terminal_replays_boot_output[of "[Chunk ''boot'']" "[Key ''x'', Chunk ''ready'']" "''s''"]
  by (simp add: panel_event_def)

text \<open>Keystrokes all reach the kernel, and a closed terminal writes nothing until it is attached again.\<close>

lemma keys_forwarded: "forwarded (snd (terminal_run is t)) = keys_typed is"
proof (induction "is" arbitrary: t)
  case (Cons i "is")
  have "forwarded (map Wrote ss) = []" for ss by (induction ss) (auto simp: forwarded_def)
  then show ?case using Cons
    by (cases i) (auto simp: terminal_step_def receive_chunk_def emit_chunk_def handleInput_def open_terminal_def close_terminal_def
        forwarded_def keys_typed_def Let_def case_prod_unfold)
qed (simp add: forwarded_def keys_typed_def)

lemma closed_terminal_silent:
  "\<not> subscribed t \<Longrightarrow> list_all (\<lambda>i. case i of Chunk _ \<Rightarrow> True | Key _ \<Rightarrow> True | _ \<Rightarrow> False) is \<Longrightarrow>
   terminal_run is t = (t, map Pty_input (keys_typed is))"
  by (induction "is") (auto simp: terminal_step_def receive_chunk_def handleInput_def keys_typed_def split: terminal_input.splits)

end
