(* ===== verification/Cell_Toolbar.thy ===== *)
theory Cell_Toolbar
  imports Contamination
begin

section \<open>Cell toolbar (\<open>extension/src/notebook/cell-toolbar.ts\<close>)\<close>

text \<open>
  The Grant and Revoke items of agent cells, the confirmation dialog and the two commands. The answers
  of the operator are arguments; an emitted operator action is its type and parameters.
\<close>

record toolbar_item =
  ti_command :: string
  ti_text :: string
  ti_tooltip :: string
  ti_agent :: string

record toolbar_metadata =
  tm_kind :: "string option"
  tm_agent :: "string option"

text \<open>A string field of the metadata itself, or else of its \<open>rts.cell\<close> record.\<close>

definition either_string :: "jsv \<Rightarrow> string \<Rightarrow> string option" where
  "either_string m k =
     (case jprop m k of
        JStr s \<Rightarrow> Some s
      | _ \<Rightarrow> (case jprop (jprop (jprop m ''rts'') ''cell'') k of JStr s \<Rightarrow> Some s | _ \<Rightarrow> None))"

definition readCellMetadata :: "jsv \<Rightarrow> toolbar_metadata option" where
  "readCellMetadata m =
     (if \<not> truthy m then None
      else Some \<lparr>tm_kind = either_string m ''kind'', tm_agent = either_string m ''bound_agent_id''\<rparr>)"

definition GRANT_PRIVILEGE_COMMAND_ID :: string where
  "GRANT_PRIVILEGE_COMMAND_ID = ''llmnb.grantMagicEmitPrivilege''"

definition REVOKE_PRIVILEGE_COMMAND_ID :: string where
  "REVOKE_PRIVILEGE_COMMAND_ID = ''llmnb.revokeMagicEmitPrivilege''"

definition computeCellToolbarItems :: "jsv \<Rightarrow> privilege list \<Rightarrow> toolbar_item list" where
  "computeCellToolbarItems cell_meta ps =
     (case readCellMetadata cell_meta of
        None \<Rightarrow> []
      | Some m \<Rightarrow>
          if tm_kind m \<noteq> None \<and> tm_kind m \<noteq> Some ''agent'' then []
          else case tm_agent m of
            None \<Rightarrow> []
          | Some a \<Rightarrow>
              if a = [] then []
              else if hasGrant a ps then
                [\<lparr>ti_command = REVOKE_PRIVILEGE_COMMAND_ID, ti_text = ''$(key) Revoke magic-emit'',
                  ti_tooltip = ''Revoke '' @ a @ [CHR 0x27] @ ''s magic-emit privilege.'' @ [LF] @
                    ''Future emit_magic_cell calls will reject with K3K.'', ti_agent = a\<rparr>]
              else
                [\<lparr>ti_command = GRANT_PRIVILEGE_COMMAND_ID, ti_text = ''$(key) Grant magic-emit'',
                  ti_tooltip = ''Grant '' @ a @ '' permission to invoke the emit_magic_cell tool.'' @ [LF] @
                    ''Privilege is per (operator, agent_id, zone) and lands in metadata.rts.config.'', ti_agent = a\<rparr>])"

text \<open>The arguments of the item's command.\<close>

definition toolbar_args :: "toolbar_item \<Rightarrow> jsv" where
  "toolbar_args i = JObj [(''agent_id'', JStr (ti_agent i))]"

text \<open>The dialog: the button picked (its second label ends in an ellipsis, an argument) and the text of
  the input box.\<close>

definition confirm_grant :: "string \<Rightarrow> string option \<Rightarrow> string option \<Rightarrow> magics option" where
  "confirm_grant ellipsis picked input =
     (if picked = Some ''Grant (all magics)'' then Some All_Magics
      else if picked = Some (''Grant (specific magics'' @ ellipsis @ '')'') then
        (case input of
           None \<Rightarrow> None
         | Some t \<Rightarrow>
             if trim t = [] then None
             else let ms = filter (\<lambda>s. 0 < length s) (map trim (split_char CHR '','' t))
               in if length ms = 0 then None else Some (Magics ms))
      else None)"

definition magics_json :: "magics \<Rightarrow> jsv" where
  "magics_json m = JObj [(''magics'', case m of All_Magics \<Rightarrow> JStr ''all'' | Magics ms \<Rightarrow> JArr (map JStr ms))]"

definition agent_arg :: "jsv \<Rightarrow> string" where
  "agent_arg args = (case jprop args ''agent_id'' of JStr a \<Rightarrow> a | _ \<Rightarrow> [])"

definition runGrantCommand :: "jsv \<Rightarrow> (string \<Rightarrow> magics option) \<Rightarrow> bool \<times> (string \<times> jsobj) list" where
  "runGrantCommand args confirm =
     (if agent_arg args = [] then (False, [])
      else case confirm (agent_arg args) of
        None \<Rightarrow> (False, [])
      | Some m \<Rightarrow> (True, [(''grant_magic_emit_privilege'',
            [(''agent_id'', JStr (agent_arg args)), (''zone_id'', jprop args ''zone_id''), (''scope'', magics_json m)])]))"

definition runRevokeCommand :: "jsv \<Rightarrow> bool \<times> (string \<times> jsobj) list" where
  "runRevokeCommand args =
     (if agent_arg args = [] then (False, [])
      else (True, [(''revoke_magic_emit_privilege'',
            [(''agent_id'', JStr (agent_arg args)), (''zone_id'', jprop args ''zone_id'')])]))"

text \<open>The command behind a toolbar item.\<close>

definition run_toolbar :: "toolbar_item \<Rightarrow> (string \<Rightarrow> magics option) \<Rightarrow> bool \<times> (string \<times> jsobj) list" where
  "run_toolbar i confirm =
     (if ti_command i = GRANT_PRIVILEGE_COMMAND_ID then runGrantCommand (toolbar_args i) confirm
      else runRevokeCommand (toolbar_args i))"

subsection \<open>Lemmas\<close>

lemma toolbar_at_most_one: "length (computeCellToolbarItems m ps) \<le> 1"
  by (simp add: computeCellToolbarItems_def split: option.splits)

lemma trim_idem: "trim (trim s) = trim s"
proof -
  let ?a = "dropWhile is_ws s"
  have "trim s = [] \<or> \<not> is_ws (hd (trim s)) \<and> \<not> is_ws (last (trim s))"
  proof (cases "trim s = []")
    case False
    let ?r = "dropWhile is_ws (rev ?a)"
    have t: "trim s = rev ?r" by (simp add: trim_def trimStart_def trimEnd_def)
    then have ne: "?r \<noteq> []" using False by simp
    have "last (trim s) = hd ?r" using ne by (simp add: t last_rev)
    then have l: "\<not> is_ws (last (trim s))" using hd_dropWhile[OF ne] by simp
    have "rev ?a = takeWhile is_ws (rev ?a) @ ?r" by simp
    then have a: "?a = rev ?r @ rev (takeWhile is_ws (rev ?a))" by (metis rev_append rev_rev_ident)
    then have "hd (trim s) = hd ?a" using ne t by (metis hd_append2 rev_is_Nil_conv)
    moreover have "?a \<noteq> []" using ne by (metis dropWhile.simps(1) rev.simps(1))
    ultimately have "\<not> is_ws (hd (trim s))" using hd_dropWhile[of is_ws s] by simp
    then show ?thesis using l by simp
  qed simp
  then show ?thesis by (rule trim_id)
qed

lemma confirm_grant_magics:
  assumes "confirm_grant e picked input = Some (Magics ms)"
  shows "ms \<noteq> [] \<and> (\<forall>x \<in> set ms. x \<noteq> [] \<and> trim x = x)"
proof -
  have "\<forall>x \<in> set ms. x \<noteq> [] \<and> (\<exists>y. x = trim y)" "ms \<noteq> []"
    using assms by (auto simp: confirm_grant_def Let_def split: if_splits option.splits)
  then show ?thesis by (auto simp: trim_idem)
qed

text \<open>Privilege toolbar: a cell has at most one item, for the agent it is bound to; the item offers
  to revoke exactly when the agent holds a grant; a grant is
  emitted only for the agent of the cell, only after the operator confirmed in the dialog, and for
  all magics only by the button that says so, otherwise for a non-empty list of non-empty trimmed
  names.\<close>

theorem grant_needs_confirmation:
  assumes "i \<in> set (computeCellToolbarItems m ps)"
  shows "computeCellToolbarItems m ps = [i] \<and> either_string m ''bound_agent_id'' = Some (ti_agent i)
    \<and> (ti_command i = REVOKE_PRIVILEGE_COMMAND_ID \<longleftrightarrow> hasGrant (ti_agent i) ps)
    \<and> (\<forall>ok act ps'. run_toolbar i (\<lambda>_. confirm_grant e picked input) = (ok, act) \<and> (''grant_magic_emit_privilege'', ps') \<in> set act \<longrightarrow>
         \<not> hasGrant (ti_agent i) ps \<and> js_get ps' ''agent_id'' = JStr (ti_agent i)
         \<and> (js_get ps' ''scope'' = magics_json All_Magics \<and> picked = Some ''Grant (all magics)''
            \<or> (\<exists>ms. js_get ps' ''scope'' = magics_json (Magics ms) \<and> ms \<noteq> [] \<and> (\<forall>x \<in> set ms. x \<noteq> [] \<and> trim x = x))))"
proof -
  have one: "computeCellToolbarItems m ps = [i]"
    using assms toolbar_at_most_one[of m ps] by (cases "computeCellToolbarItems m ps") auto
  have a: "either_string m ''bound_agent_id'' = Some (ti_agent i)" "ti_agent i \<noteq> []"
    and c: "ti_command i = REVOKE_PRIVILEGE_COMMAND_ID \<longleftrightarrow> hasGrant (ti_agent i) ps"
      "ti_command i = GRANT_PRIVILEGE_COMMAND_ID \<longleftrightarrow> \<not> hasGrant (ti_agent i) ps"
    using assms by (auto simp: computeCellToolbarItems_def readCellMetadata_def GRANT_PRIVILEGE_COMMAND_ID_def
        REVOKE_PRIVILEGE_COMMAND_ID_def split: if_splits option.splits)
  have ag: "agent_arg (toolbar_args i) = ti_agent i" by (simp add: agent_arg_def toolbar_args_def js_get_def)
  have g: "\<not> hasGrant (ti_agent i) ps \<and> (\<exists>mg. confirm_grant e picked input = Some mg \<and> ps' =
       [(''agent_id'', JStr (ti_agent i)), (''zone_id'', jprop (toolbar_args i) ''zone_id''), (''scope'', magics_json mg)])"
    if "run_toolbar i (\<lambda>_. confirm_grant e picked input) = (ok, act)" "(''grant_magic_emit_privilege'', ps') \<in> set act" for ok act ps'
    using that a(2) c unfolding run_toolbar_def runGrantCommand_def runRevokeCommand_def ag
    by (auto split: if_splits option.splits)
  have all: "picked = Some ''Grant (all magics)''" if "confirm_grant e picked input = Some All_Magics"
    using that by (auto simp: confirm_grant_def Let_def split: if_splits option.splits)
  have "js_get ps' ''scope'' = magics_json All_Magics \<and> picked = Some ''Grant (all magics)''
      \<or> (\<exists>ms. js_get ps' ''scope'' = magics_json (Magics ms) \<and> ms \<noteq> [] \<and> (\<forall>x \<in> set ms. x \<noteq> [] \<and> trim x = x))"
    if "confirm_grant e picked input = Some mg" "ps' = [(''agent_id'', JStr (ti_agent i)), (''zone_id'', z), (''scope'', magics_json mg)]" for mg ps' z
    using that all confirm_grant_magics[of e picked input] by (cases mg) (auto simp: js_get_def)
  then show ?thesis using one a(1) c(1) g by (fastforce simp: js_get_def)
qed

definition demo_agent_cell :: jsv where
  "demo_agent_cell = JObj [(''rts'', JObj [(''cell'', JObj [(''kind'', JStr ''agent''), (''bound_agent_id'', JStr ''alpha'')])])]"

theorem grant_needs_confirmation_witness:
  "\<exists>i. computeCellToolbarItems demo_agent_cell [] = [i] \<and> ti_agent i = ''alpha'' \<and> ti_command i \<noteq> REVOKE_PRIVILEGE_COMMAND_ID"
proof -
  have "length (computeCellToolbarItems demo_agent_cell []) = 1" by code_simp
  then obtain i where i: "computeCellToolbarItems demo_agent_cell [] = [i]" by (auto simp: length_Suc_conv)
  then have "i \<in> set (computeCellToolbarItems demo_agent_cell [])" by simp
  from grant_needs_confirmation[OF this, of "[]" None None] show ?thesis using i
    by (auto simp: hasGrant_def either_string_def demo_agent_cell_def js_get_def)
qed

end
