(* ===== verification/Cell_Search.thy ===== *)
theory Cell_Search
  imports Run_Frames
begin

section \<open>Sidebar search (\<open>extension/src/sidebar/search\<close>)\<close>

text \<open>
  The searchable text of a cell (\<open>scope.ts\<close>), the match finder (\<open>match-finder.ts\<close>) and the host
  side of the view (\<open>search-view-provider.ts\<close>). An output item carries the text that
  \<open>TextDecoder\<close> yields for its bytes. Regular expressions made of literal characters, escaped
  literal characters and \<open>\b\<close>, as the plain search builds them, have their ECMAScript
  semantics; every other pattern is left to the argument \<open>engine\<close>, which compiles a pattern and
  the \<open>i\<close> flag to an error text or a matcher.
\<close>

subsection \<open>Searchable text\<close>

datatype search_scope = Scope_all | Scope_inputs | Scope_outputs | Scope_tool_calls | Scope_selected

record search_cell =
  sc_metadata :: jsv
  sc_uri :: string
  sc_source :: string
  sc_outputs :: "(string \<times> string) list list"

definition getCellInputText :: "search_cell \<Rightarrow> string" where
  "getCellInputText cell = sc_source cell"

definition getCellOutputText :: "search_cell \<Rightarrow> string" where
  "getCellOutputText cell = join [LF] (map snd (concat (sc_outputs cell)))"

text \<open>\<open>{key, value: {stringValue}}\<close>: the string of an attribute pair.\<close>

definition attribute_string :: "jsobj \<Rightarrow> string option" where
  "attribute_string kvs =
     (case (js_get kvs ''key'', js_get kvs ''value'') of
        (JStr _, v) \<Rightarrow> (case jprop v ''stringValue'' of JStr s \<Rightarrow> Some s | _ \<Rightarrow> None)
      | _ \<Rightarrow> None)"

fun collectStringAttributeValues :: "jsv \<Rightarrow> string list" where
  "collectStringAttributeValues (JStr s) = [s]"
| "collectStringAttributeValues (JArr xs) = concat (map collectStringAttributeValues xs)"
| "collectStringAttributeValues (JObj kvs) =
     (case attribute_string kvs of
        Some s \<Rightarrow> [s]
      | None \<Rightarrow> concat (map (\<lambda>(k, v). collectStringAttributeValues v) kvs))"
| "collectStringAttributeValues _ = []"

definition item_strings :: "string \<times> string \<Rightarrow> string list" where
  "item_strings item =
     (if fst item \<noteq> ''application/vnd.rts.run+json'' \<or> snd item = [] then []
      else case JSON_parse (snd item) of Some v \<Rightarrow> collectStringAttributeValues v | None \<Rightarrow> [])"

definition getCellToolCallText :: "search_cell \<Rightarrow> string" where
  "getCellToolCallText cell = join [LF] (concat (map item_strings (concat (sc_outputs cell))))"

definition getSearchableText :: "search_cell \<Rightarrow> search_scope \<Rightarrow> string" where
  "getSearchableText cell scope =
     (case scope of
        Scope_inputs \<Rightarrow> getCellInputText cell
      | Scope_outputs \<Rightarrow> getCellOutputText cell
      | Scope_tool_calls \<Rightarrow> getCellToolCallText cell
      | _ \<Rightarrow> join [LF] (filter (\<lambda>s. 0 < length s)
               [getCellInputText cell, getCellOutputText cell, getCellToolCallText cell]))"

subsection \<open>Regular expressions\<close>

definition REGEX_META :: string where
  "REGEX_META = ''.*+?^${}()|[]'' @ [CHR 0x5C]"

definition escapeRegexLiterals :: "string \<Rightarrow> string" where
  "escapeRegexLiterals input = concat (map (\<lambda>c. if c \<in> set REGEX_META then [CHR 0x5C, c] else [c]) input)"

datatype regex_token = Literal char | Word_boundary

fun regex_tokens :: "string \<Rightarrow> regex_token list option" where
  "regex_tokens [] = Some []"
| "regex_tokens (c # s) =
     (if c = CHR 0x5C then
        (case s of
           [] \<Rightarrow> None
         | d # r \<Rightarrow>
             if d = CHR ''b'' then map_option (Cons Word_boundary) (regex_tokens r)
             else if d \<in> set REGEX_META then map_option (Cons (Literal d)) (regex_tokens r)
             else None)
      else if c \<in> set REGEX_META then None
      else map_option (Cons (Literal c)) (regex_tokens s))"

text \<open>With the \<open>i\<close> flag characters are compared after case folding.\<close>

definition same_char :: "bool \<Rightarrow> char \<Rightarrow> char \<Rightarrow> bool" where
  "same_char ignore c d \<longleftrightarrow> c = d \<or> ignore \<and> lower_char c = lower_char d"

definition word_boundary :: "string \<Rightarrow> nat \<Rightarrow> bool" where
  "word_boundary t i \<longleftrightarrow>
     ((0 < i \<and> i \<le> length t \<and> is_word (t ! (i - 1))) \<noteq> (i < length t \<and> is_word (t ! i)))"

fun match_tokens :: "bool \<Rightarrow> string \<Rightarrow> regex_token list \<Rightarrow> nat \<Rightarrow> nat option" where
  "match_tokens ignore t [] i = Some i"
| "match_tokens ignore t (Literal c # ts) i =
     (if i < length t \<and> same_char ignore c (t ! i) then match_tokens ignore t ts (Suc i) else None)"
| "match_tokens ignore t (Word_boundary # ts) i =
     (if word_boundary t i then match_tokens ignore t ts i else None)"

text \<open>A matcher: the index and length of the first match at or after a position.\<close>

type_synonym matcher = "string \<Rightarrow> nat \<Rightarrow> (nat \<times> nat) option"

definition token_matcher :: "bool \<Rightarrow> regex_token list \<Rightarrow> matcher" where
  "token_matcher ignore ts t from =
     (case List.find (\<lambda>i. match_tokens ignore t ts i \<noteq> None) [from..<Suc (length t)] of
        None \<Rightarrow> None
      | Some i \<Rightarrow> Some (i, the (match_tokens ignore t ts i) - i))"

definition new_RegExp :: "(string \<Rightarrow> bool \<Rightarrow> string + matcher) \<Rightarrow> string \<Rightarrow> bool \<Rightarrow> string + matcher" where
  "new_RegExp engine p ignore =
     (case regex_tokens p of Some ts \<Rightarrow> Inr (token_matcher ignore ts) | None \<Rightarrow> engine p ignore)"

text \<open>\<open>regex.exec(text)\<close> with the given \<open>lastIndex\<close>: past the end there is no match.\<close>

definition regex_exec :: "matcher \<Rightarrow> string \<Rightarrow> nat \<Rightarrow> (nat \<times> nat) option" where
  "regex_exec rx t last_index = (if length t < last_index then None else rx t last_index)"

subsection \<open>The match finder\<close>

record search_options =
  query :: string
  caseSensitive :: bool
  wholeWord :: bool
  regex :: bool
  scope :: search_scope

definition PER_CELL_MATCH_CAP :: nat where
  "PER_CELL_MATCH_CAP = 250"

definition MAX_DISPLAYED_MATCHES :: nat where
  "MAX_DISPLAYED_MATCHES = 500"

definition SNIPPET_HALF_WIDTH :: nat where
  "SNIPPET_HALF_WIDTH = 40"

definition BOUNDARY :: string where
  "BOUNDARY = [CHR 0x5C, CHR ''b'']"

text \<open>\<open>None\<close> for the empty query.\<close>

definition buildSearchRegex :: "(string \<Rightarrow> bool \<Rightarrow> string + matcher) \<Rightarrow> search_options \<Rightarrow> (string + matcher) option" where
  "buildSearchRegex engine opts =
     (if query opts = [] then None
      else let p0 = (if regex opts then query opts else escapeRegexLiterals (query opts));
               p = (if wholeWord opts then BOUNDARY @ p0 @ BOUNDARY else p0)
           in Some (case new_RegExp engine p (\<not> caseSensitive opts) of
                Inr rx \<Rightarrow> Inr rx | Inl msg \<Rightarrow> Inl (''search_regex_invalid: '' @ msg)))"

record raw_match =
  rm_snippet :: string
  rm_start :: nat
  rm_end :: nat

text \<open>\<open>replace(/[P]{k,}/g, ' ')\<close>.\<close>

function collapse :: "(char \<Rightarrow> bool) \<Rightarrow> nat \<Rightarrow> string \<Rightarrow> string" where
  "collapse P k [] = []"
| "collapse P k (c # s) =
     (if P c then (let run = takeWhile P (c # s) in
        (if k \<le> length run then '' '' else run) @ collapse P k (dropWhile P s))
      else c # collapse P k s)"
  by pat_completeness auto
termination by (relation "measure (\<lambda>(P, k, s). length s)") (auto simp: le_imp_less_Suc length_dropWhile_le)

definition one_line :: "string \<Rightarrow> string" where
  "one_line s = collapse is_ws 2 (collapse (\<lambda>c. c \<in> {CR, LF, CHR 0x09}) 1 s)"

definition indexOf_from :: "string \<Rightarrow> string \<Rightarrow> nat \<Rightarrow> nat option" where
  "indexOf_from s p from =
     (case List.find (\<lambda>i. prefix p (drop i s)) [from..<Suc (length s)] of
        Some i \<Rightarrow> Some i
      | None \<Rightarrow> if p = [] then Some (length s) else None)"

definition slice :: "string \<Rightarrow> nat \<Rightarrow> nat \<Rightarrow> string" where
  "slice s a b = take (b - a) (drop a s)"

definition extractSnippet :: "string \<Rightarrow> nat \<Rightarrow> nat \<Rightarrow> raw_match" where
  "extractSnippet t matchStart matchEnd =
     (let snippetStart = matchStart - SNIPPET_HALF_WIDTH;
          snippetEnd = min (length t) (matchEnd + SNIPPET_HALF_WIDTH);
          compressed = one_line (slice t snippetStart snippetEnd);
          offsetInRaw = matchStart - snippetStart;
          matchText = slice t matchStart matchEnd
      in case indexOf_from compressed matchText (offsetInRaw - 4) of
           Some i \<Rightarrow> \<lparr>rm_snippet = compressed, rm_start = i, rm_end = i + length matchText\<rparr>
         | None \<Rightarrow> \<lparr>rm_snippet = compressed, rm_start = offsetInRaw,
             rm_end = min (length compressed) (offsetInRaw + (matchEnd - matchStart))\<rparr>)"

text \<open>The loop: \<open>n\<close> matches at most are still wanted. The counter \<open>safety\<close> of the source never exceeds
  the number of matches found, which ends the loop first.\<close>

fun scan_matches :: "matcher \<Rightarrow> string \<Rightarrow> nat \<Rightarrow> nat \<Rightarrow> (nat \<times> nat) list" where
  "scan_matches rx t last_index 0 = []"
| "scan_matches rx t last_index (Suc n) =
     (case regex_exec rx t last_index of
        None \<Rightarrow> []
      | Some (s, l) \<Rightarrow> (s, s + l) # scan_matches rx t (if l = 0 then s + l + 1 else s + l) n)"

definition findMatchesInText :: "string \<Rightarrow> matcher \<Rightarrow> raw_match list" where
  "findMatchesInText t rx = map (\<lambda>(s, e). extractSnippet t s e) (scan_matches rx t 0 PER_CELL_MATCH_CAP)"

record search_match =
  cellIndex :: nat
  cellId :: string
  match_scope :: search_scope
  match_raw :: raw_match

definition primaryCellId :: "search_cell \<Rightarrow> string" where
  "primaryCellId cell = hd (candidateCellIds (sc_metadata cell) (sc_uri cell))"

definition cell_matches :: "matcher \<Rightarrow> nat set \<Rightarrow> search_options \<Rightarrow> nat \<times> search_cell \<Rightarrow> search_match list" where
  "cell_matches rx selected opts ic =
     (if scope opts = Scope_selected \<and> fst ic \<notin> selected then []
      else let t = getSearchableText (snd ic) (scope opts) in
        if t = [] then []
        else map (\<lambda>m. \<lparr>cellIndex = fst ic, cellId = primaryCellId (snd ic), match_scope = scope opts, match_raw = m\<rparr>)
               (findMatchesInText t rx))"

definition add_cell :: "matcher \<Rightarrow> nat set \<Rightarrow> search_options \<Rightarrow> nat \<times> search_cell \<Rightarrow> search_match list \<times> nat \<Rightarrow> search_match list \<times> nat" where
  "add_cell rx selected opts ic acc =
     (let ms = cell_matches rx selected opts ic in
      (fst acc @ take (MAX_DISPLAYED_MATCHES - length (fst acc)) ms, snd acc + length ms))"

record search_results =
  matches :: "search_match list"
  total :: nat
  truncated :: bool
  search_error :: "string option"

definition no_results :: "string option \<Rightarrow> search_results" where
  "no_results err = \<lparr>matches = [], total = 0, truncated = False, search_error = err\<rparr>"

definition findMatches ::
  "(string \<Rightarrow> bool \<Rightarrow> string + matcher) \<Rightarrow> search_cell list option \<Rightarrow> nat set \<Rightarrow> search_options \<Rightarrow> search_results" where
  "findMatches engine notebook selected opts =
     (case notebook of
        None \<Rightarrow> no_results None
      | Some cs \<Rightarrow>
        (case buildSearchRegex engine opts of
           None \<Rightarrow> no_results None
         | Some (Inl err) \<Rightarrow> no_results (Some err)
         | Some (Inr rx) \<Rightarrow>
             (let (ms, n) = fold (add_cell rx selected opts) (zip [0..<length cs] cs) ([], 0)
              in \<lparr>matches = ms, total = n, truncated = length ms < n, search_error = None\<rparr>)))"

subsection \<open>The view provider\<close>

record notebook_editor =
  ed_notebookType :: string
  ed_cells :: "search_cell list"
  ed_selections :: "(nat \<times> nat) list"

definition readActiveContext :: "string \<Rightarrow> notebook_editor option \<Rightarrow> search_cell list option \<times> nat set" where
  "readActiveContext notebookType editor =
     (case editor of
        None \<Rightarrow> (None, {})
      | Some e \<Rightarrow>
          if ed_notebookType e \<noteq> notebookType then (None, {})
          else (Some (ed_cells e), set (concat (map (\<lambda>(a, b). [a..<b]) (ed_selections e)))))"

text \<open>A message of the view; \<open>cellId\<close> is checked by the handler, the options are not.\<close>

datatype webview_message = Msg_ready | Msg_search search_options | Msg_navigate jsv | Msg_other

datatype search_effect = Post_results search_results | Reveal_cell string

record search_provider =
  sp_view :: bool
  sp_lastOptions :: "search_options option"
  sp_queued :: nat

definition emptyOptions :: search_options where
  "emptyOptions = \<lparr>query = [], caseSensitive = False, wholeWord = False, regex = False, scope = Scope_all\<rparr>"

definition postResults ::
  "(string \<Rightarrow> bool \<Rightarrow> string + matcher) \<Rightarrow> string \<Rightarrow> notebook_editor option \<Rightarrow> search_options \<Rightarrow> search_provider \<Rightarrow> search_effect list" where
  "postResults engine notebookType editor opts st =
     (if \<not> sp_view st then []
      else let (nb, selected) = readActiveContext notebookType editor
           in [Post_results (findMatches engine nb selected opts)])"

definition runSearch ::
  "(string \<Rightarrow> bool \<Rightarrow> string + matcher) \<Rightarrow> string \<Rightarrow> notebook_editor option \<Rightarrow> search_options \<Rightarrow> search_provider
    \<Rightarrow> search_provider \<times> search_results" where
  "runSearch engine notebookType editor opts st =
     (let (nb, selected) = readActiveContext notebookType editor
      in (st\<lparr>sp_lastOptions := Some opts\<rparr>, findMatches engine nb selected opts))"

definition handleSearchMessage ::
  "(string \<Rightarrow> bool \<Rightarrow> string + matcher) \<Rightarrow> string \<Rightarrow> notebook_editor option \<Rightarrow> webview_message \<Rightarrow> search_provider
    \<Rightarrow> search_provider \<times> search_effect list" where
  "handleSearchMessage engine notebookType editor msg st =
     (case msg of
        Msg_ready \<Rightarrow> (st\<lparr>sp_lastOptions := Some emptyOptions\<rparr>, postResults engine notebookType editor emptyOptions st)
      | Msg_search opts \<Rightarrow> (st\<lparr>sp_lastOptions := Some opts\<rparr>, postResults engine notebookType editor opts st)
      | Msg_navigate (JStr c) \<Rightarrow> (st, if 0 < length c then [Reveal_cell c] else [])
      | _ \<Rightarrow> (st, []))"

text \<open>The query is re-run in a microtask, with the options of that moment.\<close>

definition runIfReady :: "search_provider \<Rightarrow> search_provider" where
  "runIfReady st =
     (case sp_lastOptions st of
        Some opts \<Rightarrow> if sp_view st \<and> query opts \<noteq> [] then st\<lparr>sp_queued := Suc (sp_queued st)\<rparr> else st
      | None \<Rightarrow> st)"

definition run_microtask ::
  "(string \<Rightarrow> bool \<Rightarrow> string + matcher) \<Rightarrow> string \<Rightarrow> notebook_editor option \<Rightarrow> search_provider
    \<Rightarrow> search_provider \<times> search_effect list" where
  "run_microtask engine notebookType editor st =
     (case (sp_queued st, sp_lastOptions st) of
        (Suc n, Some opts) \<Rightarrow> (st\<lparr>sp_queued := n\<rparr>, postResults engine notebookType editor opts st)
      | _ \<Rightarrow> (st, []))"

datatype search_event = Document_changed string | Active_editor_changed | Selection_changed string

definition on_search_event :: "string \<Rightarrow> search_event \<Rightarrow> search_provider \<Rightarrow> search_provider" where
  "on_search_event notebookType ev st =
     (case ev of
        Document_changed ty \<Rightarrow> if ty = notebookType then runIfReady st else st
      | Active_editor_changed \<Rightarrow> runIfReady st
      | Selection_changed ty \<Rightarrow> if ty = notebookType then runIfReady st else st)"

definition resolveSearchView :: "search_provider \<Rightarrow> search_provider" where
  "resolveSearchView st = st\<lparr>sp_view := True\<rparr>"

definition disposeSearchView :: "search_provider \<Rightarrow> search_provider" where
  "disposeSearchView st = st\<lparr>sp_view := False\<rparr>"

subsection \<open>Matchers as an interface\<close>

text \<open>What the scanning loop relies on: a match lies at or after \<open>lastIndex\<close> and within the text.
  ECMAScript's \<open>RegExp.prototype.exec\<close> promises it for every compiled pattern.\<close>

locale regex_matcher =
  fixes rx :: matcher
  assumes match_after: "\<lbrakk>i \<le> length t; rx t i = Some (s, l)\<rbrakk> \<Longrightarrow> i \<le> s"
    and match_inside: "\<lbrakk>i \<le> length t; rx t i = Some (s, l)\<rbrakk> \<Longrightarrow> s + l \<le> length t"
begin

lemma exec_bounds: "regex_exec rx t i = Some (s, l) \<Longrightarrow> i \<le> s \<and> s + l \<le> length t"
  using match_after[of i t s l] match_inside[of i t s l] by (auto simp: regex_exec_def split: if_splits)

lemma scan_bounds: "(s, e) \<in> set (scan_matches rx t i n) \<Longrightarrow> i \<le> s \<and> s \<le> e \<and> e \<le> length t"
proof (induction n arbitrary: i)
  case (Suc n)
  obtain a l where x: "regex_exec rx t i = Some (a, l)"
    using Suc.prems by (cases "regex_exec rx t i") auto
  then show ?case using Suc exec_bounds[OF x] by (fastforce split: if_splits)
qed simp

text \<open>Matches come in order, disjoint, and never twice at one place.\<close>

lemma scan_ordered:
  "sorted_wrt (\<lambda>(s, e) (s', e'). e \<le> s' \<and> s < s') (scan_matches rx t i n)"
proof (induction n arbitrary: i)
  case (Suc n)
  show ?case
  proof (cases "regex_exec rx t i")
    case (Some p)
    obtain a l where p: "p = (a, l)" by (cases p)
    have "a + l \<le> s \<and> a < s" if "(s, e) \<in> set (scan_matches rx t (if l = 0 then a + l + 1 else a + l) n)" for s e
      using scan_bounds[OF that] by (auto split: if_splits)
    then show ?thesis using Suc Some p by fastforce
  qed simp
qed simp

text \<open>The loop ends by itself: with at least one step per position of the text, a larger cap
  changes nothing.\<close>

lemma scan_exhausted:
  "Suc (length t) - i \<le> n \<Longrightarrow> Suc (length t) - i \<le> m \<Longrightarrow> scan_matches rx t i n = scan_matches rx t i m"
proof (induction n arbitrary: i m)
  case 0
  then have none: "regex_exec rx t i = None" by (simp add: regex_exec_def)
  show ?case by (cases m) (auto simp: none)
next
  case (Suc n)
  show ?case
  proof (cases m)
    case 0
    then have none: "regex_exec rx t i = None" using Suc by (simp add: regex_exec_def)
    show ?thesis by (simp add: none 0)
  next
    case (Suc k)
    show ?thesis
    proof (cases "regex_exec rx t i")
      case (Some p)
      obtain a l where p: "p = (a, l)" by (cases p)
      let ?j = "if l = 0 then a + l + 1 else a + l"
      have "i \<le> a" "a + l \<le> length t" using exec_bounds Some p by auto
      then have "scan_matches rx t ?j n = scan_matches rx t ?j k"
        using Suc.prems Suc by (intro Suc.IH) auto
      then show ?thesis using Some p Suc by simp
    qed (simp add: Suc)
  qed
qed

end

text \<open>The matchers that the plain search compiles satisfy it.\<close>

lemma match_tokens_bounds: "match_tokens ignore t ts i = Some e \<Longrightarrow> i \<le> length t \<Longrightarrow> i \<le> e \<and> e \<le> length t"
  by (induction ignore t ts i rule: match_tokens.induct) (auto split: if_splits)

lemma find_upt_Some:
  "List.find P [i..<j] = Some k \<longleftrightarrow> i \<le> k \<and> k < j \<and> P k \<and> (\<forall>m. i \<le> m \<and> m < k \<longrightarrow> \<not> P m)"
proof -
  have "\<forall>m<k - i. \<not> P (i + m)" if "\<forall>m. i \<le> m \<and> m < k \<longrightarrow> \<not> P m" "i \<le> k" using that by auto
  moreover have "\<not> P m" if "\<forall>d<n. \<not> P (i + d)" "i \<le> m" "m < i + n" for m n
    using that by (auto dest: spec[of _ "m - i"])
  ultimately show ?thesis
    by (auto simp: find_Some_iff intro!: exI[of _ "k - i"])
qed

lemma find_upt_None: "List.find P [i..<j] = None \<longleftrightarrow> (\<forall>m. i \<le> m \<and> m < j \<longrightarrow> \<not> P m)"
  by (auto simp: find_None_iff)

lemma token_matcher_Some:
  assumes "token_matcher ignore ts t i = Some (s, l)"
  shows "i \<le> s \<and> s \<le> length t \<and> match_tokens ignore t ts s = Some (s + l)
    \<and> (\<forall>p. i \<le> p \<and> p < s \<longrightarrow> match_tokens ignore t ts p = None)"
proof -
  let ?P = "\<lambda>p. match_tokens ignore t ts p \<noteq> None"
  have f: "List.find ?P [i..<Suc (length t)] = Some s" "l = the (match_tokens ignore t ts s) - s"
    using assms by (auto simp: token_matcher_def simp del: upt_Suc split: option.splits)
  then have s: "i \<le> s" "s \<le> length t" "?P s" "\<forall>p. i \<le> p \<and> p < s \<longrightarrow> \<not> ?P p"
    by (auto simp: find_upt_Some simp del: upt_Suc)
  then obtain e where "match_tokens ignore t ts s = Some e" by auto
  then show ?thesis using s f(2) match_tokens_bounds[of ignore t ts s e] by auto
qed

lemma token_matcher_None:
  "token_matcher ignore ts t i = None \<longleftrightarrow> (\<forall>p. i \<le> p \<and> p \<le> length t \<longrightarrow> match_tokens ignore t ts p = None)"
  by (auto simp: token_matcher_def find_upt_None find_upt_Some less_Suc_eq_le simp del: upt_Suc split: option.splits)

interpretation tm: regex_matcher "token_matcher ignore ts" for ignore ts
  by unfold_locales (use match_tokens_bounds in \<open>auto dest!: token_matcher_Some\<close>)

text \<open>Nothing is missed: every place where the tokens match is covered by a listed match, unless the
  cap was reached.\<close>

lemma scan_complete:
  assumes "match_tokens ignore t ts p \<noteq> None" "i \<le> p" "p \<le> length t"
    "length (scan_matches (token_matcher ignore ts) t i n) < n"
  shows "\<exists>(s, e) \<in> set (scan_matches (token_matcher ignore ts) t i n). s \<le> p \<and> p < max e (Suc s)"
  using assms
proof (induction n arbitrary: i)
  case (Suc n)
  obtain a l where x: "token_matcher ignore ts t i = Some (a, l)"
    using Suc.prems token_matcher_None[of ignore ts t i] by (cases "token_matcher ignore ts t i") auto
  have a: "i \<le> a" "a \<le> p" using token_matcher_Some[OF x] Suc.prems by (auto simp: not_less)
  have e: "regex_exec (token_matcher ignore ts) t i = Some (a, l)" using x Suc.prems by (simp add: regex_exec_def)
  let ?j = "if l = 0 then a + l + 1 else a + l"
  show ?case
  proof (cases "p < max (a + l) (Suc a)")
    case False
    then have "?j \<le> p" by auto
    then show ?thesis using Suc.IH[of ?j] Suc.prems e by auto
  qed (use a e in auto)
qed simp

lemma scan_sound:
  "(s, e) \<in> set (scan_matches (token_matcher ignore ts) t i n) \<Longrightarrow> match_tokens ignore t ts s = Some e"
proof (induction n arbitrary: i)
  case (Suc n)
  obtain a l where x: "regex_exec (token_matcher ignore ts) t i = Some (a, l)"
    using Suc.prems by (cases "regex_exec (token_matcher ignore ts) t i") auto
  then have "match_tokens ignore t ts a = Some (a + l)"
    using token_matcher_Some[of ignore ts t i a l] by (simp add: regex_exec_def split: if_splits)
  then show ?case using Suc x by auto
qed simp

subsection \<open>The plain search\<close>

text \<open>The reference: the query occurs at a position of the text, up to case when the search ignores
  case, and between word boundaries when whole words are asked for.\<close>

definition occurs_at :: "search_options \<Rightarrow> string \<Rightarrow> nat \<Rightarrow> bool" where
  "occurs_at opts t p \<longleftrightarrow>
     (let n = length (query opts) in
      p + n \<le> length t \<and> list_all2 (same_char (\<not> caseSensitive opts)) (query opts) (slice t p (p + n))
      \<and> (wholeWord opts \<longrightarrow> word_boundary t p \<and> word_boundary t (p + n)))"

definition plain_tokens :: "search_options \<Rightarrow> regex_token list" where
  "plain_tokens opts =
     (let b = (if wholeWord opts then [Word_boundary] else []) in b @ map Literal (query opts) @ b)"

lemma regex_tokens_escape:
  "regex_tokens (escapeRegexLiterals q @ r) = map_option (\<lambda>ts. map Literal q @ ts) (regex_tokens r)"
proof (induction q)
  case Nil
  show ?case by (simp add: escapeRegexLiterals_def option.map_ident)
next
  case (Cons c q)
  have "escapeRegexLiterals (c # q) =
      (if c \<in> set REGEX_META then [CHR 0x5C, c] else [c]) @ escapeRegexLiterals q"
    by (simp add: escapeRegexLiterals_def)
  moreover have "CHR 0x5C \<in> set REGEX_META" "CHR ''b'' \<notin> set REGEX_META" by (auto simp: REGEX_META_def)
  ultimately show ?case using Cons by (auto simp: option.map_comp comp_def)
qed

lemma buildSearchRegex_plain:
  assumes "\<not> regex opts" "query opts \<noteq> []"
  shows "buildSearchRegex engine opts =
    Some (Inr (token_matcher (\<not> caseSensitive opts) (plain_tokens opts)))"
proof -
  have b: "regex_tokens BOUNDARY = Some [Word_boundary]" by (simp add: BOUNDARY_def)
  have e: "regex_tokens (escapeRegexLiterals (query opts)) = Some (map Literal (query opts))"
    using regex_tokens_escape[of "query opts" "[]"] by simp
  have w: "regex_tokens (BOUNDARY @ escapeRegexLiterals (query opts) @ BOUNDARY)
      = Some (Word_boundary # map Literal (query opts) @ [Word_boundary])"
    using regex_tokens_escape[of "query opts" BOUNDARY] b by (simp add: BOUNDARY_def)
  show ?thesis using assms e w
    by (simp add: buildSearchRegex_def new_RegExp_def plain_tokens_def Let_def)
qed

lemma match_literals:
  "match_tokens ignore t (map Literal q @ ts) p =
     (if p + length q \<le> length t \<and> list_all2 (same_char ignore) q (take (length q) (drop p t))
      then match_tokens ignore t ts (p + length q) else None)"
  if "p \<le> length t"
  using that
proof (induction q arbitrary: p)
  case (Cons c q)
  show ?case
  proof (cases "p < length t")
    case True
    then have "drop p t = t ! p # drop (Suc p) t" by (simp add: Cons_nth_drop_Suc)
    then show ?thesis using Cons.IH[of "Suc p"] True by auto
  qed (use Cons.prems in auto)
qed simp

lemma match_plain:
  assumes "p \<le> length t"
  shows "match_tokens (\<not> caseSensitive opts) t (plain_tokens opts) p =
    (if occurs_at opts t p then Some (p + length (query opts)) else None)"
  using match_literals[OF assms, of "\<not> caseSensitive opts" "query opts" "[]"]
    match_literals[OF assms, of "\<not> caseSensitive opts" "query opts" "[Word_boundary]"]
  by (cases "wholeWord opts") (auto simp: plain_tokens_def occurs_at_def slice_def Let_def)

text \<open>Plain search over one text: the matches found are occurrences of the query, in order and
  disjoint, and unless the cap of 250 matches is reached every occurrence of the query overlaps a
  match found.\<close>

theorem plain_scan_exact:
  assumes "\<not> regex opts" "query opts \<noteq> []"
  shows "\<exists>rx. buildSearchRegex engine opts = Some (Inr rx)
    \<and> sorted_wrt (\<lambda>(s, e) (s', e'). e \<le> s') (scan_matches rx t 0 PER_CELL_MATCH_CAP)
    \<and> (\<forall>(s, e) \<in> set (scan_matches rx t 0 PER_CELL_MATCH_CAP).
         occurs_at opts t s \<and> e = s + length (query opts))
    \<and> (length (scan_matches rx t 0 PER_CELL_MATCH_CAP) < PER_CELL_MATCH_CAP \<longrightarrow>
        (\<forall>p. occurs_at opts t p \<longrightarrow>
          (\<exists>(s, e) \<in> set (scan_matches rx t 0 PER_CELL_MATCH_CAP). s \<le> p \<and> p < e)))"
proof -
  let ?rx = "token_matcher (\<not> caseSensitive opts) (plain_tokens opts)"
  let ?ms = "scan_matches ?rx t 0 PER_CELL_MATCH_CAP"
  have sorted: "sorted_wrt (\<lambda>(s, e) (s', e'). e \<le> s') ?ms"
    by (rule sorted_wrt_mono_rel[OF _ tm.scan_ordered]) auto
  have hit: "occurs_at opts t s \<and> e = s + length (query opts)" if "(s, e) \<in> set ?ms" for s e
    using scan_sound[OF that] tm.scan_bounds[OF that] match_plain[of s t opts] by (auto split: if_splits)
  have all: "\<exists>(s, e) \<in> set ?ms. s \<le> p \<and> p < e"
    if short: "length ?ms < PER_CELL_MATCH_CAP" and p: "occurs_at opts t p" for p
  proof -
    have "p \<le> length t" using p by (simp add: occurs_at_def Let_def)
    then obtain s e where m: "(s, e) \<in> set ?ms" "s \<le> p" "p < max e (Suc s)"
      using scan_complete[of "\<not> caseSensitive opts" t "plain_tokens opts" p 0 PER_CELL_MATCH_CAP]
        short p match_plain[of p t opts] by auto
    have "Suc s \<le> e" using hit[OF m(1)] assms(2) by (cases "query opts") auto
    then have "p < e" using m(3) by simp
    then show ?thesis using m by blast
  qed
  show ?thesis using buildSearchRegex_plain[OF assms, of engine] sorted hit all by blast
qed

definition demo_options :: search_options where
  "demo_options = \<lparr>query = ''Aa.'', caseSensitive = False, wholeWord = False, regex = False, scope = Scope_all\<rparr>"

theorem plain_scan_exact_witness:
  "\<exists>rx. buildSearchRegex (\<lambda>_ _. Inl ''no engine'') demo_options = Some (Inr rx)
    \<and> (\<exists>(s, e) \<in> set (scan_matches rx ''baa.aab'' 0 PER_CELL_MATCH_CAP). s \<le> 1 \<and> 1 < e)"
proof -
  let ?e = "\<lambda>_ _. Inl ''no engine''"
  let ?rx = "token_matcher (\<not> caseSensitive demo_options) (plain_tokens demo_options)"
  have d: "\<not> regex demo_options" "query demo_options \<noteq> []" by (simp_all add: demo_options_def)
  have l: "length (scan_matches ?rx ''baa.aab'' 0 PER_CELL_MATCH_CAP) < PER_CELL_MATCH_CAP" by code_simp
  have o: "occurs_at demo_options ''baa.aab'' 1" by code_simp
  obtain rx where rx: "buildSearchRegex ?e demo_options = Some (Inr rx)"
      "length (scan_matches rx ''baa.aab'' 0 PER_CELL_MATCH_CAP) < PER_CELL_MATCH_CAP \<longrightarrow>
        (\<forall>p. occurs_at demo_options ''baa.aab'' p \<longrightarrow>
          (\<exists>(s, e) \<in> set (scan_matches rx ''baa.aab'' 0 PER_CELL_MATCH_CAP). s \<le> p \<and> p < e))"
    using plain_scan_exact[OF d, of ?e "''baa.aab''"] by blast
  then have "rx = ?rx" using buildSearchRegex_plain[OF d, of ?e] by simp
  then show ?thesis using rx l o by blast
qed

subsection \<open>Results over a notebook\<close>

definition all_matches :: "matcher \<Rightarrow> nat set \<Rightarrow> search_options \<Rightarrow> search_cell list \<Rightarrow> search_match list" where
  "all_matches rx selected opts cs = concat (map (cell_matches rx selected opts) (zip [0..<length cs] cs))"

lemma fold_add_cell:
  "length (fst acc) = min MAX_DISPLAYED_MATCHES (snd acc) \<Longrightarrow>
   fold (add_cell rx selected opts) ics acc =
     (fst acc @ take (MAX_DISPLAYED_MATCHES - length (fst acc)) (concat (map (cell_matches rx selected opts) ics)),
      snd acc + length (concat (map (cell_matches rx selected opts) ics)))"
proof (induction ics arbitrary: acc)
  case (Cons ic ics)
  let ?acc = "add_cell rx selected opts ic acc"
  have "length (fst ?acc) = min MAX_DISPLAYED_MATCHES (snd ?acc)"
    using Cons.prems by (auto simp: add_cell_def Let_def min_def)
  then have "fold (add_cell rx selected opts) ics ?acc =
      (fst ?acc @ take (MAX_DISPLAYED_MATCHES - length (fst ?acc)) (concat (map (cell_matches rx selected opts) ics)),
       snd ?acc + length (concat (map (cell_matches rx selected opts) ics)))" by (rule Cons.IH)
  moreover have "take (n - (k + min l (n - k))) xs = take (n - (k + l)) xs" for n k l and xs :: "search_match list"
    by (auto simp: min_def)
  ultimately show ?case by (auto simp: add_cell_def[of rx selected opts ic acc] Let_def)
qed simp

lemma findMatches_compiled:
  assumes "buildSearchRegex engine opts = Some (Inr rx)"
  shows "findMatches engine (Some cs) selected opts =
    (let ms = all_matches rx selected opts cs in
     \<lparr>matches = take MAX_DISPLAYED_MATCHES ms, total = length ms,
       truncated = MAX_DISPLAYED_MATCHES < length ms, search_error = None\<rparr>)"
  using assms fold_add_cell[of "([], 0)" rx selected opts "zip [0..<length cs] cs"]
  by (auto simp: findMatches_def all_matches_def Let_def min_def)

lemma scan_cap: "length (scan_matches rx t i n) \<le> n"
  by (induction n arbitrary: i) (auto split: option.splits prod.splits)

lemma findMatchesInText_cap: "length (findMatchesInText t rx) \<le> PER_CELL_MATCH_CAP"
  by (simp add: findMatchesInText_def scan_cap)

lemma set_all_matches:
  "m \<in> set (all_matches rx selected opts cs) \<longleftrightarrow>
     (\<exists>i<length cs. m \<in> set (cell_matches rx selected opts (i, cs ! i)))"
  by (force simp: all_matches_def set_zip)

lemma cell_matches_index: "m \<in> set (cell_matches rx selected opts ic) \<Longrightarrow> cellIndex m = fst ic"
  by (auto simp: cell_matches_def Let_def split: if_splits)

lemma cell_matches_sorted:
  "sorted_wrt (\<lambda>a b. cellIndex a \<le> cellIndex b) (concat (map (cell_matches rx selected opts) (zip [k..<k + length cs] cs)))"
proof (induction cs arbitrary: k)
  case (Cons c cs)
  have z: "zip [k..<k + length (c # cs)] (c # cs) = (k, c) # zip [Suc k..<Suc k + length cs] cs"
    by (simp add: upt_conv_Cons del: upt_Suc)
  have "k \<le> cellIndex m" if "m \<in> set (concat (map (cell_matches rx selected opts) (zip [Suc k..<Suc k + length cs] cs)))" for m
    using that by (auto dest!: cell_matches_index simp: set_zip simp del: upt_Suc)
  moreover have "sorted_wrt (\<lambda>a b. cellIndex a \<le> cellIndex b) (cell_matches rx selected opts (k, c))"
    by (rule sorted_wrt_mono_rel[of _ "\<lambda>_ _. True"]) (auto dest!: cell_matches_index simp: sorted_wrt_iff_nth_less)
  ultimately show ?case using Cons[of "Suc k"] unfolding z
    by (auto simp: sorted_wrt_append dest!: cell_matches_index set_zip_leftD simp del: upt_Suc)
qed simp

text \<open>Result accounting: with a pattern that compiles, the view is given the first 500 of all the
  matches in notebook order, the true number of matches found, and a truncation flag that is set
  exactly when some are withheld; every match points at a cell of the notebook, one of the selected
  cells when only those are searched, and no cell contributes more than 250.\<close>

theorem search_results_account:
  assumes "buildSearchRegex engine opts = Some (Inr rx)" "r = findMatches engine (Some cs) selected opts"
  shows "matches r = take 500 (all_matches rx selected opts cs)
    \<and> total r = length (all_matches rx selected opts cs)
    \<and> (truncated r \<longleftrightarrow> length (matches r) < total r) \<and> search_error r = None
    \<and> sorted (map cellIndex (matches r))
    \<and> (\<forall>m \<in> set (matches r). cellIndex m < length cs \<and> (scope opts = Scope_selected \<longrightarrow> cellIndex m \<in> selected))
    \<and> total r \<le> 250 * length cs"
proof -
  have r: "matches r = take MAX_DISPLAYED_MATCHES (all_matches rx selected opts cs)"
    "total r = length (all_matches rx selected opts cs)"
    "truncated r = (MAX_DISPLAYED_MATCHES < total r)" "search_error r = None"
    using findMatches_compiled[OF assms(1)] assms(2) by (auto simp: Let_def)
  have "sorted (map cellIndex (all_matches rx selected opts cs))"
    using cell_matches_sorted[of rx selected opts 0 cs] by (simp add: all_matches_def sorted_map)
  then have sorted: "sorted (map cellIndex (matches r))" by (simp add: r sorted_wrt_take take_map[symmetric])
  have mem: "cellIndex m < length cs \<and> (scope opts = Scope_selected \<longrightarrow> cellIndex m \<in> selected)"
    if mr: "m \<in> set (matches r)" for m
  proof -
    obtain i where i: "i < length cs" "m \<in> set (cell_matches rx selected opts (i, cs ! i))"
      using in_set_takeD[OF mr[unfolded r(1)]] by (auto simp: set_all_matches)
    then show ?thesis using cell_matches_index[OF i(2)] by (auto simp: cell_matches_def split: if_splits)
  qed
  have cell: "length (cell_matches rx selected opts ic) \<le> 250" for ic
    using findMatchesInText_cap by (simp add: cell_matches_def Let_def PER_CELL_MATCH_CAP_def)
  have "sum_list (map (\<lambda>ic. length (cell_matches rx selected opts ic)) ics) \<le> 250 * length ics" for ics
    by (induction ics) (auto simp: add_mono cell)
  from this[of "zip [0..<length cs] cs"] have "total r \<le> 250 * length cs"
    by (simp add: r all_matches_def length_concat comp_def)
  then show ?thesis using r sorted mem by (auto simp: MAX_DISPLAYED_MATCHES_def)
qed

definition demo_cells :: "search_cell list" where
  "demo_cells =
     [\<lparr>sc_metadata = JNull, sc_uri = ''u0'', sc_source = ''baa.aab'', sc_outputs = []\<rparr>,
      \<lparr>sc_metadata = JNull, sc_uri = ''u1'', sc_source = ''none'', sc_outputs = [[(''text/plain'', ''AA.aa.'')]]\<rparr>]"

theorem search_results_account_witness:
  "total (findMatches (\<lambda>_ _. Inl ''no engine'') (Some demo_cells) {} demo_options) \<le> 500"
proof -
  have d: "\<not> regex demo_options" "query demo_options \<noteq> []" by (simp_all add: demo_options_def)
  show ?thesis
    using search_results_account[OF buildSearchRegex_plain[OF d] refl, of "\<lambda>_ _. Inl ''no engine''" demo_cells "{}"]
    by (simp add: demo_cells_def)
qed

text \<open>C23. Plain search over the notebook: when the results are not truncated, a cell is listed exactly
  when it is in scope and its searchable text contains the query.\<close>

theorem plain_search_finds_cells:
  assumes "\<not> regex opts" "query opts \<noteq> []" "i < length cs"
    and "\<not> truncated (findMatches engine (Some cs) selected opts)"
  shows "i \<in> cellIndex ` set (matches (findMatches engine (Some cs) selected opts)) \<longleftrightarrow>
    (scope opts = Scope_selected \<longrightarrow> i \<in> selected)
    \<and> (\<exists>p. occurs_at opts (getSearchableText (cs ! i) (scope opts)) p)"
proof -
  let ?rx = "token_matcher (\<not> caseSensitive opts) (plain_tokens opts)"
  let ?t = "getSearchableText (cs ! i) (scope opts)"
  have b: "buildSearchRegex engine opts = Some (Inr ?rx)" by (rule buildSearchRegex_plain[OF assms(1,2)])
  have ms: "matches (findMatches engine (Some cs) selected opts) = all_matches ?rx selected opts cs"
    using findMatches_compiled[OF b] assms(4) by (simp add: Let_def)
  have "i \<in> cellIndex ` set (all_matches ?rx selected opts cs) \<longleftrightarrow> cell_matches ?rx selected opts (i, cs ! i) \<noteq> []"
  proof
    assume "i \<in> cellIndex ` set (all_matches ?rx selected opts cs)"
    then obtain j m where jm: "m \<in> set (cell_matches ?rx selected opts (j, cs ! j))" "i = cellIndex m"
      by (auto simp: set_all_matches)
    then have "i = j" using cell_matches_index[OF jm(1)] by simp
    then show "cell_matches ?rx selected opts (i, cs ! i) \<noteq> []" using jm(1) by auto
  next
    assume "cell_matches ?rx selected opts (i, cs ! i) \<noteq> []"
    then obtain m where m: "m \<in> set (cell_matches ?rx selected opts (i, cs ! i))" by (metis hd_in_set)
    then show "i \<in> cellIndex ` set (all_matches ?rx selected opts cs)"
      using assms(3) cell_matches_index[OF m] by (force simp: set_all_matches)
  qed
  moreover have "scan_matches ?rx ?t 0 PER_CELL_MATCH_CAP \<noteq> [] \<longleftrightarrow> (\<exists>p. occurs_at opts ?t p)"
  proof
    assume "scan_matches ?rx ?t 0 PER_CELL_MATCH_CAP \<noteq> []"
    then obtain s e where "(s, e) \<in> set (scan_matches ?rx ?t 0 PER_CELL_MATCH_CAP)" by (cases "scan_matches ?rx ?t 0 PER_CELL_MATCH_CAP") auto
    then show "\<exists>p. occurs_at opts ?t p"
      using scan_sound tm.scan_bounds match_plain[of s ?t opts] by (fastforce split: if_splits)
  next
    assume "\<exists>p. occurs_at opts ?t p"
    then obtain p where p: "occurs_at opts ?t p" "p \<le> length ?t" by (auto simp: occurs_at_def Let_def)
    then have "match_tokens (\<not> caseSensitive opts) ?t (plain_tokens opts) p \<noteq> None" using match_plain by simp
    then show "scan_matches ?rx ?t 0 PER_CELL_MATCH_CAP \<noteq> []"
      using scan_complete[of "\<not> caseSensitive opts" ?t "plain_tokens opts" p 0 PER_CELL_MATCH_CAP] p(2)
      by (auto simp: PER_CELL_MATCH_CAP_def)
  qed
  moreover have "\<not> occurs_at opts [] p" for p using assms(2) by (simp add: occurs_at_def Let_def)
  ultimately show ?thesis unfolding ms by (auto simp: cell_matches_def findMatchesInText_def Let_def)
qed


theorem plain_search_finds_cells_witness:
  "1 \<in> cellIndex ` set (matches (findMatches (\<lambda>_ _. Inl ''no engine'') (Some demo_cells) {} demo_options))"
proof -
  let ?e = "\<lambda>_ _. Inl ''no engine''"
  have d: "\<not> regex demo_options" "query demo_options \<noteq> []" by (simp_all add: demo_options_def)
  have t: "\<not> truncated (findMatches ?e (Some demo_cells) {} demo_options)"
    by code_simp
  have o: "occurs_at demo_options (getSearchableText (demo_cells ! 1) (scope demo_options)) 5" by code_simp
  show ?thesis using plain_search_finds_cells[OF d _ t, of 1] o by (auto simp: demo_cells_def demo_options_def)
qed

subsection \<open>Snippets\<close>

lemma collapse_length: "0 < k \<Longrightarrow> length (collapse P k s) \<le> length s"
proof (induction P k s rule: collapse.induct)
  case (2 P k c s)
  show ?case
  proof (cases "P c")
    case True
    have "length s = length (takeWhile P s) + length (dropWhile P s)"
      by (metis length_append takeWhile_dropWhile_id)
    then show ?thesis using 2 True by (auto simp: Let_def)
  qed (use 2 in auto)
qed simp

lemma one_line_length: "length (one_line s) \<le> length s"
  unfolding one_line_def by (rule order_trans[OF collapse_length collapse_length]) simp_all

lemma indexOf_from_Some:
  assumes "indexOf_from s p i = Some k" "p \<noteq> []"
  shows "i \<le> k \<and> prefix p (drop k s) \<and> k + length p \<le> length s"
  using assms by (auto simp: indexOf_from_def find_upt_Some dest!: prefix_length_le simp del: upt_Suc split: option.splits)

lemma prefix_take: "prefix p s \<Longrightarrow> take (length p) s = p"
  by (auto simp: prefix_def)

lemma indexOf_from_found:
  assumes "prefix p (drop k s)" "i \<le> k" "k \<le> length s"
  shows "\<exists>j. indexOf_from s p i = Some j \<and> j \<le> k \<and> prefix p (drop j s)"
proof -
  let ?f = "List.find (\<lambda>i. prefix p (drop i s)) [i..<Suc (length s)]"
  have "?f \<noteq> None" using assms unfolding find_upt_None by (metis le_imp_less_Suc)
  then obtain j where j: "?f = Some j" by blast
  then have "\<forall>m. i \<le> m \<and> m < j \<longrightarrow> \<not> prefix p (drop m s)" "prefix p (drop j s)"
    unfolding find_upt_Some by auto
  then show ?thesis using assms j by (auto simp: indexOf_from_def not_less[symmetric] simp del: upt_Suc)
qed

text \<open>Snippets: the highlighted range ends inside the snippet and the snippet is at most the match
  and forty characters on each side; where the window has no whitespace to compress, the snippet is
  the window and the highlighted characters are the match.\<close>

theorem snippet_highlight:
  assumes "s < e" "e \<le> length t" "m = extractSnippet t s e"
  shows "rm_end m \<le> length (rm_snippet m) \<and> length (rm_snippet m) \<le> (e - s) + 80
    \<and> (let w = slice t (s - 40) (min (length t) (e + 40)) in
        one_line w = w \<longrightarrow> rm_snippet m = w \<and> slice (rm_snippet m) (rm_start m) (rm_end m) = slice t s e)"
proof -
  let ?w = "slice t (s - 40) (min (length t) (e + 40))"
  let ?k = "s - (s - 40)"
  let ?mt = "slice t s e"
  have len: "length ?mt = e - s" and ne: "?mt \<noteq> []" using assms by (auto simp: slice_def)
  have "length ?w \<le> (e - s) + 80" using assms by (auto simp: slice_def)
  then have b: "length (one_line ?w) \<le> (e - s) + 80" using one_line_length[of ?w] by simp
  have p: "prefix ?mt (drop ?k ?w)" and k: "?k \<le> length ?w"
  proof -
    have "drop ?k ?w = take (min (length t) (e + 40) - s) (drop s t)"
      using assms by (simp add: slice_def drop_take)
    moreover have "?mt = take (e - s) (take (min (length t) (e + 40) - s) (drop s t))"
      using assms by (simp add: slice_def min_def)
    ultimately show "prefix ?mt (drop ?k ?w)" by (metis take_is_prefix)
    show "?k \<le> length ?w" using assms by (simp add: slice_def)
  qed
  show ?thesis
  proof (cases "indexOf_from (one_line ?w) ?mt (?k - 4)")
    case None
    then have "one_line ?w \<noteq> ?w" using indexOf_from_found[OF p diff_le_self k, of 4] by auto
    then show ?thesis using None b assms(3) by (simp add: extractSnippet_def SNIPPET_HALF_WIDTH_def Let_def)
  next
    case (Some j)
    have j: "prefix ?mt (drop j (one_line ?w))" "j + length ?mt \<le> length (one_line ?w)"
      using indexOf_from_Some[OF Some ne] by auto
    have m: "m = \<lparr>rm_snippet = one_line ?w, rm_start = j, rm_end = j + length ?mt\<rparr>"
      using Some assms(3) by (simp add: extractSnippet_def SNIPPET_HALF_WIDTH_def Let_def)
    have "slice (one_line ?w) j (j + length ?mt) = ?mt" using prefix_take[OF j(1)] by (simp add: slice_def)
    then show ?thesis using j b m by (simp add: Let_def)
  qed
qed

theorem snippet_highlight_witness:
  "slice (rm_snippet (extractSnippet ''to be or not'' 6 8)) (rm_start (extractSnippet ''to be or not'' 6 8))
     (rm_end (extractSnippet ''to be or not'' 6 8)) = ''or''"
proof -
  have "one_line ''to be or not'' = ''to be or not''" by code_simp
  then show ?thesis using snippet_highlight[OF _ _ refl, of 6 8 "''to be or not''"]
    by (auto simp: slice_def[of "''to be or not''"] Let_def)
qed

text \<open>Compression moves the match to the left; the search for it starts at most four characters before
  its old place, so after five characters lost the highlight marks other text or, past the end of the
  snippet, an empty range whose start exceeds its end.\<close>

lemma snippet_shifted:
  "let m = extractSnippet (replicate 12 LF @ ''hit'') 12 15 in
   rm_snippet m = '' hit'' \<and> rm_start m = 12 \<and> rm_end m = 4"
  by code_simp

text \<open>With whole words, the pattern of a regular-expression search is not grouped: the boundaries
  bind to the first and the last alternative only.\<close>

lemma whole_word_not_grouped:
  "wholeWord opts \<Longrightarrow> regex opts \<Longrightarrow> query opts = ''cat|dog'' \<Longrightarrow>
   buildSearchRegex engine opts =
     Some (case engine (BOUNDARY @ ''cat|dog'' @ BOUNDARY) (\<not> caseSensitive opts) of
             Inr rx \<Rightarrow> Inr rx | Inl msg \<Rightarrow> Inl (''search_regex_invalid: '' @ msg))"
  by (simp add: buildSearchRegex_def new_RegExp_def BOUNDARY_def REGEX_META_def)

subsection \<open>The view follows the notebook\<close>

text \<open>A change queues a run exactly when the view is open and a query was typed; the run posts the
  results of the latest query over the editor of that moment.\<close>

lemma queued_run_posts_latest:
  assumes "sp_view st" "sp_lastOptions st = Some opts" "query opts \<noteq> []" "sp_queued st = 0"
  shows "snd (run_microtask engine ty editor (on_search_event ty (Document_changed ty) st))
    = [Post_results (snd (runSearch engine ty editor opts st))]"
  using assms by (simp add: run_microtask_def on_search_event_def runIfReady_def postResults_def runSearch_def
      split: prod.splits)

lemma closed_view_silent:
  "\<not> sp_view st \<Longrightarrow> on_search_event ty ev st = st \<and> postResults engine ty editor opts st = []"
  by (auto simp: on_search_event_def runIfReady_def postResults_def split: search_event.splits option.splits)

end
