(* ===== verification/Search_View.thy ===== *)
theory Search_View
  imports Cell_Search Html_Text
begin

section \<open>The search view (\<open>extension/src/sidebar/search/search-view-renderer.ts\<close>)\<close>

text \<open>
  The webview side of the sidebar search: the toolbar state, the debounce of search requests, the
  result list with its active match, and what \<open>render\<close> writes into the page. The events of the page
  are the inputs of \<open>view_step\<close>; timers are named by numbers.
\<close>

subsection \<open>State\<close>

record search_view =
  sv_query :: string
  sv_scope :: search_scope
  sv_case :: bool
  sv_word :: bool
  sv_regex :: bool
  sv_matches :: "search_match list"
  sv_active :: nat
  sv_total :: nat
  sv_truncated :: bool
  sv_error :: "string option"
  debounceTimer :: "nat option"
  next_timer :: nat

datatype view_effect =
    Post_search search_options
  | Post_navigate string
  | Post_ready
  | Start_timer nat
  | Stop_timer nat

datatype view_input =
    Toggle_case | Toggle_word | Toggle_regex
  | Change_scope search_scope
  | Type_query string
  | Press_enter bool
  | Press_escape
  | Click_prev | Click_next
  | Click_match nat
  | Results_in search_results
  | Timer_fires nat

definition initial_view :: search_view where
  "initial_view =
     \<lparr>sv_query = [], sv_scope = Scope_all, sv_case = False, sv_word = False, sv_regex = False, sv_matches = [],
      sv_active = 0, sv_total = 0, sv_truncated = False, sv_error = None, debounceTimer = None, next_timer = 0\<rparr>"

definition readOptions :: "search_view \<Rightarrow> search_options" where
  "readOptions v = \<lparr>query = sv_query v, caseSensitive = sv_case v, wholeWord = sv_word v, regex = sv_regex v, scope = sv_scope v\<rparr>"

definition postSearch :: "search_view \<Rightarrow> search_view \<times> view_effect list" where
  "postSearch v =
     (v\<lparr>debounceTimer := Some (next_timer v), next_timer := Suc (next_timer v)\<rparr>,
      (case debounceTimer v of Some t \<Rightarrow> [Stop_timer t] | None \<Rightarrow> []) @ [Start_timer (next_timer v)])"

definition revealActive :: "search_view \<Rightarrow> view_effect list" where
  "revealActive v = (if sv_active v < length (sv_matches v) then [Post_navigate (cellId (sv_matches v ! sv_active v))] else [])"

text \<open>The remainder of JavaScript has the sign of the dividend.\<close>

definition js_rem :: "int \<Rightarrow> int \<Rightarrow> int" where
  "js_rem a b = (if a < 0 then - ((- a) mod b) else a mod b)"

definition navigateBy :: "int \<Rightarrow> search_view \<Rightarrow> search_view \<times> view_effect list" where
  "navigateBy delta v =
     (if length (sv_matches v) = 0 then (v, [])
      else let n = int (length (sv_matches v));
               v' = v\<lparr>sv_active := nat (js_rem (js_rem (int (sv_active v) + delta) n + n) n)\<rparr>
           in (v', revealActive v'))"

definition view_step :: "view_input \<Rightarrow> search_view \<Rightarrow> search_view \<times> view_effect list" where
  "view_step i v =
     (case i of
        Toggle_case \<Rightarrow> postSearch (v\<lparr>sv_case := \<not> sv_case v\<rparr>)
      | Toggle_word \<Rightarrow> postSearch (v\<lparr>sv_word := \<not> sv_word v\<rparr>)
      | Toggle_regex \<Rightarrow> postSearch (v\<lparr>sv_regex := \<not> sv_regex v\<rparr>)
      | Change_scope s \<Rightarrow> postSearch (v\<lparr>sv_scope := s\<rparr>)
      | Type_query q \<Rightarrow> postSearch (v\<lparr>sv_query := q\<rparr>)
      | Press_enter shift \<Rightarrow> navigateBy (if shift then -1 else 1) v
      | Press_escape \<Rightarrow> postSearch (v\<lparr>sv_query := []\<rparr>)
      | Click_prev \<Rightarrow> navigateBy (-1) v
      | Click_next \<Rightarrow> navigateBy 1 v
      | Click_match k \<Rightarrow> (let v' = v\<lparr>sv_active := k\<rparr> in (v', revealActive v'))
      | Results_in r \<Rightarrow>
          (v\<lparr>sv_matches := matches r, sv_total := total r, sv_truncated := truncated r, sv_error := search_error r,
             sv_active := 0\<rparr>, [])
      | Timer_fires t \<Rightarrow> (v\<lparr>debounceTimer := None\<rparr>, [Post_search (readOptions v)]))"

subsection \<open>Rendering\<close>

fun scope_text :: "search_scope \<Rightarrow> string" where
  "scope_text Scope_all = ''all''"
| "scope_text Scope_inputs = ''inputs''"
| "scope_text Scope_outputs = ''outputs''"
| "scope_text Scope_tool_calls = ''tool_calls''"
| "scope_text Scope_selected = ''selected''"

definition renderSnippet :: "raw_match \<Rightarrow> string" where
  "renderSnippet m =
     escapeHtml (take (rm_start m) (rm_snippet m)) @ ''<mark>'' @ escapeHtml (slice (rm_snippet m) (rm_start m) (rm_end m)) @
     ''</mark>'' @ escapeHtml (drop (rm_end m) (rm_snippet m))"

definition match_html :: "search_match \<Rightarrow> string" where
  \<open>match_html m =
     ''<span class="cell-label">#'' @ show_nat (cellIndex m + 1) @ '' '' @ [CHR 0xB7] @ '' '' @ escapeHtml (scope_text (match_scope m)) @
     ''</span>'' @ renderSnippet (match_raw m)\<close>

record rendered_view =
  input_error :: bool
  input_title :: string
  counter_text :: string
  arrows_enabled :: bool
  result_rows :: "(bool \<times> string) list"
  empty_row :: bool
  footer_text :: "string option"

definition render_view :: "search_view \<Rightarrow> rendered_view" where
  "render_view v =
     (let err = (case sv_error v of Some e \<Rightarrow> e \<noteq> [] | None \<Rightarrow> False) in
      \<lparr>input_error = err,
       input_title = (if err then the (sv_error v) else []),
       counter_text =
         (if err then ''Invalid pattern''
          else if sv_total v = 0 then (if 0 < length (sv_query v) then ''No matches'' else ''No results'')
          else show_nat (sv_active v + 1) @ '' of '' @ show_nat (sv_total v)),
       arrows_enabled = (length (sv_matches v) \<noteq> 0),
       result_rows = map (\<lambda>(i, m). (i = sv_active v, match_html m)) (zip [0..<length (sv_matches v)] (sv_matches v)),
       empty_row = (length (sv_matches v) = 0 \<and> \<not> err \<and> 0 < length (sv_query v)),
       footer_text =
         (if sv_truncated v then Some (''Showing '' @ show_nat (length (sv_matches v)) @ '' of '' @ show_nat (sv_total v) @
            '' matches. Refine the query to see the rest.'') else None)\<rparr>)"

subsection \<open>Histories\<close>

text \<open>A history of the page: a row can be clicked when it is shown, and a timer fires when it is alive,
  that is, when it was started by an effect and neither stopped by one nor fired. The second argument
  collects the effects, the third the timers alive.\<close>

definition view_timers :: "view_effect list \<Rightarrow> nat list \<Rightarrow> nat list" where
  "view_timers es ts = fold (\<lambda>e ts. case e of Start_timer t \<Rightarrow> t # ts | Stop_timer t \<Rightarrow> remove1 t ts | _ \<Rightarrow> ts) es ts"

inductive view_run :: "search_view \<Rightarrow> view_effect list \<Rightarrow> nat list \<Rightarrow> bool" where
  start: "view_run initial_view [Post_ready] []"
| event: "\<lbrakk>view_run v es ts; case i of Click_match k \<Rightarrow> k < length (sv_matches v) | Timer_fires t \<Rightarrow> t \<in> set ts | _ \<Rightarrow> True;
     view_step i v = (v', fs); ts' = view_timers fs (case i of Timer_fires t \<Rightarrow> remove1 t ts | _ \<Rightarrow> ts)\<rbrakk> \<Longrightarrow>
     view_run v' (es @ fs) ts'"

definition view_inv :: "search_view \<Rightarrow> bool" where
  "view_inv v \<longleftrightarrow> (sv_matches v = [] \<and> sv_active v = 0 \<or> sv_active v < length (sv_matches v))
     \<and> (case debounceTimer v of Some t \<Rightarrow> t < next_timer v | None \<Rightarrow> True)"

definition own_timer :: "search_view \<Rightarrow> nat list" where
  "own_timer v = (case debounceTimer v of None \<Rightarrow> [] | Some t \<Rightarrow> [t])"

lemma js_rem_wrap: "0 < n \<Longrightarrow> js_rem (js_rem a n + n) n = a mod n"
proof -
  assume n: "0 < n"
  have m: "0 \<le> a mod n" "a mod n < n" "0 \<le> (- a) mod n" "(- a) mod n < n" using n by simp_all
  then have b: "- n < js_rem a n" "js_rem a n < n" using n unfolding js_rem_def by (cases "a < 0"; simp only: if_True if_False; linarith)+
  then have "js_rem (js_rem a n + n) n = (js_rem a n + n) mod n" by (simp add: js_rem_def[of "js_rem a n + n"])
  also have "\<dots> = a mod n" by (simp add: js_rem_def mod_minus_eq)
  finally show ?thesis .
qed

lemma navigate_mod: "0 < n \<Longrightarrow> nat ((int a + d) mod int n) < n"
  by (simp add: nat_less_iff)

lemma navigateBy_simps:
  "sv_matches v \<noteq> [] \<Longrightarrow>
   navigateBy d v = (let v' = v\<lparr>sv_active := nat ((int (sv_active v) + d) mod int (length (sv_matches v)))\<rparr> in (v', revealActive v'))"
  by (simp add: navigateBy_def js_rem_wrap Let_def)

lemma navigateBy_inv: "view_inv v \<Longrightarrow> view_inv (fst (navigateBy d v))"
proof (cases "sv_matches v = []")
  case False
  then show "view_inv v \<Longrightarrow> ?thesis"
    using navigate_mod[of "length (sv_matches v)" "sv_active v" d] by (simp add: navigateBy_simps view_inv_def Let_def split: option.splits)
qed (simp add: navigateBy_def)

lemma view_step_inv:
  assumes "view_inv v" "case i of Click_match k \<Rightarrow> k < length (sv_matches v) | _ \<Rightarrow> True"
  shows "view_inv (fst (view_step i v))"
  using assms navigateBy_inv[OF assms(1)]
  by (cases i) (auto simp: view_step_def view_inv_def postSearch_def Let_def split: option.splits)

lemma view_timers_simps [simp]:
  "view_timers [] ts = ts" "view_timers (Start_timer t # es) ts = view_timers es (t # ts)"
  "view_timers (Stop_timer t # es) ts = view_timers es (remove1 t ts)" "view_timers (Post_search p # es) ts = view_timers es ts"
  "view_timers (Post_navigate c # es) ts = view_timers es ts" "view_timers (Post_ready # es) ts = view_timers es ts"
  by (simp_all add: view_timers_def)

lemma navigate_timers:
  "debounceTimer (fst (navigateBy d v)) = debounceTimer v" "view_timers (snd (navigateBy d v)) ts = ts"
  by (simp_all add: navigateBy_def own_timer_def revealActive_def Let_def)

lemma view_step_timers:
  assumes "case i of Timer_fires t \<Rightarrow> t \<in> set (own_timer v) | _ \<Rightarrow> True"
  shows "view_timers (snd (view_step i v)) (case i of Timer_fires t \<Rightarrow> remove1 t (own_timer v) | _ \<Rightarrow> own_timer v) =
    own_timer (fst (view_step i v))"
  using assms
  by (cases i; cases "debounceTimer v")
    (simp_all add: view_step_def postSearch_def navigate_timers own_timer_def revealActive_def Let_def)

lemma view_run_inv: "view_run v es ts \<Longrightarrow> view_inv v \<and> ts = own_timer v"
proof (induction rule: view_run.induct)
  case start
  show ?case by (simp add: view_inv_def own_timer_def initial_view_def)
next
  case (event v es ts i v' fs ts')
  then have "view_inv v'" using view_step_inv[where i = i and v = v] by (cases i) simp_all
  moreover have "ts' = own_timer v'"
    using event view_step_timers[where i = i and v = v] by (cases i) simp_all
  ultimately show ?case ..
qed

text \<open>The active match: in every history of the view the active index designates a match whenever
  there are any, so the counter never exceeds the list and every navigation reveals a cell; stepping
  forward once per match comes back to the same one, and backward undoes forward.\<close>

theorem active_match_valid:
  assumes "view_run v es ts" "sv_matches v \<noteq> []"
  shows "sv_active v < length (sv_matches v)
    \<and> snd (navigateBy d v) = [Post_navigate (cellId (sv_matches v ! nat ((int (sv_active v) + d) mod int (length (sv_matches v)))))]
    \<and> fst (navigateBy (- d) (fst (navigateBy d v))) = v
    \<and> fst (navigateBy (int (length (sv_matches v))) v) = v"
proof -
  let ?n = "length (sv_matches v)"
  have a: "sv_active v < ?n" using view_run_inv[OF assms(1)] assms(2) by (auto simp: view_inv_def)
  have n: "0 < ?n" using assms(2) by simp
  have "snd (navigateBy d v) = [Post_navigate (cellId (sv_matches v ! nat ((int (sv_active v) + d) mod int ?n)))]"
    using navigate_mod[OF n] assms(2) by (simp add: navigateBy_simps revealActive_def Let_def)
  moreover have "(int (nat ((int (sv_active v) + d) mod int ?n)) + - d) mod int ?n = int (sv_active v)"
    using a n by (simp add: mod_simps)
  then have "fst (navigateBy (- d) (fst (navigateBy d v))) = v"
    using assms(2) by (simp add: navigateBy_simps Let_def)
  moreover have "fst (navigateBy (int ?n) v) = v" using assms(2) a by (simp add: navigateBy_simps Let_def)
  ultimately show ?thesis using a by blast
qed

definition demo_match :: "string \<Rightarrow> search_match" where
  "demo_match c = \<lparr>cellIndex = 0, cellId = c, match_scope = Scope_all, match_raw = \<lparr>rm_snippet = ''ab'', rm_start = 0, rm_end = 1\<rparr>\<rparr>"

definition demo_results :: search_results where
  "demo_results = \<lparr>matches = [demo_match ''c1'', demo_match ''c2''], total = 2, truncated = False, search_error = None\<rparr>"

definition demo_view :: search_view where
  "demo_view = fst (view_step (Results_in demo_results) initial_view)"

lemma demo_view_run: "view_run demo_view [Post_ready] []"
  using view_run.event[OF view_run.start, of "Results_in demo_results" demo_view "[]"]
  by (simp add: demo_view_def view_step_def)

theorem active_match_valid_witness: "snd (navigateBy (-1) demo_view) = [Post_navigate ''c2'']"
proof -
  have ne: "sv_matches demo_view \<noteq> []" by (simp add: demo_view_def view_step_def demo_results_def)
  have "nat ((int (sv_active demo_view) + -1) mod int (length (sv_matches demo_view))) = 1" by code_simp
  moreover have "cellId (sv_matches demo_view ! 1) = ''c2''" by code_simp
  ultimately show ?thesis using active_match_valid[OF demo_view_run ne, of "-1"] by simp
qed

subsection \<open>Search requests\<close>

definition searches :: "view_effect list \<Rightarrow> search_options list" where
  "searches es = concat (map (\<lambda>e. case e of Post_search o' \<Rightarrow> [o'] | _ \<Rightarrow> []) es)"

definition requests_current :: "search_view \<Rightarrow> view_effect list \<Rightarrow> bool" where
  "requests_current v es \<longleftrightarrow>
     debounceTimer v \<noteq> None \<or> last (readOptions initial_view # searches es) = readOptions v"

lemma searches_simps [simp]:
  "searches [] = []" "searches (Post_search p # es) = p # searches es" "searches (Post_navigate c # es) = searches es"
  "searches (Post_ready # es) = searches es" "searches (Start_timer t # es) = searches es"
  "searches (Stop_timer t # es) = searches es" "searches (es @ fs) = searches es @ searches fs"
  by (simp_all add: searches_def)

lemma navigate_keeps:
  "readOptions (fst (navigateBy d v)) = readOptions v" "debounceTimer (fst (navigateBy d v)) = debounceTimer v"
  "searches (snd (navigateBy d v)) = []"
  by (simp_all add: navigateBy_def readOptions_def revealActive_def Let_def)

lemma view_step_requests:
  assumes "requests_current v es" "view_step i v = (v', fs)"
  shows "requests_current v' (es @ fs)"
proof (cases i)
  case (Press_enter b)
  then show ?thesis using assms navigate_keeps[of "if b then -1 else 1" v]
    by (simp add: view_step_def requests_current_def)
next
  case Click_prev
  then show ?thesis using assms navigate_keeps[of "-1" v] by (simp add: view_step_def requests_current_def)
next
  case Click_next
  then show ?thesis using assms navigate_keeps[of 1 v] by (simp add: view_step_def requests_current_def)
next
  case (Click_match k)
  then show ?thesis using assms
    by (auto simp: view_step_def requests_current_def readOptions_def revealActive_def Let_def)
qed (use assms in \<open>auto simp: view_step_def requests_current_def postSearch_def readOptions_def split: option.splits\<close>)

text \<open>C24. Search requests are not lost: in every history of the view at most one debounce timer is
  alive, counting the timers started and not stopped or fired. When one is, its callback posts the
  options the toolbar then shows, and leaves no timer; when none is, the last request posted
  (initially the empty one) has exactly the options the toolbar shows.\<close>

theorem search_requests_not_lost:
  assumes "view_run v es ts"
  shows "length ts \<le> 1
    \<and> (ts = [] \<longrightarrow> last (readOptions initial_view # searches es) = readOptions v)
    \<and> (\<forall>t \<in> set ts. snd (view_step (Timer_fires t) v) = [Post_search (readOptions v)] \<and>
          view_run (fst (view_step (Timer_fires t) v)) (es @ [Post_search (readOptions v)]) [])"
proof -
  have "requests_current v es" using assms
  proof (induction rule: view_run.induct)
    case start
    show ?case by (simp add: requests_current_def)
  next
    case (event v es ts i v' fs ts')
    then show ?case by (blast intro: view_step_requests)
  qed
  moreover have "ts = own_timer v" using view_run_inv[OF assms] by blast
  moreover have "view_run (fst (view_step (Timer_fires t) v)) (es @ [Post_search (readOptions v)]) []" if "ts = [t]" for t
    by (rule view_run.event[OF assms, where i = "Timer_fires t"]) (simp_all add: that view_step_def)
  ultimately show ?thesis
    by (auto simp: requests_current_def view_step_def own_timer_def split: option.splits)
qed

text \<open>Typing a query starts a timer; when it fires, the query is posted.\<close>

theorem search_requests_not_lost_witness:
  "\<exists>v es t. view_run v es [t] \<and> sv_query v = ''ab'' \<and> snd (view_step (Timer_fires t) v) = [Post_search (readOptions v)]"
proof -
  let ?v = "fst (view_step (Type_query ''ab'') initial_view)"
  have run: "view_run ?v ([Post_ready] @ [Start_timer 0]) [0]"
    by (rule view_run.event[OF view_run.start, where i = "Type_query ''ab''"]) (simp_all add: view_step_def postSearch_def initial_view_def)
  have "sv_query ?v = ''ab''" by (simp add: view_step_def postSearch_def)
  with search_requests_not_lost[OF run] run show ?thesis by auto
qed

subsection \<open>Markup\<close>

lemma show_nat_no_markup: "CHR ''<'' \<notin> set (show_nat n)"
  using show_nat_digits[of n] by (auto simp: list_all_iff is_digit_def)

lemma match_html_ok: "html_ok (match_html m)"
  by (simp add: match_html_def renderSnippet_def html_ok_def html_eval html_check_text show_nat_no_markup del: append_Cons cong: bind_cong_weak)

lemma result_rows_ok: "(b, h) \<in> set (result_rows (render_view v)) \<Longrightarrow> html_ok h"
  by (auto simp: render_view_def Let_def match_html_ok)

lemma result_rows_active:
  "map fst (result_rows (render_view v)) = map (\<lambda>i. i = sv_active v) [0..<length (sv_matches v)]"
  by (rule nth_equalityI) (simp_all add: render_view_def Let_def)

end
