(* ===== verification/Reveal_Cell.thy ===== *)
theory Reveal_Cell
  imports Search_View
begin

section \<open>Revealing a cell (\<open>extension/src/notebook/commands/reveal-cell.ts\<close>)\<close>

text \<open>
  The command behind provenance chips, sidebar rows and search results. The editor is the list of its
  cells and its selection; whether the editor calls throw is an argument. The flash is undone by a
  timer, whose callback collapses the selection.
\<close>

definition FLASH_DURATION_MS :: nat where
  "FLASH_DURATION_MS = 1500"

definition getActiveNotebookEditor :: "string \<Rightarrow> notebook_editor option \<Rightarrow> notebook_editor option" where
  "getActiveNotebookEditor nbtype active =
     (case active of None \<Rightarrow> None | Some e \<Rightarrow> if ed_notebookType e \<noteq> nbtype then None else Some e)"

definition cell_ids :: "search_cell \<Rightarrow> string list" where
  "cell_ids c = candidateCellIds (sc_metadata c) (sc_uri c)"

fun find_cell_from :: "nat \<Rightarrow> string \<Rightarrow> search_cell list \<Rightarrow> nat option" where
  "find_cell_from i c [] = None"
| "find_cell_from i c (x # xs) = (if c \<in> set (cell_ids x) then Some i else find_cell_from (Suc i) c xs)"

definition findCellIndexByCellId :: "notebook_editor \<Rightarrow> string \<Rightarrow> nat option" where
  "findCellIndexByCellId e c = (if length c = 0 then None else find_cell_from 0 c (ed_cells e))"

datatype reveal_effect =
    Reveal_range nat nat
  | Set_selection nat nat
  | Schedule_fade nat nat
  | Reveal_warn string

definition reveal_arg :: "jsv \<Rightarrow> string" where
  "reveal_arg args =
     (case strField args ''cellId'' of
        Some c \<Rightarrow> c
      | None \<Rightarrow> (case strField args ''cell_id'' of Some c \<Rightarrow> c | None \<Rightarrow> []))"

definition runRevealCellCommand ::
  "jsv \<Rightarrow> notebook_editor option \<Rightarrow> string option \<Rightarrow> string option \<Rightarrow> bool \<times> reveal_effect list" where
  "runRevealCellCommand args editor reveal_throws select_throws =
     (let c = reveal_arg args in
      if length c = 0 then (False, [Reveal_warn ''[llmnb.revealCell] missing cellId; ignoring invocation''])
      else case editor of
        None \<Rightarrow> (False, [Reveal_warn ''[llmnb.revealCell] no active llmnb notebook editor; ignoring''])
      | Some e \<Rightarrow>
          (case findCellIndexByCellId e c of
             None \<Rightarrow> (False, [Reveal_warn (''[llmnb.revealCell] cellId not found in active notebook: '' @ c)])
           | Some i \<Rightarrow>
               (True,
                (case reveal_throws of
                   None \<Rightarrow> [Reveal_range i (i + 1)]
                 | Some m \<Rightarrow> [Reveal_warn (''[llmnb.revealCell] revealRange threw: '' @ m)]) @
                (case select_throws of
                   None \<Rightarrow> [Set_selection i (i + 1)]
                 | Some m \<Rightarrow> [Reveal_warn (''[llmnb.revealCell] setting selection threw: '' @ m)]) @
                [Schedule_fade FLASH_DURATION_MS i])))"

text \<open>The timer callback.\<close>

definition fade_out :: "nat \<Rightarrow> reveal_effect list" where
  "fade_out i = [Set_selection i i]"

text \<open>\<open>CommandNavigateRunner.reveal\<close>.\<close>

definition navigate_args :: "string \<Rightarrow> jsv" where
  "navigate_args c = JObj [(''cell_id'', JStr c)]"

subsection \<open>Lemmas\<close>

lemma find_cell_from_Some:
  "find_cell_from k c cs = Some i \<longleftrightarrow>
     k \<le> i \<and> i - k < length cs \<and> c \<in> set (cell_ids (cs ! (i - k))) \<and> (\<forall>j<i - k. c \<notin> set (cell_ids (cs ! j)))"
proof (induction cs arbitrary: k)
  case (Cons x xs)
  show ?case
  proof (cases "c \<in> set (cell_ids x)")
    case True
    then show ?thesis by (cases "i = k") (auto intro!: exI[of _ 0])
  next
    case False
    show ?thesis
    proof (cases "k < i")
      case True
      then obtain d where d: "i = Suc (k + d)" using less_iff_Suc_add by auto
      have "(\<forall>j<Suc d. c \<notin> set (cell_ids ((x # xs) ! j))) \<longleftrightarrow> (\<forall>j<d. c \<notin> set (cell_ids (xs ! j)))"
        using False by (auto simp: less_Suc_eq_0_disj)
      then show ?thesis using False Cons[of "Suc k"] d by simp
    next
      case le: False
      then show ?thesis using False Cons[of "Suc k"] by (auto simp: nth_Cons')
    qed
  qed
qed simp

lemma primaryCellId_in: "primaryCellId c \<in> set (cell_ids c)"
  unfolding primaryCellId_def cell_ids_def by (rule hd_in_set) (simp add: candidateCellIds_def)

lemma cell_ids_nonempty: "sc_uri c \<noteq> [] \<Longrightarrow> x \<in> set (cell_ids c) \<Longrightarrow> x \<noteq> []"
  by (auto simp: cell_ids_def candidateCellIds_def strField_def split: option.splits jsv.splits if_splits)

lemma all_matches_cell:
  "m \<in> set (all_matches rx sel opts cs) \<Longrightarrow> cellIndex m < length cs \<and> cellId m = primaryCellId (cs ! cellIndex m)"
  by (auto simp: set_all_matches cell_matches_def Let_def split: if_splits)

text \<open>C37. From a search result to its cell: the navigation message of a match found in the active
  notebook makes the provider run the reveal command, which finds a cell carrying the match's id, the
  cell of the match itself when no earlier cell carries that id, and scrolls to it and selects it.\<close>

theorem search_result_reveals_cell:
  assumes "getActiveNotebookEditor ty active = Some e" "list_all (\<lambda>c. sc_uri c \<noteq> []) (ed_cells e)"
    and "m \<in> set (matches (findMatches engine (fst (readActiveContext ty active)) (snd (readActiveContext ty active)) opts))"
  shows "\<exists>c j. snd (handleSearchMessage engine ty active (Msg_navigate (JStr (cellId m))) st) = [Reveal_cell c]
    \<and> runRevealCellCommand (navigate_args c) (getActiveNotebookEditor ty active) None None
        = (True, [Reveal_range j (j + 1), Set_selection j (j + 1), Schedule_fade 1500 j])
    \<and> j \<le> cellIndex m \<and> cellId m \<in> set (cell_ids (ed_cells e ! j))
    \<and> ((\<forall>i < cellIndex m. cellId m \<notin> set (cell_ids (ed_cells e ! i))) \<longrightarrow> j = cellIndex m)"
proof -
  let ?cs = "ed_cells e"
  have ctx: "fst (readActiveContext ty active) = Some ?cs"
    using assms(1) by (auto simp: getActiveNotebookEditor_def readActiveContext_def split: option.splits if_splits)
  obtain rx sel where "m \<in> set (all_matches rx sel opts ?cs)"
  proof -
    obtain rx where b: "buildSearchRegex engine opts = Some (Inr rx)"
      using assms(3) unfolding ctx by (auto simp: findMatches_def no_results_def split: option.splits sum.splits)
    have "m \<in> set (all_matches rx (snd (readActiveContext ty active)) opts ?cs)"
      using assms(3) in_set_takeD unfolding ctx findMatches_compiled[OF b] by (fastforce simp: Let_def)
    then show thesis by (rule that)
  qed
  then have m: "cellIndex m < length ?cs" "cellId m = primaryCellId (?cs ! cellIndex m)" using all_matches_cell by auto
  then have own: "cellId m \<in> set (cell_ids (?cs ! cellIndex m))" using primaryCellId_in by simp
  have ne: "cellId m \<noteq> []" using cell_ids_nonempty[OF _ own] assms(2) m(1) by (simp add: list_all_length)
  define j where "j = (LEAST i. cellId m \<in> set (cell_ids (?cs ! i)))"
  have j: "j \<le> cellIndex m" "cellId m \<in> set (cell_ids (?cs ! j))" "\<forall>i<j. cellId m \<notin> set (cell_ids (?cs ! i))"
    using own unfolding j_def by (auto intro: Least_le LeastI dest: not_less_Least)
  then have "findCellIndexByCellId e (cellId m) = Some j"
    using ne m(1) by (simp add: findCellIndexByCellId_def find_cell_from_Some)
  then have "runRevealCellCommand (navigate_args (cellId m)) (getActiveNotebookEditor ty active) None None
      = (True, [Reveal_range j (j + 1), Set_selection j (j + 1), Schedule_fade 1500 j])"
    using assms(1) ne by (simp add: runRevealCellCommand_def reveal_arg_def navigate_args_def strField_def js_get_def FLASH_DURATION_MS_def Let_def)
  moreover have "snd (handleSearchMessage engine ty active (Msg_navigate (JStr (cellId m))) st) = [Reveal_cell (cellId m)]"
    using ne by (simp add: handleSearchMessage_def)
  moreover have "j = cellIndex m" if "\<forall>i < cellIndex m. cellId m \<notin> set (cell_ids (?cs ! i))"
    using that j(1,2) by (meson le_neq_implies_less)
  ultimately show ?thesis using j(1,2) by blast
qed

definition demo_editor :: notebook_editor where
  "demo_editor = \<lparr>ed_notebookType = ''llmnb'', ed_cells = demo_cells, ed_selections = []\<rparr>"

definition no_engine :: "string \<Rightarrow> bool \<Rightarrow> string + matcher" where
  "no_engine p i = Inl ''no engine''"

theorem search_result_reveals_cell_witness:
  "\<exists>m c j. m \<in> set (matches (findMatches no_engine (Some demo_cells) {} demo_options))
     \<and> snd (runRevealCellCommand (navigate_args c) (Some demo_editor) None None) = [Reveal_range j (j + 1), Set_selection j (j + 1), Schedule_fade 1500 j]
     \<and> cellId m \<in> set (cell_ids (demo_cells ! j))"
proof -
  let ?st = "\<lparr>sp_view = True, sp_lastOptions = None, sp_queued = 0\<rparr>"
  have a: "getActiveNotebookEditor ''llmnb'' (Some demo_editor) = Some demo_editor"
    by (simp add: getActiveNotebookEditor_def demo_editor_def)
  have u: "list_all (\<lambda>c. sc_uri c \<noteq> []) (ed_cells demo_editor)" by (simp add: demo_editor_def demo_cells_def)
  have ctx: "readActiveContext ''llmnb'' (Some demo_editor) = (Some demo_cells, {})"
    by (simp add: readActiveContext_def demo_editor_def)
  have "matches (findMatches no_engine (Some demo_cells) {} demo_options) \<noteq> []" by code_simp
  then obtain m where m: "m \<in> set (matches (findMatches no_engine (Some demo_cells) {} demo_options))" by (metis hd_in_set)
  from m have "m \<in> set (matches (findMatches no_engine (fst (readActiveContext ''llmnb'' (Some demo_editor)))
      (snd (readActiveContext ''llmnb'' (Some demo_editor))) demo_options))" by (simp add: ctx)
  from search_result_reveals_cell[OF a u this, of ?st] obtain c j where
      "runRevealCellCommand (navigate_args c) (getActiveNotebookEditor ''llmnb'' (Some demo_editor)) None None
        = (True, [Reveal_range j (j + 1), Set_selection j (j + 1), Schedule_fade 1500 j])"
      "cellId m \<in> set (cell_ids (ed_cells demo_editor ! j))"
    by (elim exE conjE) rule
  moreover have "ed_cells demo_editor = demo_cells" by (simp add: demo_editor_def)
  ultimately show ?thesis using m a by (intro exI[of _ m] exI[of _ c] exI[of _ j]) simp
qed

text \<open>The fade of an earlier reveal fires after a later one has selected its cell, and moves the
  selection back to the cell revealed first.\<close>

fun selection_after :: "(nat \<times> nat) \<Rightarrow> reveal_effect list \<Rightarrow> nat \<times> nat" where
  "selection_after s [] = s"
| "selection_after s (Set_selection a b # es) = selection_after (a, b) es"
| "selection_after s (e # es) = selection_after s es"

lemma overlapping_reveals:
  assumes "findCellIndexByCellId e c1 = Some i" "findCellIndexByCellId e c2 = Some j"
  shows "selection_after s (snd (runRevealCellCommand (navigate_args c1) (Some e) None None)
      @ snd (runRevealCellCommand (navigate_args c2) (Some e) None None) @ fade_out i) = (i, i)"
proof -
  have "c1 \<noteq> []" "c2 \<noteq> []" using assms by (auto simp: findCellIndexByCellId_def)
  then show ?thesis using assms
    by (simp add: runRevealCellCommand_def reveal_arg_def navigate_args_def strField_def js_get_def fade_out_def Let_def)
qed

end
