(* ===== verification/Output_Lens.thy ===== *)
theory Output_Lens
  imports Reveal_Cell Agent_Decorations Sidebar_Trees
begin

section \<open>Output-kind lens (\<open>extension/src/sidebar/output-kind-lens\<close>)\<close>

text \<open>
  The tagged spans of a notebook's outputs (\<open>extractor.ts\<close>), their groups and the tree
  (\<open>lens-tree.ts\<close>, \<open>types.ts\<close>). Reading the attributes of a malformed span throws; a result \<open>None\<close> is
  such a \<open>TypeError\<close>, or the \<open>RangeError\<close> of \<open>toISOString\<close>. \<open>dots\<close> is the ellipsis character and
  \<open>other\<close> what \<open>Date.parse\<close> makes of texts outside its standard formats.
\<close>

subsection \<open>Output kinds\<close>

definition OUTPUT_KIND_ORDER :: "string list" where
  "OUTPUT_KIND_ORDER =
     [''decision'', ''question'', ''warning'', ''diagnostic'', ''plan'', ''patch'', ''diff'', ''test_result'',
      ''checkpoint'', ''code'', ''prose'', ''artifact_ref'']"

definition OTHER_KIND_KEY :: string where
  "OTHER_KIND_KEY = ''<other>''"

definition isKnownOutputKind :: "string \<Rightarrow> bool" where
  "isKnownOutputKind v \<longleftrightarrow>
     v \<in> set [''prose'', ''code'', ''diff'', ''patch'', ''decision'', ''plan'', ''artifact_ref'', ''test_result'',
              ''diagnostic'', ''checkpoint'', ''question'', ''warning'']"

record tagged_span =
  ts_cellIndex :: nat
  ts_cellId :: string
  ts_spanId :: string
  outputKind :: string
  ts_agentId :: string
  ts_snippet :: string
  timestampMs :: int

datatype lens_node = Lens_empty string | Kind_group string nat | Lens_span tagged_span

definition LENS_SNIPPET_MAX_CHARS :: nat where
  "LENS_SNIPPET_MAX_CHARS = 80"

subsection \<open>Attributes of a span\<close>

lemma js_get_size: "js_get kvs k = v \<Longrightarrow> v \<noteq> JUndef \<Longrightarrow> size v < size (JObj kvs)"
  by (induction kvs) (auto simp: js_get_def split: if_splits option.splits)

lemma jprop_size: "jprop v k \<noteq> JUndef \<Longrightarrow> size (jprop v k) < size v"
  using js_get_size by (cases v) auto

lemma jprop_array_size: "jprop v k = JArr xs \<Longrightarrow> x \<in> set xs \<Longrightarrow> size x < size v"
  using jprop_size[of v k] by (simp add: size_list_estimation less_imp_le)
    (metis less_trans size_list_estimation' le_less_trans not_less order_refl less_Suc_eq_le Suc_lessD)

text \<open>Whether \<open>decodeAnyValue\<close> returns: an array value needs its list of values, the entries of a
  key-value list may not be null.\<close>

definition scalar_value :: "jsv \<Rightarrow> bool" where
  "scalar_value v \<longleftrightarrow> jprop v ''stringValue'' \<noteq> JUndef \<or> jprop v ''boolValue'' \<noteq> JUndef
     \<or> jprop v ''intValue'' \<noteq> JUndef \<or> jprop v ''doubleValue'' \<noteq> JUndef"

function decodable :: "jsv \<Rightarrow> bool" where
  "decodable v =
     (if \<not> truthy v \<or> scalar_value v then True
      else if truthy (jprop v ''arrayValue'') then
        (case jprop (jprop v ''arrayValue'') ''values'' of JArr xs \<Rightarrow> list_all decodable xs | _ \<Rightarrow> False)
      else if truthy (jprop v ''kvlistValue'') then
        (case jprop (jprop v ''kvlistValue'') ''values'' of
           JArr xs \<Rightarrow> list_all (\<lambda>x. \<not> nullish x \<and> decodable (jprop x ''value'')) xs
         | JStr s \<Rightarrow> True
         | w \<Rightarrow> \<not> truthy w)
      else True)"
  by pat_completeness auto

lemma truthy_defined: "truthy v \<Longrightarrow> v \<noteq> JUndef"
  by auto

lemma jprop_le_size: "size (jprop v k) \<le> size v"
  using jprop_size[of v k] by (cases "jprop v k = JUndef") auto

termination decodable
proof (relation "measure size", simp, goal_cases)
  case (1 v xs x)
  then have "size x < size (jprop v ''arrayValue'')" by (auto intro: jprop_array_size)
  with jprop_le_size[of v "''arrayValue''"] show ?case by simp
next
  case (2 v xs x)
  then have "size x < size (jprop v ''kvlistValue'')" by (auto intro: jprop_array_size)
  with jprop_le_size[of v "''kvlistValue''"] jprop_le_size[of x "''value''"] show ?case by simp
qed

declare decodable.simps [simp del]

text \<open>\<open>getStringAttr\<close> on the attributes as parsed: the scan runs from the end and reads \<open>key\<close> of every
  element it passes.\<close>

fun scan_attr :: "string \<Rightarrow> jsv list \<Rightarrow> string option" where
  "scan_attr key [] = Some []"
| "scan_attr key (a # as) =
     (if nullish a then None
      else if jprop a ''key'' = JStr key then
        (if decodable (jprop a ''value'') then Some (attr_string (jprop a ''value'')) else None)
      else scan_attr key as)"

definition read_attr :: "jsv list \<Rightarrow> string \<Rightarrow> string option" where
  "read_attr attrs key = scan_attr key (rev attrs)"

subsection \<open>Extraction\<close>

definition array_field :: "jsv \<Rightarrow> string \<Rightarrow> jsv list option" where
  "array_field v k = (case jprop v k of JArr xs \<Rightarrow> Some xs | _ \<Rightarrow> None)"

lemma array_field_size: "array_field v k = Some xs \<Longrightarrow> x \<in> set xs \<Longrightarrow> size x < size v"
  by (auto simp: array_field_def intro: jprop_array_size split: jsv.splits)

lemma array_size: "x \<in> set xs \<Longrightarrow> size x < size (JArr xs)"
  by (simp add: size_list_estimation' less_Suc_eq_le)

function iterateSpans :: "jsv \<Rightarrow> jsv list" where
  "iterateSpans payload =
     (case payload of
        JArr xs \<Rightarrow> concat (map iterateSpans xs)
      | JObj kvs \<Rightarrow>
          if is_string (jprop payload ''traceId'') \<and> is_string (jprop payload ''spanId'') then [payload]
          else (case array_field payload ''spans'' of
                  Some xs \<Rightarrow> concat (map iterateSpans xs)
                | None \<Rightarrow> (case array_field payload ''scopeSpans'' of
                             Some xs \<Rightarrow> concat (map iterateSpans xs)
                           | None \<Rightarrow> []))
      | _ \<Rightarrow> [])"
  by pat_completeness auto
termination iterateSpans
  by (relation "measure size") (simp_all add: array_size array_field_size del: jsv.size)

declare iterateSpans.simps [simp del]

definition buildSnippet :: "string \<Rightarrow> jsv \<Rightarrow> string \<Rightarrow> string" where
  "buildSnippet dots sp content =
     (let raw = (if 0 < length content then content
                 else case jprop sp ''name'' of
                   JStr (c # n) \<Rightarrow> c # n
                 | _ \<Rightarrow> ''<span:'' @ take 8 (string_or_empty (jprop sp ''spanId'')) @ ''>'');
          compressed = trim (one_line raw)
      in if LENS_SNIPPET_MAX_CHARS < length compressed then take (LENS_SNIPPET_MAX_CHARS - 1) compressed @ dots
         else compressed)"

text \<open>The outer option is the exception, the inner one \<open>undefined\<close>.\<close>

definition toTaggedSpan :: "(string \<Rightarrow> int option) \<Rightarrow> string \<Rightarrow> nat \<Rightarrow> string \<Rightarrow> jsv \<Rightarrow> tagged_span option option" where
  "toTaggedSpan other dots i cid sp =
     (case array_field sp ''attributes'' of
        None \<Rightarrow> Some None
      | Some attrs \<Rightarrow> do {
          kindRaw \<leftarrow> read_attr attrs ''llmnb.output.kind'';
          if length kindRaw = 0 then Some None
          else do {
            agent \<leftarrow> read_attr attrs ''llmnb.agent_id'';
            content \<leftarrow> read_attr attrs ''llmnb.emit_content'';
            Some (Some \<lparr>ts_cellIndex = i, ts_cellId = cid, ts_spanId = string_or_empty (jprop sp ''spanId''),
              outputKind = (if isKnownOutputKind kindRaw then kindRaw else OTHER_KIND_KEY),
              ts_agentId = agent, ts_snippet = buildSnippet dots sp content,
              timestampMs = parseNanosToMs other (jprop sp ''startTimeUnixNano'')\<rparr>) } })"

text \<open>\<open>iterateRunItems\<close>: the parsed run items of a cell.\<close>

definition iterateRunItems :: "search_cell \<Rightarrow> jsv list" where
  "iterateRunItems cell =
     concat (map (\<lambda>(mime, raw). if mime \<noteq> ''application/vnd.rts.run+json'' \<or> raw = [] then []
        else case JSON_parse raw of Some v \<Rightarrow> [v] | None \<Rightarrow> []) (concat (sc_outputs cell)))"

type_synonym lens_cell = "cell_kind \<times> search_cell"

fun keep_tagged :: "tagged_span option option list \<Rightarrow> tagged_span list option" where
  "keep_tagged [] = Some []"
| "keep_tagged (r # rs) =
     (case r of None \<Rightarrow> None
      | Some t \<Rightarrow> map_option (\<lambda>ts. (case t of Some s \<Rightarrow> [s] | None \<Rightarrow> []) @ ts) (keep_tagged rs))"

definition cell_spans :: "(string \<Rightarrow> int option) \<Rightarrow> string \<Rightarrow> nat \<times> lens_cell \<Rightarrow> tagged_span option option list" where
  "cell_spans other dots ic =
     (if fst (snd ic) = Markup then []
      else map (toTaggedSpan other dots (fst ic) (primaryCellId (snd (snd ic))))
             (concat (map iterateSpans (iterateRunItems (snd (snd ic))))))"

definition extractTaggedSpans :: "(string \<Rightarrow> int option) \<Rightarrow> string \<Rightarrow> lens_cell list option \<Rightarrow> tagged_span list option" where
  "extractTaggedSpans other dots notebook =
     (case notebook of
        None \<Rightarrow> Some []
      | Some cs \<Rightarrow> keep_tagged (concat (map (cell_spans other dots) (enumerate 0 cs))))"

text \<open>\<open>groupByKind\<close>: a \<open>Map\<close> from kinds to their spans.\<close>

definition add_to_group :: "tagged_span \<Rightarrow> (string \<rightharpoonup> tagged_span list) \<Rightarrow> (string \<rightharpoonup> tagged_span list)" where
  "add_to_group s out =
     (case out (outputKind s) of
        Some bucket \<Rightarrow> out(outputKind s \<mapsto> bucket @ [s])
      | None \<Rightarrow> out(outputKind s \<mapsto> [s]))"

definition groupByKind :: "tagged_span list \<Rightarrow> (string \<rightharpoonup> tagged_span list)" where
  "groupByKind spans = fold add_to_group spans (\<lambda>_. None)"

subsection \<open>The tree\<close>

definition LENS_EMPTY :: string where
  "LENS_EMPTY = ''No tagged outputs. Run cells whose agents emit decisions, plans, or diagnostics.''"

definition getKindIcon :: "string \<Rightarrow> string" where
  "getKindIcon kind =
     (case map_of [(''decision'', ''check''), (''question'', ''question''), (''warning'', ''warning''), (''diagnostic'', ''alert''),
        (''plan'', ''list-ordered''), (''patch'', ''git-pull-request''), (''diff'', ''diff''), (''test_result'', ''beaker''),
        (''checkpoint'', ''bookmark''), (''code'', ''code''), (''prose'', ''comment''), (''artifact_ref'', ''file-symlink-directory'')] kind of
        Some i \<Rightarrow> i | None \<Rightarrow> ''circle-small'')"

definition getKindLabel :: "string \<Rightarrow> string" where
  "getKindLabel kind = (if kind = OTHER_KIND_KEY then ''other'' else kind)"

definition group_row :: "(string \<rightharpoonup> tagged_span list) \<Rightarrow> string \<Rightarrow> lens_node list" where
  "group_row groups k =
     (case groups k of Some bucket \<Rightarrow> if 0 < length bucket then [Kind_group k (length bucket)] else [] | None \<Rightarrow> [])"

definition lens_children :: "tagged_span list \<Rightarrow> lens_node option \<Rightarrow> lens_node list" where
  "lens_children spans node =
     (case node of
        None \<Rightarrow>
          if length spans = 0 then [Lens_empty LENS_EMPTY]
          else concat (map (group_row (groupByKind spans)) OUTPUT_KIND_ORDER) @ group_row (groupByKind spans) OTHER_KIND_KEY
      | Some (Kind_group k n) \<Rightarrow>
          map Lens_span (case groupByKind spans k of Some bucket \<Rightarrow> bucket | None \<Rightarrow> [])
      | Some _ \<Rightarrow> [])"

definition buildSpanItem :: "tagged_span \<Rightarrow> tree_item option" where
  "buildSpanItem s =
     (let sep = '' '' @ [CHR 0xB7] @ '' '';
          agent = (if ts_agentId s \<noteq> [] then sep @ ts_agentId s else [])
      in map_option (\<lambda>date. (plain_item (JStr (ts_snippet s)) Not_collapsible)\<lparr>
           ti_description := Some (JStr (''#'' @ show_nat (ts_cellIndex s + 1) @ agent)),
           ti_tooltip := Some (outputKind s @ sep @ ''cell #'' @ show_nat (ts_cellIndex s + 1) @ agent @ date),
           ti_icon := Some (getKindIcon (outputKind s), None),
           ti_context := Some ''llmnb.sidebar.lens.taggedSpan'',
           ti_command := reveal_command (JStr (ts_cellId s))\<rparr>)
         (if 0 < timestampMs s then map_option ((@) sep) (toISOString (of_int (timestampMs s))) else Some []))"

definition lens_item :: "lens_node \<Rightarrow> tree_item option" where
  "lens_item node =
     (case node of
        Lens_empty message \<Rightarrow> Some (empty_item message)
      | Kind_group k n \<Rightarrow> Some ((plain_item (JStr (getKindLabel k)) Collapsed_item)\<lparr>
          ti_description := Some (JStr (if n = 1 then ''1 span'' else show_nat n @ '' spans'')),
          ti_icon := Some (getKindIcon k, None), ti_context := Some ''llmnb.sidebar.lens.kindGroup''\<rparr>)
      | Lens_span s \<Rightarrow> buildSpanItem s)"

text \<open>The default resolver looks the active zone's document up among the open ones, whatever their type.\<close>

definition defaultSpansResolver ::
  "(string \<Rightarrow> int option) \<Rightarrow> string \<Rightarrow> zone_snapshot option \<Rightarrow> (string \<times> lens_cell list) list \<Rightarrow> tagged_span list option" where
  "defaultSpansResolver other dots active docs =
     (case active of
        None \<Rightarrow> Some []
      | Some z \<Rightarrow> (case List.find (\<lambda>d. fst d = zone_uri z) docs of
                     Some d \<Rightarrow> extractTaggedSpans other dots (Some (snd d)) | None \<Rightarrow> Some []))"

subsection \<open>Lemmas\<close>

abbreviation of_kind :: "string \<Rightarrow> tagged_span list \<Rightarrow> tagged_span list" where
  "of_kind k spans \<equiv> filter (\<lambda>s. outputKind s = k) spans"

lemma groupByKind_spec: "groupByKind spans k = (if of_kind k spans = [] then None else Some (of_kind k spans))"
  by (induction spans rule: rev_induct) (auto simp: groupByKind_def add_to_group_def split: option.splits)

lemma group_row_spec:
  "group_row (groupByKind spans) k = (if of_kind k spans = [] then [] else [Kind_group k (length (of_kind k spans))])"
  by (simp add: group_row_def groupByKind_spec)

lemma concat_optional: "concat (map (\<lambda>k. if P k then [] else [f k]) ks) = map f (filter (\<lambda>k. \<not> P k) ks)"
  by (induction ks) auto

lemma lens_rows:
  "spans \<noteq> [] \<Longrightarrow> lens_children spans None =
     map (\<lambda>k. Kind_group k (length (of_kind k spans))) (filter (\<lambda>k. of_kind k spans \<noteq> []) (OUTPUT_KIND_ORDER @ [OTHER_KIND_KEY]))"
  by (simp add: lens_children_def group_row_spec[abs_def] concat_optional[of "\<lambda>k. of_kind k spans = []" "\<lambda>k. Kind_group k (length (of_kind k spans))"])

lemma lens_group_children: "lens_children spans (Some (Kind_group k n)) = map Lens_span (of_kind k spans)"
  by (simp add: lens_children_def groupByKind_spec)

lemma insert_into_group:
  "distinct ks \<Longrightarrow> a \<in> set ks \<Longrightarrow>
     mset (concat (map (\<lambda>k. if a = k then x # g k else g k) ks)) = add_mset x (mset (concat (map g ks)))"
proof (induction ks)
  case (Cons b ks)
  show ?case
  proof (cases "a = b")
    case True
    then have "map (\<lambda>k. if b = k then x # g k else g k) ks = map g ks" using Cons.prems by (intro map_cong) auto
    with True show ?thesis by (simp del: map_eq_conv)
  next
    case False
    with Cons show ?thesis by simp
  qed
qed simp

lemma concat_map_empty: "concat (map (\<lambda>k. []) ks) = []"
  by (induction ks) auto

lemma groups_partition:
  "distinct ks \<Longrightarrow> \<forall>x \<in> set xs. f x \<in> set ks \<Longrightarrow> mset (concat (map (\<lambda>k. filter (\<lambda>x. f x = k) xs) ks)) = mset xs"
proof (induction xs)
  case Nil
  then show ?case by (simp add: concat_map_empty)
next
  case (Cons x xs)
  have "mset (concat (map (\<lambda>k. filter (\<lambda>x. f x = k) (x # xs)) ks))
      = mset (concat (map (\<lambda>k. if f x = k then x # filter (\<lambda>x. f x = k) xs else filter (\<lambda>x. f x = k) xs) ks))"
    by (simp cong: map_cong)
  also have "\<dots> = add_mset x (mset (concat (map (\<lambda>k. filter (\<lambda>x. f x = k) xs) ks)))"
    using Cons.prems by (intro insert_into_group) auto
  finally show ?case using Cons by simp
qed

lemma concat_nonempty: "concat (map g (filter (\<lambda>k. g k \<noteq> []) ks)) = concat (map g ks)"
  by (induction ks) auto

lemma lens_kinds_distinct: "distinct (OUTPUT_KIND_ORDER @ [OTHER_KIND_KEY])"
  by (simp add: OUTPUT_KIND_ORDER_def OTHER_KIND_KEY_def)

lemma known_kind_listed: "isKnownOutputKind k \<Longrightarrow> k \<in> set OUTPUT_KIND_ORDER"
  by (auto simp: isKnownOutputKind_def OUTPUT_KIND_ORDER_def)

lemma keep_tagged_Some:
  "keep_tagged rs = Some ts \<longleftrightarrow> None \<notin> set rs \<and> ts = concat (map (\<lambda>r. case r of Some (Some s) \<Rightarrow> [s] | _ \<Rightarrow> []) rs)"
  by (induction rs arbitrary: ts) (auto split: option.splits)

lemma toTaggedSpan_Some:
  assumes "toTaggedSpan other dots i cid sp = Some (Some s)"
  shows "ts_cellIndex s = i" "ts_cellId s = cid" "outputKind s \<in> set (OUTPUT_KIND_ORDER @ [OTHER_KIND_KEY])"
  using assms known_kind_listed by (auto simp: toTaggedSpan_def split: option.splits bind_splits if_splits)

lemma cell_spans_Some:
  assumes "Some (Some s) \<in> set (cell_spans other dots (i, c))"
  shows "ts_cellIndex s = i" "ts_cellId s = primaryCellId (snd c)" "fst c \<noteq> Markup"
    "outputKind s \<in> set (OUTPUT_KIND_ORDER @ [OTHER_KIND_KEY])"
proof -
  obtain sp where t: "toTaggedSpan other dots i (primaryCellId (snd c)) sp = Some (Some s)"
    and m: "fst c \<noteq> Markup"
    using assms by (auto simp: cell_spans_def split: if_splits dest!: sym[of "Some (Some s)"])
  show "ts_cellIndex s = i" "ts_cellId s = primaryCellId (snd c)" "fst c \<noteq> Markup"
    "outputKind s \<in> set (OUTPUT_KIND_ORDER @ [OTHER_KIND_KEY])"
    using toTaggedSpan_Some[OF t] m by simp_all
qed

lemma extracted_spans:
  assumes "extractTaggedSpans other dots (Some cs) = Some spans"
  shows "s \<in> set spans \<longleftrightarrow> (\<exists>i < length cs. Some (Some s) \<in> set (cell_spans other dots (i, cs ! i)))"
  using assms by (auto simp: extractTaggedSpans_def keep_tagged_Some in_set_enumerate_eq split: option.splits)

lemma kept_of_cell: "set (concat (map (\<lambda>r. case r of Some (Some s) \<Rightarrow> [s] | _ \<Rightarrow> []) rs)) = {s. Some (Some s) \<in> set rs}"
  by (induction rs) (auto split: option.splits)

lemma sorted_same: "(\<And>x. x \<in> set xs \<Longrightarrow> f x = (i :: nat)) \<Longrightarrow> sorted (map f xs)"
  by (induction xs) auto

lemma sorted_blocks:
  "\<forall>(i, c) \<in> set ics. \<forall>s. Some (Some s) \<in> set (cell_spans other dots (i, c)) \<longrightarrow> ts_cellIndex s = i \<Longrightarrow>
   sorted (map fst ics) \<Longrightarrow>
   sorted (map ts_cellIndex (concat (map (\<lambda>r. case r of Some (Some s) \<Rightarrow> [s] | _ \<Rightarrow> []) (concat (map (cell_spans other dots) ics)))))"
proof (induction ics)
  case (Cons ic ics)
  obtain i c where ic: "ic = (i, c)" by (rule prod.exhaust)
  let ?keep = "\<lambda>rs. concat (map (\<lambda>r. case r of Some (Some s) \<Rightarrow> [s] | _ \<Rightarrow> []) rs) :: tagged_span list"
  have here: "ts_cellIndex s = i" if "s \<in> set (?keep (cell_spans other dots (i, c)))" for s
    using that Cons.prems(1) unfolding kept_of_cell ic by auto
  have later: "i \<le> ts_cellIndex s" if "s \<in> set (?keep (concat (map (cell_spans other dots) ics)))" for s
    using that Cons.prems unfolding kept_of_cell ic by fastforce
  have "sorted (map ts_cellIndex (?keep (cell_spans other dots (i, c))))"
    using here by (intro sorted_same) simp
  moreover have "sorted (map ts_cellIndex (?keep (concat (map (cell_spans other dots) ics))))"
    using Cons by simp
  ultimately show ?case using here later
    by (simp only: ic list.map concat.simps map_append concat_append sorted_append set_map ball_simps) (metis image_iff)
qed simp

lemma extracted_in_order:
  assumes "extractTaggedSpans other dots (Some cs) = Some spans"
  shows "sorted (map ts_cellIndex spans)"
proof -
  have "\<forall>(i, c) \<in> set (enumerate 0 cs). \<forall>s. Some (Some s) \<in> set (cell_spans other dots (i, c)) \<longrightarrow> ts_cellIndex s = i"
    using cell_spans_Some(1) by auto
  from sorted_blocks[OF this] assms show ?thesis by (simp add: extractTaggedSpans_def keep_tagged_Some)
qed

lemma revealed_by_index:
  assumes "i < length (ed_cells e)" "list_all (\<lambda>c. sc_uri c \<noteq> []) (ed_cells e)"
  shows "\<exists>j \<le> i. primaryCellId (ed_cells e ! i) \<in> set (cell_ids (ed_cells e ! j))
    \<and> runRevealCellCommand (navigate_args (primaryCellId (ed_cells e ! i))) (Some e) None None
       = (True, [Reveal_range j (j + 1), Set_selection j (j + 1), Schedule_fade FLASH_DURATION_MS j])"
proof -
  let ?c = "primaryCellId (ed_cells e ! i)"
  have ne: "?c \<noteq> []" using assms cell_ids_nonempty[OF _ primaryCellId_in] by (simp add: list_all_length)
  have hit: "?c \<in> set (cell_ids (ed_cells e ! i))" by (rule primaryCellId_in)
  define j where "j = (LEAST j. ?c \<in> set (cell_ids (ed_cells e ! j)))"
  have j: "?c \<in> set (cell_ids (ed_cells e ! j))" "j \<le> i" "\<forall>k<j. ?c \<notin> set (cell_ids (ed_cells e ! k))"
    unfolding j_def using LeastI[of "\<lambda>j. ?c \<in> set (cell_ids (ed_cells e ! j))", OF hit] Least_le[of "\<lambda>j. ?c \<in> set (cell_ids (ed_cells e ! j))", OF hit]
      not_less_Least by blast+
  then have "findCellIndexByCellId e ?c = Some j"
    using ne assms(1) by (simp add: findCellIndexByCellId_def find_cell_from_Some)
  with ne j show ?thesis
    by (auto simp: runRevealCellCommand_def navigate_args_def reveal_arg_def strField_def js_get_def intro!: exI[of _ j])
qed

text \<open>C38. Output lens: when extraction succeeds, the rows are the kinds that occur, in canonical order
  with the unknown kinds last, each with the number of its spans; the children of a row are the spans
  of its kind in notebook order; every tagged span of the notebook is under exactly one row; and
  the row of a span reveals a cell carrying the id of the span's cell.\<close>

theorem lens_partitions_spans:
  assumes "extractTaggedSpans other dots (Some cs) = Some spans" "spans \<noteq> []"
  shows "lens_children spans None =
      map (\<lambda>k. Kind_group k (length (of_kind k spans))) (filter (\<lambda>k. of_kind k spans \<noteq> []) (OUTPUT_KIND_ORDER @ [OTHER_KIND_KEY]))
    \<and> (\<forall>k n. lens_children spans (Some (Kind_group k n)) = map Lens_span (of_kind k spans))
    \<and> mset (concat (map (\<lambda>r. lens_children spans (Some r)) (lens_children spans None))) = mset (map Lens_span spans)
    \<and> sorted (map ts_cellIndex spans)
    \<and> (\<forall>s e it. s \<in> set spans \<and> ed_cells e = map snd cs \<and> list_all (\<lambda>c. sc_uri c \<noteq> []) (ed_cells e)
         \<and> lens_item (Lens_span s) = Some it \<longrightarrow>
         (\<exists>j \<le> ts_cellIndex s. ti_command it = Some (''llmnb.revealCell'', JArr [navigate_args (ts_cellId s)])
            \<and> ts_cellId s \<in> set (cell_ids (ed_cells e ! j))
            \<and> runRevealCellCommand (navigate_args (ts_cellId s)) (Some e) None None
               = (True, [Reveal_range j (j + 1), Set_selection j (j + 1), Schedule_fade FLASH_DURATION_MS j])))"
proof (intro conjI allI impI)
  let ?ks = "OUTPUT_KIND_ORDER @ [OTHER_KIND_KEY]"
  show rows: "lens_children spans None = map (\<lambda>k. Kind_group k (length (of_kind k spans))) (filter (\<lambda>k. of_kind k spans \<noteq> []) ?ks)"
    using assms(2) by (rule lens_rows)
  show "lens_children spans (Some (Kind_group k n)) = map Lens_span (of_kind k spans)" for k n by (rule lens_group_children)
  have kinds: "\<forall>s \<in> set spans. outputKind s \<in> set ?ks"
    using extracted_spans[OF assms(1)] cell_spans_Some(4) by blast
  have "concat (map (\<lambda>r. lens_children spans (Some r)) (lens_children spans None))
      = map Lens_span (concat (map (\<lambda>k. of_kind k spans) ?ks))"
    unfolding rows by (simp only: map_map o_def lens_group_children map_concat[symmetric] concat_nonempty[of "\<lambda>k. of_kind k spans" ?ks, symmetric] map_concat)
  then show "mset (concat (map (\<lambda>r. lens_children spans (Some r)) (lens_children spans None))) = mset (map Lens_span spans)"
    using groups_partition[OF lens_kinds_distinct kinds] by (simp only: mset_map)
  show "sorted (map ts_cellIndex spans)" using assms(1) by (rule extracted_in_order)
next
  fix s :: tagged_span and e :: notebook_editor and it
  assume a: "s \<in> set spans \<and> ed_cells e = map snd cs \<and> list_all (\<lambda>c. sc_uri c \<noteq> []) (ed_cells e) \<and> lens_item (Lens_span s) = Some it"
  then obtain i where i: "i < length cs" "Some (Some s) \<in> set (cell_spans other dots (i, cs ! i))"
    using extracted_spans[OF assms(1)] by blast
  note s = cell_spans_Some[OF i(2)]
  have c: "ts_cellIndex s < length (ed_cells e)" "ts_cellId s = primaryCellId (ed_cells e ! ts_cellIndex s)"
    using a i(1) s by simp_all
  moreover have "ts_cellId s \<noteq> []"
    using c a cell_ids_nonempty[OF _ primaryCellId_in] by (auto simp: list_all_length)
  then have "ti_command it = Some (''llmnb.revealCell'', JArr [navigate_args (ts_cellId s)])"
    using a by (auto simp: lens_item_def buildSpanItem_def Let_def reveal_command_def navigate_args_def split: if_splits)
  ultimately show "\<exists>j \<le> ts_cellIndex s. ti_command it = Some (''llmnb.revealCell'', JArr [navigate_args (ts_cellId s)])
      \<and> ts_cellId s \<in> set (cell_ids (ed_cells e ! j))
      \<and> runRevealCellCommand (navigate_args (ts_cellId s)) (Some e) None None
         = (True, [Reveal_range j (j + 1), Set_selection j (j + 1), Schedule_fade FLASH_DURATION_MS j])"
    using revealed_by_index[OF c(1)] a by auto
qed

definition demo_lens_cells :: "lens_cell list" where
  \<open>demo_lens_cells =
     [(Markup, \<lparr>sc_metadata = JObj [], sc_uri = ''c0'', sc_source = [], sc_outputs = []\<rparr>),
      (Code, \<lparr>sc_metadata = JObj [], sc_uri = ''c1'', sc_source = [], sc_outputs = [[(''application/vnd.rts.run+json'',
         ''{"spans":[{"traceId":"t","spanId":"s1","name":"n1","attributes":[{"key":"llmnb.output.kind","value":{"stringValue":"plan"}}]},'' @
         ''{"traceId":"t","spanId":"s2","name":"n2","attributes":[{"key":"llmnb.output.kind","value":{"stringValue":"decision"}}]}]}'')]]\<rparr>)]\<close>

theorem lens_partitions_spans_witness:
  "\<exists>spans. extractTaggedSpans (\<lambda>_. None) ''..'' (Some demo_lens_cells) = Some spans
     \<and> lens_children spans None = [Kind_group ''decision'' 1, Kind_group ''plan'' 1]
     \<and> mset (concat (map (\<lambda>r. lens_children spans (Some r)) (lens_children spans None))) = mset (map Lens_span spans)"
proof -
  let ?spans = "[\<lparr>ts_cellIndex = 1, ts_cellId = ''c1'', ts_spanId = ''s1'', outputKind = ''plan'', ts_agentId = [], ts_snippet = ''n1'', timestampMs = 0\<rparr>,
       \<lparr>ts_cellIndex = 1, ts_cellId = ''c1'', ts_spanId = ''s2'', outputKind = ''decision'', ts_agentId = [], ts_snippet = ''n2'', timestampMs = 0\<rparr>]"
  have e: "extractTaggedSpans (\<lambda>_. None) ''..'' (Some demo_lens_cells) = Some ?spans"
    by code_simp
  note l = lens_partitions_spans[OF e]
  have "lens_children ?spans None = [Kind_group ''decision'' 1, Kind_group ''plan'' 1]"
    using l by (simp add: OUTPUT_KIND_ORDER_def OTHER_KIND_KEY_def)
  with l e show ?thesis by blast
qed

text \<open>One null entry among the attributes of one span makes the whole lens throw.\<close>

lemma null_attribute_breaks_lens:
  \<open>extractTaggedSpans (\<lambda>_. None) ''..'' (Some [(Code, \<lparr>sc_metadata = JObj [], sc_uri = ''c1'', sc_source = [],
     sc_outputs = [[(''application/vnd.rts.run+json'', ''{"traceId":"t","spanId":"s1","attributes":[null]}'')]]\<rparr>)]) = None\<close>
  by code_simp

text \<open>Every snippet shown is short, and every known kind has an icon of its own.\<close>

lemma buildSnippet_length: "length dots = 1 \<Longrightarrow> length (buildSnippet dots sp content) \<le> LENS_SNIPPET_MAX_CHARS"
  by (auto simp: buildSnippet_def Let_def LENS_SNIPPET_MAX_CHARS_def)

lemma kind_icons_distinct: "distinct (map getKindIcon (OUTPUT_KIND_ORDER @ [OTHER_KIND_KEY]))"
  by (simp add: getKindIcon_def OUTPUT_KIND_ORDER_def OTHER_KIND_KEY_def)

end
