(* ===== verification/Map_Layout.thy ===== *)
theory Map_Layout
  imports JS_Strings "HOL-Library.AList"
begin

section \<open>Map view renderer (\<open>extension/src/webviews/map-view-renderer.ts\<close>)\<close>

text \<open>
  The webview that draws the layout tree: the grid layout, the SVG elements, the agent overlay, and
  dragging a zone, which posts an edit to the host. Coordinates are exact rationals: the arithmetic on
  doubles is exact as long as the values are integers below \<open>2^53\<close>, which all constants of the layout
  are; position hints are finite numbers. A tree is given by its declared type; the types of its
  nodes are strings other than the members of \<open>Object.prototype\<close>.
\<close>

subsection \<open>Data\<close>

datatype layout_node =
  Layout_node (node_id: string) (node_type: string) (render_hints: jsv) (node_children: "layout_node list")

record node_position =
  pos_x :: rat
  pos_y :: rat
  pos_width :: rat
  pos_height :: rat

type_synonym position_map = "string \<rightharpoonup> node_position"

definition DEFAULT_COLORS :: "(string \<times> string) list" where
  "DEFAULT_COLORS =
     [(''workspace'', ''#3a3a3a''), (''zone'', ''#4a90e2''), (''file'', ''#f5f5f5''), (''agent'', ''#5cb85c''),
      (''viewpoint'', ''#9b59b6''), (''annotation'', ''#f0ad4e'')]"

definition PADDING :: rat where "PADDING = 12"
definition NODE_HEIGHT_DEFAULT :: rat where "NODE_HEIGHT_DEFAULT = 28"
definition FILE_WIDTH :: rat where "FILE_WIDTH = 96"
definition FILE_HEIGHT :: rat where "FILE_HEIGHT = 24"

subsection \<open>Hints\<close>

definition readPositionHint :: "layout_node \<Rightarrow> (rat \<times> rat) option" where
  "readPositionHint node =
     (case jprop (render_hints node) ''position'' of
        JArr (JNum (Fin a) # JNum (Fin b) # _) \<Rightarrow> Some (a, b)
      | _ \<Rightarrow> None)"

definition readColorHint :: "layout_node \<Rightarrow> string" where
  "readColorHint node =
     (case jprop (render_hints node) ''color'' of
        JStr c \<Rightarrow> c
      | _ \<Rightarrow> (case map_of DEFAULT_COLORS (node_type node) of Some c \<Rightarrow> c | None \<Rightarrow> ''#666''))"

definition readLabel :: "layout_node \<Rightarrow> string" where
  "readLabel node = (case jprop (render_hints node) ''label'' of JStr l \<Rightarrow> l | _ \<Rightarrow> node_id node)"

subsection \<open>Layout\<close>

fun indexNodes :: "layout_node \<Rightarrow> (string \<times> layout_node) list \<Rightarrow> (string \<times> layout_node) list" where
  "indexNodes (Layout_node i ty hints cs) m = fold indexNodes cs (AList.update i (Layout_node i ty hints cs) m)"

function (sequential) layoutTree :: "layout_node \<Rightarrow> rat \<Rightarrow> rat \<Rightarrow> rat \<Rightarrow> position_map \<Rightarrow> node_position \<times> position_map"
and layout_column :: "layout_node list \<Rightarrow> rat \<Rightarrow> rat \<Rightarrow> rat \<Rightarrow> rat \<Rightarrow> position_map \<Rightarrow> (rat \<times> rat) \<times> position_map"
and layout_grid :: "layout_node list \<Rightarrow> rat \<Rightarrow> rat \<Rightarrow> rat \<Rightarrow> rat \<Rightarrow> rat \<Rightarrow> position_map \<Rightarrow> (rat \<times> rat) \<times> position_map" where
  "layoutTree (Layout_node i ty hints cs) x y availableWidth ps =
     (let hint = readPositionHint (Layout_node i ty hints cs);
          nx = (case hint of Some h \<Rightarrow> fst h | None \<Rightarrow> x);
          ny = (case hint of Some h \<Rightarrow> snd h | None \<Rightarrow> y)
      in if ty = ''file'' \<or> length cs = 0 then
           (let pos = \<lparr>pos_x = nx, pos_y = ny,
                  pos_width = (if ty = ''file'' then FILE_WIDTH else max 64 availableWidth),
                  pos_height = (if ty = ''file'' then FILE_HEIGHT else NODE_HEIGHT_DEFAULT)\<rparr>
            in (pos, ps(i \<mapsto> pos)))
         else
           (let innerX = nx + PADDING;
                innerY = ny + NODE_HEIGHT_DEFAULT + PADDING / 2;
                innerWidth = max 120 (availableWidth - PADDING * 2)
            in if ty = ''workspace'' then
                 (case layout_column cs innerX innerY innerWidth innerWidth ps of ((endY, maxChildW), ps') \<Rightarrow>
                    (let pos = \<lparr>pos_x = nx, pos_y = ny, pos_width = maxChildW + PADDING * 2,
                           pos_height = max (NODE_HEIGHT_DEFAULT * 2) (endY - ny + PADDING / 2)\<rparr>
                     in (pos, ps'(i \<mapsto> pos))))
               else if ty = ''zone'' then
                 (case layout_grid cs innerX (nx + innerWidth + PADDING) innerX innerY 0 ps of ((cursorY, rowMaxH), ps') \<Rightarrow>
                    (let pos = \<lparr>pos_x = nx, pos_y = ny, pos_width = innerWidth + PADDING * 2,
                           pos_height = cursorY + rowMaxH - ny + PADDING\<rparr>
                     in (pos, ps'(i \<mapsto> pos))))
               else
                 (case layout_column cs innerX innerY innerWidth innerWidth ps of ((stackY, _), ps') \<Rightarrow>
                    (let pos = \<lparr>pos_x = nx, pos_y = ny, pos_width = innerWidth + PADDING * 2,
                           pos_height = stackY - ny + PADDING / 2\<rparr>
                     in (pos, ps'(i \<mapsto> pos))))))"
| "layout_column [] x y w maxChildW ps = ((y, maxChildW), ps)"
| "layout_column (c # cs) x y w maxChildW ps =
     (case layoutTree c x y w ps of (cpos, ps') \<Rightarrow>
        layout_column cs x (pos_y cpos + pos_height cpos + PADDING / 2) w (max maxChildW (pos_width cpos)) ps')"
| "layout_grid [] innerX wrapAt cursorX cursorY rowMaxH ps = ((cursorY, rowMaxH), ps)"
| "layout_grid (c # cs) innerX wrapAt cursorX cursorY rowMaxH ps =
     (case layoutTree c cursorX cursorY FILE_WIDTH ps of (cpos, ps') \<Rightarrow>
        if wrapAt < cursorX + pos_width cpos \<and> cursorX \<noteq> innerX then
          (let rowY = cursorY + (rowMaxH + PADDING / 2)
           in case layoutTree c innerX rowY FILE_WIDTH ps' of (wrapped, ps'') \<Rightarrow>
                layout_grid cs innerX wrapAt (innerX + (pos_width wrapped + PADDING / 2)) rowY (max 0 (pos_height wrapped)) ps'')
        else layout_grid cs innerX wrapAt (cursorX + (pos_width cpos + PADDING / 2)) cursorY (max rowMaxH (pos_height cpos)) ps')"

  by pat_completeness auto
termination
  by (relation "measure (\<lambda>x. case x of Inl (n, _) \<Rightarrow> size n | Inr (Inl (cs, _)) \<Rightarrow> size_list size cs | Inr (Inr (cs, _)) \<Rightarrow> size_list size cs)") auto

subsection \<open>Rendering\<close>

datatype svg_value = Text_attr string | Number_attr rat

datatype svg = Svg_element string "(string \<times> svg_value) list" string "svg list"

definition node_rect :: "layout_node \<Rightarrow> node_position \<Rightarrow> svg" where
  "node_rect node pos =
     Svg_element ''rect''
       [(''class'', Text_attr ''node-rect''), (''x'', Number_attr (pos_x pos)), (''y'', Number_attr (pos_y pos)),
        (''width'', Number_attr (pos_width pos)), (''height'', Number_attr (pos_height pos)),
        (''fill'', Text_attr (readColorHint node)),
        (''fill-opacity'', Text_attr (if node_type node = ''workspace'' then ''0.18'' else ''0.35'')),
        (''stroke'', Text_attr (readColorHint node)), (''stroke-opacity'', Text_attr ''0.8''), (''rx'', Text_attr ''4'')] [] []"

definition node_label :: "layout_node \<Rightarrow> node_position \<Rightarrow> svg" where
  "node_label node pos =
     Svg_element ''text''
       [(''class'', Text_attr ''node-label''), (''x'', Number_attr (pos_x pos + 6)), (''y'', Number_attr (pos_y pos + 14)),
        (''font-size'', Text_attr ''11'')] (readLabel node @ ''  ['' @ node_type node @ '']'') []"

fun renderNode :: "position_map \<Rightarrow> layout_node \<Rightarrow> svg list" where
  "renderNode ps (Layout_node i ty hints cs) =
     (case ps i of
        None \<Rightarrow> []
      | Some pos \<Rightarrow>
          [Svg_element ''g'' [(''data-node-id'', Text_attr i), (''data-node-type'', Text_attr ty)] []
             (node_rect (Layout_node i ty hints cs) pos # node_label (Layout_node i ty hints cs) pos #
              concat (map (renderNode ps) cs))])"

definition map_root :: "position_map \<Rightarrow> layout_node \<Rightarrow> svg" where
  "map_root ps tree = Svg_element ''g'' [(''id'', Text_attr ''map-root'')] [] (renderNode ps tree)"

record graph_node =
  gn_id :: string
  gn_type :: string

record graph_edge =
  ge_source :: string
  ge_target :: string
  ge_kind :: string

record agent_graph =
  graph_nodes :: "graph_node list"
  graph_edges :: "graph_edge list"

definition edge_line :: "position_map \<Rightarrow> graph_edge \<Rightarrow> svg list" where
  "edge_line ps e =
     (case (ps (ge_source e), ps (ge_target e)) of
        (Some a, Some b) \<Rightarrow>
          [Svg_element ''line''
             [(''x1'', Number_attr (pos_x a + pos_width a / 2)), (''y1'', Number_attr (pos_y a + pos_height a / 2)),
              (''x2'', Number_attr (pos_x b + pos_width b / 2)), (''y2'', Number_attr (pos_y b + pos_height b / 2)),
              (''stroke'', Text_attr ''#888''), (''stroke-opacity'', Text_attr ''0.4''), (''stroke-width'', Text_attr ''1'')] [] []]
      | _ \<Rightarrow> [])"

definition agent_anchor :: "position_map \<Rightarrow> graph_edge list \<Rightarrow> string \<Rightarrow> node_position option" where
  "agent_anchor ps edges i =
     (case ps i of
        Some p \<Rightarrow> Some p
      | None \<Rightarrow> (case List.find (\<lambda>e. ge_source e = i \<and> ge_kind e = ''in_zone'') edges of
                   Some e \<Rightarrow> ps (ge_target e) | None \<Rightarrow> None))"

definition agent_circle :: "position_map \<Rightarrow> graph_edge list \<Rightarrow> graph_node \<Rightarrow> svg list" where
  "agent_circle ps edges n =
     (if gn_type n \<noteq> ''agent'' then []
      else case agent_anchor ps edges (gn_id n) of
        None \<Rightarrow> []
      | Some anchor \<Rightarrow>
          [Svg_element ''circle''
             [(''cx'', Number_attr (pos_x anchor + 14)), (''cy'', Number_attr (pos_y anchor + pos_height anchor - 14)),
              (''r'', Text_attr ''6''), (''fill'', Text_attr ''#5cb85c''), (''stroke'', Text_attr ''#fff''),
              (''stroke-width'', Text_attr ''1''), (''data-agent-id'', Text_attr (gn_id n))] [] []])"

definition overlay_group :: "position_map \<Rightarrow> agent_graph \<Rightarrow> svg" where
  "overlay_group ps g =
     Svg_element ''g'' [(''id'', Text_attr ''agent-overlay'')] []
       (concat (map (edge_line ps) (graph_edges g)) @ concat (map (agent_circle ps (graph_edges g)) (graph_nodes g)))"

subsection \<open>The state of the page\<close>

record drag_state =
  dr_nodeId :: string
  startClientX :: rat
  startClientY :: rat
  startX :: rat
  startY :: rat
  currentX :: rat
  currentY :: rat

text \<open>Beside the variables of the script: the two groups in the SVG element, the \<open>transform\<close> and the
  \<open>dragging\<close> class of node elements, whether the window listens to the mouse, status and tooltip.\<close>

record map_page =
  positions :: position_map
  nodesById :: "(string \<times> layout_node) list"
  drag :: "drag_state option"
  lastTree :: "layout_node option"
  agentOverlay :: "agent_graph option"
  root_group :: "svg option"
  agent_group :: "svg option"
  transforms :: "string \<rightharpoonup> rat \<times> rat"
  dragging :: "string list"
  listening :: bool
  status_text :: string
  tooltip :: "string option"

definition initial_page :: "string \<Rightarrow> map_page" where
  "initial_page dots =
     \<lparr>positions = (\<lambda>_. None), nodesById = [], drag = None, lastTree = None, agentOverlay = None, root_group = None,
      agent_group = None, transforms = (\<lambda>_. None), dragging = [], listening = False,
      status_text = ''layout: ready (waiting for snapshot)'' @ dots, tooltip = None\<rparr>"

definition renderOverlay :: "map_page \<Rightarrow> map_page" where
  "renderOverlay s =
     (case agentOverlay s of None \<Rightarrow> s | Some g \<Rightarrow> s\<lparr>agent_group := Some (overlay_group (positions s) g)\<rparr>)"

definition render_page :: "map_page \<Rightarrow> map_page" where
  "render_page s =
     (let cleared = s\<lparr>root_group := None, agent_group := None, transforms := (\<lambda>_. None), dragging := []\<rparr>
      in case lastTree s of
           None \<Rightarrow> cleared
         | Some tree \<Rightarrow> renderOverlay (cleared\<lparr>root_group := Some (map_root (positions s) tree)\<rparr>))"

definition getViewportWidth :: "rat \<Rightarrow> rat" where
  "getViewportWidth innerWidth = max 400 (if innerWidth = 0 then 800 else innerWidth)"

definition layout_page :: "layout_node \<Rightarrow> rat \<Rightarrow> position_map" where
  "layout_page tree innerWidth =
     snd (layoutTree tree PADDING PADDING (getViewportWidth innerWidth - PADDING * 2) (\<lambda>_. None))"

definition onLayoutUpdate :: "int \<Rightarrow> layout_node \<Rightarrow> rat \<Rightarrow> map_page \<Rightarrow> map_page" where
  "onLayoutUpdate version tree innerWidth s =
     (let s' = render_page (s\<lparr>lastTree := Some tree, positions := layout_page tree innerWidth, nodesById := indexNodes tree []\<rparr>)
      in s'\<lparr>status_text := ''layout v'' @ show_int version @ '' ('' @ show_nat (length (nodesById s')) @ '' nodes)''\<rparr>)"

definition onResize :: "rat \<Rightarrow> map_page \<Rightarrow> map_page" where
  "onResize innerWidth s =
     (case lastTree s of None \<Rightarrow> s | Some tree \<Rightarrow> render_page (s\<lparr>positions := layout_page tree innerWidth\<rparr>))"

subsection \<open>Dragging\<close>

definition cssEscape :: "string \<Rightarrow> string" where
  "cssEscape s = concat (map (\<lambda>c. if c \<in> {CHR 0x22, CHR 0x5C} then [CHR 0x5C, c] else [c]) s)"

text \<open>A quoted string of a selector may not contain a line break: \<open>querySelector\<close> throws.\<close>

definition selector_ok :: "string \<Rightarrow> bool" where
  "selector_ok i = list_all (\<lambda>c. c \<notin> {LF, CR, CHR 0x0C}) (cssEscape i)"

definition beginDrag :: "string \<Rightarrow> rat \<Rightarrow> rat \<Rightarrow> map_page \<Rightarrow> map_page" where
  "beginDrag i clientX clientY s =
     (case positions s i of
        None \<Rightarrow> s
      | Some pos \<Rightarrow>
          (let s' = s\<lparr>drag := Some \<lparr>dr_nodeId = i, startClientX = clientX, startClientY = clientY,
                 startX = pos_x pos, startY = pos_y pos, currentX = pos_x pos, currentY = pos_y pos\<rparr>\<rparr>
           in if selector_ok i then s'\<lparr>dragging := i # removeAll i (dragging s'), listening := True\<rparr> else s'))"

definition onDragMove :: "rat \<Rightarrow> rat \<Rightarrow> map_page \<Rightarrow> map_page" where
  "onDragMove clientX clientY s =
     (case drag s of
        None \<Rightarrow> s
      | Some d \<Rightarrow>
          (let dx = clientX - startClientX d; dy = clientY - startClientY d;
               s' = s\<lparr>drag := Some (d\<lparr>currentX := startX d + dx, currentY := startY d + dy\<rparr>)\<rparr>
           in if selector_ok (dr_nodeId d) \<and> positions s (dr_nodeId d) \<noteq> None
              then s'\<lparr>transforms := (transforms s')(dr_nodeId d \<mapsto> (dx, dy))\<rparr> else s'))"

definition position_edit :: "string \<Rightarrow> rat \<Rightarrow> rat \<Rightarrow> jsv" where
  "position_edit i x y =
     JObj [(''operation'', JStr ''update_render_hints''),
           (''parameters'', JObj [(''node_id'', JStr i),
              (''render_hints'', JObj [(''position'', JArr [JNum (Fin x), JNum (Fin y)])])])]"

definition onDragEnd :: "map_page \<Rightarrow> map_page \<times> jsv list" where
  "onDragEnd s =
     (case drag s of
        None \<Rightarrow> (s, [])
      | Some d \<Rightarrow>
          (let s' = s\<lparr>drag := None, listening := False\<rparr>
           in if \<not> selector_ok (dr_nodeId d) then (s', [])
              else (s'\<lparr>dragging := removeAll (dr_nodeId d) (dragging s'), status_text := ''edit posted: move '' @ dr_nodeId d\<rparr>,
                    [JObj [(''type'', JStr ''layout.edit''),
                           (''payload'', position_edit (dr_nodeId d) (currentX d) (currentY d))]])))"

definition showTooltip :: "string \<Rightarrow> layout_node \<Rightarrow> map_page \<Rightarrow> map_page" where
  "showTooltip dash node s =
     s\<lparr>tooltip := Some (node_id node @ '' ('' @ node_type node @ '') '' @ dash @ '' '' @
         show_nat (length (node_children node)) @ '' child(ren)'')\<rparr>"

text \<open>A mouse event in the drawing reaches the nodes around the pointer from the innermost outwards
  (\<open>path\<close>), then the window.\<close>

datatype map_event =
    Layout_message int layout_node rat
  | Graph_message agent_graph
  | Other_message
  | Mouse_down "layout_node list" rat rat
  | Mouse_move "layout_node list" rat rat
  | Mouse_leave
  | Mouse_up
  | Resize rat

definition map_step :: "string \<Rightarrow> map_event \<Rightarrow> map_page \<Rightarrow> map_page \<times> jsv list" where
  "map_step dash ev s =
     (case ev of
        Layout_message version tree innerWidth \<Rightarrow> (onLayoutUpdate version tree innerWidth s, [])
      | Graph_message g \<Rightarrow> (renderOverlay (s\<lparr>agentOverlay := Some g\<rparr>), [])
      | Other_message \<Rightarrow> (s, [])
      | Mouse_down path x y \<Rightarrow> (fold (\<lambda>n. beginDrag (node_id n) x y) (filter (\<lambda>n. node_type n = ''zone'') path) s, [])
      | Mouse_move path x y \<Rightarrow>
          (let s' = fold (showTooltip dash) path s in (if listening s' then onDragMove x y s' else s', []))
      | Mouse_leave \<Rightarrow> (s\<lparr>tooltip := None\<rparr>, [])
      | Mouse_up \<Rightarrow> if listening s then onDragEnd s else (s, [])
      | Resize innerWidth \<Rightarrow> (onResize innerWidth s, []))"

fun map_run :: "string \<Rightarrow> map_event list \<Rightarrow> map_page \<Rightarrow> map_page \<times> jsv list" where
  "map_run dash [] s = (s, [])"
| "map_run dash (ev # evs) s =
     (case map_step dash ev s of (s', out) \<Rightarrow> (case map_run dash evs s' of (s'', out') \<Rightarrow> (s'', out @ out')))"

subsection \<open>Lemmas on the layout\<close>

text \<open>The nodes that are laid out: a file is a leaf whatever its children.\<close>

fun subnodes :: "layout_node \<Rightarrow> layout_node list" where
  "subnodes (Layout_node i ty hints cs) =
     Layout_node i ty hints cs # (if ty = ''file'' then [] else concat (map subnodes cs))"

abbreviation node_ids :: "layout_node \<Rightarrow> string list" where
  "node_ids n \<equiv> map node_id (subnodes n)"

text \<open>The positions computed for a list of nodes: one for each, at its hint where it has one.\<close>

definition pinned :: "position_map \<Rightarrow> layout_node \<Rightarrow> bool" where
  "pinned d m \<longleftrightarrow>
     (case readPositionHint m of
        None \<Rightarrow> True
      | Some h \<Rightarrow> (case d (node_id m) of Some p \<Rightarrow> pos_x p = fst h \<and> pos_y p = snd h | None \<Rightarrow> False))"

definition lays_out :: "layout_node list \<Rightarrow> position_map \<Rightarrow> bool" where
  "lays_out ms d \<longleftrightarrow> dom d = node_id ` set ms \<and> (distinct (map node_id ms) \<longrightarrow> (\<forall>m \<in> set ms. pinned d m))"

lemma pinned_add: "pinned d m \<Longrightarrow> node_id m \<notin> dom d' \<Longrightarrow> pinned (d ++ d') m"
  by (simp add: pinned_def map_add_dom_app_simps(3) split: option.splits)

lemma pinned_add_right: "pinned d' m \<Longrightarrow> node_id m \<in> dom d' \<Longrightarrow> pinned (d ++ d') m"
  by (simp add: pinned_def map_add_dom_app_simps(1) split: option.splits)

lemma pinned_upd: "node_id m \<noteq> i \<Longrightarrow> pinned (d(i \<mapsto> p)) m = pinned d m"
  by (simp add: pinned_def split: option.splits)

lemma lays_out_append: "lays_out ms d \<Longrightarrow> lays_out ms' d' \<Longrightarrow> lays_out (ms @ ms') (d ++ d')"
  using pinned_add[of d _ d'] pinned_add_right[of d' _ d] unfolding lays_out_def by (auto simp: disjoint_iff)

lemma lays_out_again:
  assumes "lays_out ms d" "lays_out ms d'"
  shows "d ++ d' = d'"
proof
  show "(d ++ d') i = d' i" for i
    using assms by (cases "i \<in> dom d'") (auto simp: lays_out_def map_add_dom_app_simps domIff map_add_def split: option.splits)
qed

definition laid_out :: "(position_map \<Rightarrow> 'a \<times> position_map) \<Rightarrow> layout_node list \<Rightarrow> bool" where
  "laid_out f ms \<longleftrightarrow> (\<exists>a d. (\<forall>ps. f ps = (a, ps ++ d)) \<and> lays_out ms d)"

lemma laid_outE:
  assumes "laid_out f ms"
  obtains a d where "\<forall>ps. f ps = (a, ps ++ d)" "lays_out ms d"
  using assms unfolding laid_out_def by blast

lemma laid_outI: "\<forall>ps. f ps = (a, ps ++ d) \<Longrightarrow> lays_out ms d \<Longrightarrow> laid_out f ms"
  unfolding laid_out_def by blast

lemma layout_column_laid_out:
  "(\<And>c x y w. c \<in> set cs \<Longrightarrow> laid_out (layoutTree c x y w) (subnodes c)) \<Longrightarrow>
   laid_out (layout_column cs x y w mw) (concat (map subnodes cs))"
proof (induction cs arbitrary: y mw)
  case Nil
  then show ?case by (auto simp: laid_out_def lays_out_def intro!: exI[of _ "\<lambda>_. None"])
next
  case (Cons c cs)
  have head: "laid_out (layoutTree c x y w) (subnodes c)" by (rule Cons.prems) simp
  have tail: "laid_out (layout_column cs x y' w mw') (concat (map subnodes cs))" for y' mw'
    by (rule Cons.IH) (use Cons.prems in auto)
  obtain a d where c: "\<forall>ps. layoutTree c x y w ps = (a, ps ++ d)" "lays_out (subnodes c) d" by (rule laid_outE[OF head])
  obtain r e
    where r: "\<forall>ps. layout_column cs x (pos_y a + pos_height a + PADDING / 2) w (max mw (pos_width a)) ps = (r, ps ++ e)"
      "lays_out (concat (map subnodes cs)) e"
    by (rule laid_outE[OF tail])
  have "\<forall>ps. layout_column (c # cs) x y w mw ps = (r, ps ++ (d ++ e))" by (simp add: c r map_add_assoc)
  from laid_outI[OF this lays_out_append[OF c(2) r(2)]] show ?case by (simp only: list.map concat.simps)
qed

lemma layout_grid_laid_out:
  "(\<And>c x y w. c \<in> set cs \<Longrightarrow> laid_out (layoutTree c x y w) (subnodes c)) \<Longrightarrow>
   laid_out (layout_grid cs ix wrap cx cy rh) (concat (map subnodes cs))"
proof (induction cs arbitrary: cx cy rh)
  case Nil
  then show ?case by (auto simp: laid_out_def lays_out_def intro!: exI[of _ "\<lambda>_. None"])
next
  case (Cons c cs)
  have tail: "laid_out (layout_grid cs ix wrap cx' cy' rh') (concat (map subnodes cs))" for cx' cy' rh'
    by (rule Cons.IH) (use Cons.prems in auto)
  have head: "laid_out (layoutTree c x y w) (subnodes c)" for x y w by (rule Cons.prems) simp
  obtain a d where
    c: "\<forall>ps. layoutTree c cx cy FILE_WIDTH ps = (a, ps ++ d)" "lays_out (subnodes c) d"
    by (rule laid_outE[OF head])
  show ?case
  proof (cases "wrap < cx + pos_width a \<and> cx \<noteq> ix")
    case True
    define rowY where "rowY = cy + (rh + PADDING / 2)"
    obtain b d' where
      b: "\<forall>ps. layoutTree c ix rowY FILE_WIDTH ps = (b, ps ++ d')" "lays_out (subnodes c) d'"
      by (rule laid_outE[OF head])
    obtain r e where
      r: "\<forall>ps. layout_grid cs ix wrap (ix + (pos_width b + PADDING / 2)) rowY (max 0 (pos_height b)) ps = (r, ps ++ e)"
        "lays_out (concat (map subnodes cs)) e"
      by (rule laid_outE[OF tail])
    have "\<forall>ps. layout_grid (c # cs) ix wrap cx cy rh ps = (r, ps ++ (d' ++ e))"
      using True lays_out_again[OF c(2) b(2)]
      by (simp add: c b r Let_def map_add_assoc flip: rowY_def) (metis map_add_assoc)
    from laid_outI[OF this lays_out_append[OF b(2) r(2)]] show ?thesis by (simp only: list.map concat.simps)
  next
    case False
    obtain r e where
      r: "\<forall>ps. layout_grid cs ix wrap (cx + (pos_width a + PADDING / 2)) cy (max rh (pos_height a)) ps = (r, ps ++ e)"
        "lays_out (concat (map subnodes cs)) e"
      by (rule laid_outE[OF tail])
    have "\<forall>ps. layout_grid (c # cs) ix wrap cx cy rh ps = (r, ps ++ (d ++ e))"
      using False by (auto simp: c r map_add_assoc)
    from laid_outI[OF this lays_out_append[OF c(2) r(2)]] show ?thesis by (simp only: list.map concat.simps)
  qed
qed

lemma laid_out_root:
  assumes "laid_out f (if ty = ''file'' then [] else concat (map subnodes cs))"
    and "\<And>r h. readPositionHint (Layout_node i ty hints cs) = Some h \<Longrightarrow> pos_x (g r) = fst h \<and> pos_y (g r) = snd h"
  shows "laid_out (\<lambda>ps. case f ps of (r, ps') \<Rightarrow> (g r, ps'(i \<mapsto> g r))) (subnodes (Layout_node i ty hints cs))"
proof -
  let ?cs = "if ty = ''file'' then [] else concat (map subnodes cs)"
  from assms(1) obtain a d where f: "\<forall>ps. f ps = (a, ps ++ d)" "lays_out ?cs d" by (rule laid_outE)
  let ?n = "Layout_node i ty hints cs"
  have root: "pinned (d(i \<mapsto> g a)) ?n" using assms(2) by (simp add: pinned_def split: option.splits)
  have "lays_out (subnodes ?n) (d(i \<mapsto> g a))"
    unfolding lays_out_def
  proof (intro conjI impI ballI)
    show "dom (d(i \<mapsto> g a)) = node_id ` set (subnodes ?n)" using f(2) by (simp add: lays_out_def)
    show "pinned (d(i \<mapsto> g a)) m" if "distinct (map node_id (subnodes ?n))" "m \<in> set (subnodes ?n)" for m
    proof (cases "m = ?n")
      case False
      with that have m: "m \<in> set ?cs" "node_id m \<noteq> i" by (auto split: if_splits)
      with that f(2) show ?thesis by (auto simp: lays_out_def pinned_upd split: if_splits)
    qed (simp only: root)
  qed
  then show ?thesis unfolding laid_out_def by (intro exI[of _ "g a"] exI[of _ "d(i \<mapsto> g a)"]) (simp add: f map_add_upd)
qed

lemma layoutTree_laid_out: "laid_out (layoutTree n x y w) (subnodes n)"
proof (induction n arbitrary: x y w)
  case (Layout_node i ty hints cs)
  let ?n = "Layout_node i ty hints cs"
  let ?nx = "case readPositionHint ?n of Some h \<Rightarrow> fst h | None \<Rightarrow> x"
  let ?ny = "case readPositionHint ?n of Some h \<Rightarrow> snd h | None \<Rightarrow> y"
  note column = layout_column_laid_out[OF Layout_node.IH] and grid = layout_grid_laid_out[OF Layout_node.IH]
  have leaf: "laid_out (\<lambda>ps. ((), ps)) []" by (rule laid_outI[of _ "()" "\<lambda>_. None"]) (simp_all add: lays_out_def)
  note root = laid_out_root[where i = i and ty = ty and hints = hints and cs = cs]
  show ?case
  proof (cases "ty = ''file'' \<or> cs = []")
    case True
    let ?pos = "\<lparr>pos_x = ?nx, pos_y = ?ny, pos_width = (if ty = ''file'' then FILE_WIDTH else max 64 w),
      pos_height = (if ty = ''file'' then FILE_HEIGHT else NODE_HEIGHT_DEFAULT)\<rparr>"
    have "laid_out (\<lambda>ps. case ((), ps) of (r, ps') \<Rightarrow> (?pos, ps'(i \<mapsto> ?pos))) (subnodes ?n)"
      by (rule root) (use True leaf in auto)
    moreover have "layoutTree ?n x y w = (\<lambda>ps. case ((), ps) of (r, ps') \<Rightarrow> (?pos, ps'(i \<mapsto> ?pos)))"
      using True by (intro ext) (auto simp: Let_def)
    ultimately show ?thesis by simp
  next
    case False
    let ?iw = "max 120 (w - PADDING * 2)"
    let ?iy = "?ny + NODE_HEIGHT_DEFAULT + PADDING / 2"
    let ?col = "layout_column cs (?nx + PADDING) ?iy ?iw ?iw"
    let ?grid = "layout_grid cs (?nx + PADDING) (?nx + ?iw + PADDING) (?nx + PADDING) ?iy 0"
    let ?pw = "\<lambda>r. \<lparr>pos_x = ?nx, pos_y = ?ny, pos_width = snd r + PADDING * 2,
      pos_height = max (NODE_HEIGHT_DEFAULT * 2) (fst r - ?ny + PADDING / 2)\<rparr>"
    let ?pz = "\<lambda>r. \<lparr>pos_x = ?nx, pos_y = ?ny, pos_width = ?iw + PADDING * 2, pos_height = fst r + snd r - ?ny + PADDING\<rparr>"
    let ?pg = "\<lambda>r. \<lparr>pos_x = ?nx, pos_y = ?ny, pos_width = ?iw + PADDING * 2, pos_height = fst r - ?ny + PADDING / 2\<rparr>"
    have c: "laid_out ?col (if ty = ''file'' then [] else concat (map subnodes cs))"
      and g: "laid_out ?grid (if ty = ''file'' then [] else concat (map subnodes cs))"
      using False column grid by simp_all
    have "layoutTree ?n x y w = (\<lambda>ps. case ?col ps of (r, ps') \<Rightarrow> (?pw r, ps'(i \<mapsto> ?pw r)))" if "ty = ''workspace''"
      using that False by (intro ext) (simp add: Let_def split: prod.splits)
    moreover have "layoutTree ?n x y w = (\<lambda>ps. case ?grid ps of (r, ps') \<Rightarrow> (?pz r, ps'(i \<mapsto> ?pz r)))" if "ty = ''zone''"
      using that False by (intro ext) (simp add: Let_def split: prod.splits)
    moreover have "layoutTree ?n x y w = (\<lambda>ps. case ?col ps of (r, ps') \<Rightarrow> (?pg r, ps'(i \<mapsto> ?pg r)))"
      if "ty \<noteq> ''workspace''" "ty \<noteq> ''zone''"
      using that False by (intro ext) (simp add: Let_def split: prod.splits)
    ultimately show ?thesis
      using root[OF c, of ?pw] root[OF g, of ?pz] root[OF c, of ?pg] by (cases "ty = ''workspace''"; cases "ty = ''zone''") simp_all
  qed
qed

lemma layout_page_spec: "dom (layout_page tree w) = set (node_ids tree)"
    "distinct (node_ids tree) \<Longrightarrow> m \<in> set (subnodes tree) \<Longrightarrow> pinned (layout_page tree w) m"
proof -
  let ?w = "getViewportWidth w - PADDING * 2"
  obtain a d where d: "\<forall>ps. layoutTree tree PADDING PADDING ?w ps = (a, ps ++ d)" "lays_out (subnodes tree) d"
    by (rule laid_outE[OF layoutTree_laid_out])
  then have "layout_page tree w = d" by (simp add: layout_page_def)
  with d(2) show "dom (layout_page tree w) = set (node_ids tree)"
    "distinct (node_ids tree) \<Longrightarrow> m \<in> set (subnodes tree) \<Longrightarrow> pinned (layout_page tree w) m"
    by (simp_all add: lays_out_def)
qed

subsection \<open>Every node is drawn once\<close>

definition element_id :: "(string \<times> svg_value) list \<Rightarrow> string list" where
  "element_id attrs = (case map_of attrs ''data-node-id'' of Some (Text_attr i) \<Rightarrow> [i] | _ \<Rightarrow> [])"

fun drawn_ids :: "svg \<Rightarrow> string list" where
  "drawn_ids (Svg_element tag attrs txt es) = element_id attrs @ concat (map drawn_ids es)"

lemma drawn_renderNode:
  "set (node_ids n) \<subseteq> dom ps \<Longrightarrow> (\<And>m. m \<in> set (subnodes n) \<Longrightarrow> node_type m = ''file'' \<Longrightarrow> node_children m = []) \<Longrightarrow>
   concat (map drawn_ids (renderNode ps n)) = node_ids n"
proof (induction n)
  case (Layout_node i ty hints cs)
  from Layout_node.prems(1) obtain pos where pos: "ps i = Some pos" by auto
  have "concat (map drawn_ids (renderNode ps c)) = node_ids c" if "c \<in> set cs" for c
  proof (rule Layout_node.IH[OF that])
    have "ty \<noteq> ''file''" using Layout_node.prems(2)[of "Layout_node i ty hints cs"] that by auto
    then have "set (subnodes c) \<subseteq> set (subnodes (Layout_node i ty hints cs))" using that by auto
    then show "set (node_ids c) \<subseteq> dom ps"
      "\<And>m. m \<in> set (subnodes c) \<Longrightarrow> node_type m = ''file'' \<Longrightarrow> node_children m = []"
      using Layout_node.prems unfolding set_map by blast+
  qed
  then have "concat (map drawn_ids (concat (map (renderNode ps) cs))) = concat (map node_ids cs)"
    by (induction cs) auto
  then show ?case
    using pos Layout_node.prems(2)[of "Layout_node i ty hints cs"]
    by (auto simp: element_id_def node_rect_def node_label_def map_concat o_def)
qed

text \<open>Every node laid out is drawn exactly once, in the order of the tree.\<close>

lemma page_draws_tree:
  assumes "\<And>m. m \<in> set (subnodes tree) \<Longrightarrow> node_type m = ''file'' \<Longrightarrow> node_children m = []"
  shows "map_option drawn_ids (root_group (onLayoutUpdate v tree w s)) = Some (node_ids tree)"
proof -
  have "concat (map drawn_ids (renderNode (layout_page tree w) tree)) = node_ids tree"
    using assms layout_page_spec(1) by (intro drawn_renderNode) auto
  then show ?thesis
    by (simp add: onLayoutUpdate_def render_page_def renderOverlay_def map_root_def element_id_def Let_def split: option.splits)
qed

subsection \<open>Dragging\<close>

definition move_events :: "(layout_node list \<times> rat \<times> rat) list \<Rightarrow> map_event list" where
  "move_events moves = map (\<lambda>(path, x, y). Mouse_move path x y) moves"

definition end_point :: "rat \<times> rat \<Rightarrow> (layout_node list \<times> rat \<times> rat) list \<Rightarrow> rat \<times> rat" where
  "end_point start moves = last (start # map snd moves)"

lemma showTooltip_fields [simp]:
  "drag (fold (showTooltip dash) path s) = drag s" "listening (fold (showTooltip dash) path s) = listening s"
  "positions (fold (showTooltip dash) path s) = positions s"
  by (induction path arbitrary: s) (simp_all add: showTooltip_def)

lemma map_run_append:
  "map_run dash (es @ fs) s = (case map_run dash es s of (s', out) \<Rightarrow> (case map_run dash fs s' of (s'', out') \<Rightarrow> (s'', out @ out')))"
  by (induction es arbitrary: s) (auto split: prod.splits)

text \<open>While the mouse moves, the drag state follows the pointer and nothing is posted.\<close>

lemma moves_follow_pointer:
  assumes "drag s = Some d" "listening s" "selector_ok (dr_nodeId d)"
    and "currentX d = startX d + (fst p - startClientX d)" "currentY d = startY d + (snd p - startClientY d)"
  shows "\<exists>d'. drag (fst (map_run dash (move_events moves) s)) = Some d' \<and> listening (fst (map_run dash (move_events moves) s))
    \<and> snd (map_run dash (move_events moves) s) = [] \<and> dr_nodeId d' = dr_nodeId d
    \<and> currentX d' = startX d + (fst (end_point p moves) - startClientX d)
    \<and> currentY d' = startY d + (snd (end_point p moves) - startClientY d)"
  using assms
proof (induction moves arbitrary: s d p)
  case Nil
  then show ?case by (auto simp: move_events_def end_point_def)
next
  case (Cons m moves)
  obtain path x y where m: "m = (path, x, y)" by (cases m) auto
  let ?s = "onDragMove x y (fold (showTooltip dash) path s)"
  let ?d = "d\<lparr>currentX := startX d + (x - startClientX d), currentY := startY d + (y - startClientY d)\<rparr>"
  have step: "map_run dash (move_events (m # moves)) s = map_run dash (move_events moves) ?s"
    using Cons.prems by (simp add: m move_events_def map_step_def Let_def split: prod.splits)
  have "drag ?s = Some ?d" "listening ?s"
    using Cons.prems by (simp_all add: onDragMove_def Let_def)
  moreover have ep: "end_point p (m # moves) = end_point (x, y) moves" by (simp add: end_point_def m)
  ultimately show ?case using Cons.IH[of ?s ?d "(x, y)"] Cons.prems unfolding step ep by simp
qed

lemma dragged_message:
  assumes "positions s i = Some p" "selector_ok i" "map node_id (filter (\<lambda>n. node_type n = ''zone'') path) = [i]"
    and "end_point (x0, y0) moves = (x1, y1)"
  shows "snd (map_run dash (Mouse_down path x0 y0 # move_events moves @ [Mouse_up]) s)
    = [JObj [(''type'', JStr ''layout.edit''), (''payload'', position_edit i (pos_x p + (x1 - x0)) (pos_y p + (y1 - y0)))]]"
proof -
  let ?d = "\<lparr>dr_nodeId = i, startClientX = x0, startClientY = y0, startX = pos_x p, startY = pos_y p, currentX = pos_x p, currentY = pos_y p\<rparr>"
  let ?s = "fst (map_step dash (Mouse_down path x0 y0) s)"
  obtain z where z: "filter (\<lambda>n. node_type n = ''zone'') path = [z]" "node_id z = i" using assms(3) by auto
  have "?s = beginDrag i x0 y0 s" using z by (simp add: map_step_def)
  then have s: "drag ?s = Some ?d" "listening ?s" using assms(1,2) by (simp_all add: beginDrag_def Let_def)
  obtain d' where d': "drag (fst (map_run dash (move_events moves) ?s)) = Some d'" "listening (fst (map_run dash (move_events moves) ?s))"
      "snd (map_run dash (move_events moves) ?s) = []" "dr_nodeId d' = i"
      "currentX d' = pos_x p + (x1 - x0)" "currentY d' = pos_y p + (y1 - y0)"
    using moves_follow_pointer[OF s, of "(x0, y0)" dash moves] assms(2,4) by auto
  have "snd (map_step dash (Mouse_down path x0 y0) s) = []" by (simp add: map_step_def)
  then show ?thesis
    using d' assms(2) by (simp add: map_run_append map_step_def[of _ Mouse_up] onDragEnd_def Let_def case_prod_unfold)
qed

lemma hinted_position:
  assumes "distinct (node_ids tree)" "z \<in> set (subnodes tree)" "readPositionHint z = Some (a, b)"
  shows "\<exists>q. positions (onLayoutUpdate v tree w s) (node_id z) = Some q \<and> pos_x q = a \<and> pos_y q = b"
proof -
  have "pinned (layout_page tree w) z" using assms by (intro layout_page_spec(2)) auto
  moreover have "positions (onLayoutUpdate v tree w s) = layout_page tree w"
    by (simp add: onLayoutUpdate_def render_page_def renderOverlay_def Let_def split: option.splits)
  ultimately show ?thesis using assms(3) by (auto simp: pinned_def split: option.splits)
qed

text \<open>C39. Dragging a zone: a drag that starts in exactly one zone posts exactly one edit, when the mouse
  is released, moving that zone by the way the mouse went; and once a layout update carries the
  position of that edit as the hint of the zone, the zone is laid out exactly there.\<close>

theorem drag_moves_zone:
  assumes "positions s i = Some p" "selector_ok i" "map node_id (filter (\<lambda>n. node_type n = ''zone'') path) = [i]"
    and "end_point (x0, y0) moves = (x1, y1)"
  shows "\<exists>edit. snd (map_run dash (Mouse_down path x0 y0 # move_events moves @ [Mouse_up]) s)
      = [JObj [(''type'', JStr ''layout.edit''), (''payload'', edit)]]
    \<and> edit = position_edit i (pos_x p + (x1 - x0)) (pos_y p + (y1 - y0))
    \<and> (\<forall>tree z v w s'. distinct (node_ids tree) \<and> z \<in> set (subnodes tree) \<and> node_id z = i
         \<and> jprop (render_hints z) ''position'' = jprop (jprop (jprop edit ''parameters'') ''render_hints'') ''position''
         \<longrightarrow> (\<exists>q. positions (onLayoutUpdate v tree w s') i = Some q \<and> pos_x q = pos_x p + (x1 - x0) \<and> pos_y q = pos_y p + (y1 - y0)))"
proof (intro exI[of _ "position_edit i (pos_x p + (x1 - x0)) (pos_y p + (y1 - y0))"] conjI allI impI)
  show "snd (map_run dash (Mouse_down path x0 y0 # move_events moves @ [Mouse_up]) s)
    = [JObj [(''type'', JStr ''layout.edit''), (''payload'', position_edit i (pos_x p + (x1 - x0)) (pos_y p + (y1 - y0)))]]"
    using assms by (rule dragged_message)
next
  fix tree z v w s'
  assume a: "distinct (node_ids tree) \<and> z \<in> set (subnodes tree) \<and> node_id z = i \<and> jprop (render_hints z) ''position''
    = jprop (jprop (jprop (position_edit i (pos_x p + (x1 - x0)) (pos_y p + (y1 - y0))) ''parameters'') ''render_hints'') ''position''"
  then have "readPositionHint z = Some (pos_x p + (x1 - x0), pos_y p + (y1 - y0))"
    by (simp add: readPositionHint_def position_edit_def js_get_def)
  then show "\<exists>q. positions (onLayoutUpdate v tree w s') i = Some q \<and> pos_x q = pos_x p + (x1 - x0) \<and> pos_y q = pos_y p + (y1 - y0)"
    using hinted_position a by blast
qed simp

definition demo_file :: layout_node where
  "demo_file = Layout_node ''f'' ''file'' JUndef []"

definition demo_zone :: layout_node where
  "demo_zone = Layout_node ''z'' ''zone'' JUndef [demo_file]"

definition demo_tree :: layout_node where
  "demo_tree = Layout_node ''w'' ''workspace'' JUndef [demo_zone]"

definition demo_page :: map_page where
  "demo_page = onLayoutUpdate 1 demo_tree 800 (initial_page ''..'')"

theorem drag_moves_zone_witness:
  "snd (map_run ''-'' (Mouse_down [demo_file, demo_zone, demo_tree] 30 50 # move_events [([demo_zone, demo_tree], 40, 45), ([], 130, 40)] @ [Mouse_up])
     demo_page)
   = [JObj [(''type'', JStr ''layout.edit''), (''payload'', position_edit ''z'' (24 + (130 - 30)) (46 + (40 - 50)))]]"
proof -
  let ?p = "\<lparr>pos_x = 24, pos_y = 46, pos_width = 752, pos_height = 70\<rparr> :: node_position"
  have p: "positions demo_page ''z'' = Some ?p" by code_simp
  have ok: "selector_ok ''z''" by code_simp
  have z: "map node_id (filter (\<lambda>n. node_type n = ''zone'') [demo_file, demo_zone, demo_tree]) = [''z'']"
    by (simp add: demo_file_def demo_zone_def demo_tree_def)
  have e: "end_point (30, 50) [([demo_zone, demo_tree], 40, 45), ([], 130, 40)] = (130, 40)" by (simp add: end_point_def)
  from drag_moves_zone[OF p ok z e, of "''-''"] show ?thesis by (simp only: node_position.simps) blast
qed

subsection \<open>Nested nodes\<close>

lemma beginDrag_positions [simp]: "positions (fold (\<lambda>n. beginDrag (node_id n) x y) ns s) = positions s"
proof (induction ns arbitrary: s)
  case (Cons n ns)
  have "positions (beginDrag (node_id n) x y s) = positions s"
    by (simp add: beginDrag_def Let_def split: option.splits)
  with Cons show ?case by simp
qed simp

text \<open>The handlers do not stop the event, so a drag that starts in nested zones moves the outermost
  one, and the tooltip is always that of the outermost node, the root.\<close>

lemma outermost_zone_dragged:
  assumes "filter (\<lambda>n. node_type n = ''zone'') path = zs @ [z]" "positions s (node_id z) = Some p"
  shows "map_option dr_nodeId (drag (fst (map_step dash (Mouse_down path x y) s))) = Some (node_id z)"
  using assms by (simp add: map_step_def beginDrag_def Let_def)

lemma tooltip_of_outermost:
  assumes "path \<noteq> []"
  shows "tooltip (fst (map_step dash (Mouse_move path x y) s)) = tooltip (showTooltip dash (last path) s)"
proof -
  have "tooltip (fold (showTooltip dash) path s) = tooltip (showTooltip dash (last path) s)"
    using assms by (induction path rule: rev_induct) (simp_all add: showTooltip_def)
  moreover have "tooltip (onDragMove x y t) = tooltip t" for t by (simp add: onDragMove_def Let_def split: option.splits)
  ultimately show ?thesis by (simp add: map_step_def Let_def)
qed

text \<open>A zone two levels inside another is as wide as the zone around it and sticks out of it.\<close>

lemma nested_zone_sticks_out:
  "let f = layout_page (Layout_node ''a'' ''zone'' JUndef [Layout_node ''b'' ''zone'' JUndef [Layout_node ''c'' ''zone'' JUndef [demo_file]]]) 800;
       b = the (f ''b''); c = the (f ''c'')
   in pos_x b + pos_width b < pos_x c + pos_width c"
  by code_simp

text \<open>A node hinted above its parent gives a generic parent a negative height.\<close>

lemma negative_height:
  "pos_height (the (layout_page (Layout_node ''a'' ''agent'' JUndef
     [Layout_node ''b'' ''file'' (JObj [(''position'', JArr [JNum (Fin 0), JNum (Fin (-100))])]) []]) 800 ''a'')) < 0"
  by code_simp

end
