(* ===== verification/Map_Panel.thy ===== *)
theory Map_Panel
  imports Map_Layout Router
begin

section \<open>Map view host (\<open>webviews/map-view-panel.ts\<close>, \<open>llmnb.openMapView\<close>)\<close>

text \<open>
  The panel that shows the map page, and the command of \<open>extension.ts\<close> that opens it and connects it
  to the router. Panels are numbered in the order they are created; the state keeps every panel
  ever created, the one in \<open>MapViewPanel.current\<close>, and the wiring of the command: the panels behind the
  registered map observers and those whose edits are listened to. Payloads are JSON values as the
  router hands them over; logging reads into them and throws when they lack the field.
\<close>

record map_panel =
  lastLayout :: "jsv option"
  lastGraph :: "jsv option"
  panel_disposed :: bool

record map_host =
  panels :: "map_panel list"
  current :: "nat option"
  observing :: "nat list"
  edit_listeners :: "nat list"

datatype panel_effect =
    Create_panel nat
  | Reveal_panel nat
  | Post_to_page nat jsv
  | Enqueue jsv
  | Panel_warn string
  | Panel_debug string
  | Panel_threw

definition initial_host :: map_host where
  "initial_host = \<lparr>panels = [], current = None, observing = [], edit_listeners = []\<rparr>"

definition new_panel :: map_panel where
  "new_panel = \<lparr>lastLayout = None, lastGraph = None, panel_disposed = False\<rparr>"

definition live :: "nat \<Rightarrow> map_host \<Rightarrow> bool" where
  "live i h \<longleftrightarrow> i < length (panels h) \<and> \<not> panel_disposed (panels h ! i)"

definition update_panel :: "nat \<Rightarrow> (map_panel \<Rightarrow> map_panel) \<Rightarrow> map_host \<Rightarrow> map_host" where
  "update_panel i f h = h\<lparr>panels := (panels h)[i := f (panels h ! i)]\<rparr>"

subsection \<open>Lifecycle\<close>

definition show_panel :: "map_host \<Rightarrow> nat \<times> map_host \<times> panel_effect list" where
  "show_panel h =
     (let fresh = length (panels h)
      in case current h of
           Some i \<Rightarrow>
             if live i h then (i, h, [Reveal_panel i])
             else (fresh, h\<lparr>panels := panels h @ [new_panel], current := Some fresh\<rparr>, [Create_panel fresh])
         | None \<Rightarrow> (fresh, h\<lparr>panels := panels h @ [new_panel], current := Some fresh\<rparr>, [Create_panel fresh]))"

definition openMapView :: "map_host \<Rightarrow> map_host \<times> panel_effect list" where
  "openMapView h =
     (case show_panel h of (i, h', out) \<Rightarrow>
        (h'\<lparr>observing := observing h' @ [i], edit_listeners := edit_listeners h' @ [i]\<rparr>, out))"

definition dispose_panel :: "nat \<Rightarrow> map_host \<Rightarrow> map_host" where
  "dispose_panel i h =
     (if \<not> live i h then h
      else (update_panel i (\<lambda>p. p\<lparr>panel_disposed := True\<rparr>) h)\<lparr>current := (if current h = Some i then None else current h)\<rparr>)"

subsection \<open>From the kernel to the page\<close>

definition page_message :: "string \<Rightarrow> jsv \<Rightarrow> jsv" where
  "page_message ty payload = JObj [(''type'', JStr ty), (''payload'', payload)]"

definition applyLayoutUpdate :: "jsv \<Rightarrow> nat \<Rightarrow> map_host \<Rightarrow> map_host \<times> panel_effect list" where
  "applyLayoutUpdate payload i h =
     (if \<not> live i h then (h, [])
      else (update_panel i (\<lambda>p. p\<lparr>lastLayout := Some payload\<rparr>) h,
            if nullish payload \<or> nullish (jprop payload ''tree'') then [Panel_threw]
            else [Post_to_page i (page_message ''layout.update'' payload)]))"

definition applyAgentGraphResponse :: "jsv \<Rightarrow> nat \<Rightarrow> map_host \<Rightarrow> map_host \<times> panel_effect list" where
  "applyAgentGraphResponse payload i h =
     (if \<not> live i h then (h, [])
      else (update_panel i (\<lambda>p. p\<lparr>lastGraph := Some payload\<rparr>) h,
            if nullish payload \<or> nullish (jprop payload ''nodes'') \<or> nullish (jprop payload ''edges'') then [Panel_threw]
            else [Post_to_page i (page_message ''agent_graph.response'' payload)]))"

text \<open>The router calls its observers in order; an exception ends the delivery.\<close>

fun notify_observers :: "(nat \<Rightarrow> map_host \<Rightarrow> map_host \<times> panel_effect list) \<Rightarrow> nat list \<Rightarrow> map_host \<Rightarrow> map_host \<times> panel_effect list" where
  "notify_observers f [] h = (h, [])"
| "notify_observers f (i # is) h =
     (case f i h of (h', out) \<Rightarrow>
        if Panel_threw \<in> set out then (h', out)
        else (case notify_observers f is h' of (h'', out') \<Rightarrow> (h'', out @ out')))"

definition view_state_changed :: "nat \<Rightarrow> bool \<Rightarrow> map_host \<Rightarrow> panel_effect list" where
  "view_state_changed i visible h =
     (if \<not> live i h \<or> \<not> visible then []
      else (case lastLayout (panels h ! i) of Some p \<Rightarrow> if truthy p then [Post_to_page i (page_message ''layout.update'' p)] else [] | None \<Rightarrow> []) @
           (case lastGraph (panels h ! i) of Some p \<Rightarrow> if truthy p then [Post_to_page i (page_message ''agent_graph.response'' p)] else [] | None \<Rightarrow> []))"

subsection \<open>From the page to the kernel\<close>

definition is_object :: "jsv \<Rightarrow> bool" where
  "is_object v \<longleftrightarrow> (case v of JObj _ \<Rightarrow> True | JArr _ \<Rightarrow> True | _ \<Rightarrow> False)"

definition layout_edit_envelope :: "string \<Rightarrow> jsv \<Rightarrow> jsv" where
  "layout_edit_envelope uuid payload =
     JObj [(''type'', JStr ''layout.edit''), (''correlation_id'', JStr uuid), (''payload'', payload)]"

text \<open>\<open>uuid\<close> numbers the random ids drawn.\<close>

definition handleWebviewMessage :: "(nat \<Rightarrow> string) \<Rightarrow> nat \<Rightarrow> jsv \<Rightarrow> map_host \<Rightarrow> panel_effect list" where
  "handleWebviewMessage uuid i raw h =
     (if \<not> live i h then []
      else if \<not> is_object raw \<or> \<not> is_string (jprop raw ''type'') then [Panel_warn ''[map-view] discarded webview message: not an object'']
      else if jprop raw ''type'' = JStr ''layout.edit'' \<and> is_object (jprop raw ''payload'') then
        (let payload = jprop raw ''payload'' in
         if \<not> is_string (jprop payload ''operation'') \<or> \<not> is_object (jprop payload ''parameters'') then
           [Panel_warn ''[map-view] malformed layout.edit from webview'']
         else map (\<lambda>(k, l). Enqueue (layout_edit_envelope (uuid k) payload))
                (enumerate 0 (filter (\<lambda>l. l = i) (edit_listeners h))))
      else [Panel_debug (''[map-view] ignoring webview message: type='' @ str_of (jprop raw ''type''))])"

datatype host_event =
    Open_map
  | Layout_in jsv
  | Graph_in jsv
  | Page_message nat jsv
  | View_state nat bool
  | Close_map nat

definition host_step :: "(nat \<Rightarrow> string) \<Rightarrow> host_event \<Rightarrow> map_host \<Rightarrow> map_host \<times> panel_effect list" where
  "host_step uuid ev h =
     (case ev of
        Open_map \<Rightarrow> openMapView h
      | Layout_in p \<Rightarrow> notify_observers (applyLayoutUpdate p) (observing h) h
      | Graph_in p \<Rightarrow> notify_observers (applyAgentGraphResponse p) (observing h) h
      | Page_message i raw \<Rightarrow> (h, handleWebviewMessage uuid i raw h)
      | View_state i visible \<Rightarrow> (h, view_state_changed i visible h)
      | Close_map i \<Rightarrow> (dispose_panel i h, []))"

fun host_run :: "(nat \<Rightarrow> string) \<Rightarrow> host_event list \<Rightarrow> map_host \<Rightarrow> map_host" where
  "host_run uuid [] h = h"
| "host_run uuid (ev # evs) h = host_run uuid evs (fst (host_step uuid ev h))"

subsection \<open>Lemmas\<close>

text \<open>At most one panel is alive, and it is the current one.\<close>

definition host_ok :: "map_host \<Rightarrow> bool" where
  "host_ok h \<longleftrightarrow>
     (\<forall>i. live i h \<longleftrightarrow> current h = Some i) \<and> edit_listeners h = observing h \<and> (\<forall>i \<in> set (observing h). i < length (panels h))"

lemma update_panel_fields [simp]:
  "current (update_panel i f h) = current h" "observing (update_panel i f h) = observing h"
  "edit_listeners (update_panel i f h) = edit_listeners h" "length (panels (update_panel i f h)) = length (panels h)"
  by (simp_all add: update_panel_def)

lemma live_update_panel:
  assumes "\<And>p. panel_disposed (f p) = panel_disposed p"
  shows "live j (update_panel i f h) = live j h"
proof (cases "j < length (panels h)")
  case True
  then have "panel_disposed ((panels h)[i := f (panels h ! i)] ! j) = panel_disposed (panels h ! j)"
    by (cases "i = j") (simp_all add: assms)
  then show ?thesis by (simp add: live_def update_panel_def)
qed (simp add: live_def update_panel_def)

lemma host_ok_update_panel: "(\<And>p. panel_disposed (f p) = panel_disposed p) \<Longrightarrow> host_ok h \<Longrightarrow> host_ok (update_panel i f h)"
  by (simp add: host_ok_def live_update_panel)

lemma live_new_panel: "live i (h\<lparr>panels := panels h @ [new_panel], current := c\<rparr>) \<longleftrightarrow> live i h \<or> i = length (panels h)"
  by (auto simp: live_def new_panel_def nth_append less_Suc_eq)

definition keeps_wiring :: "map_host \<Rightarrow> map_host \<Rightarrow> bool" where
  "keeps_wiring h h' \<longleftrightarrow> current h' = current h \<and> observing h' = observing h \<and> edit_listeners h' = edit_listeners h
     \<and> length (panels h') = length (panels h) \<and> (\<forall>i. live i h' = live i h)"

lemma keeps_wiring_ok: "keeps_wiring h h' \<Longrightarrow> host_ok h \<Longrightarrow> host_ok h'"
  by (simp add: keeps_wiring_def host_ok_def)

lemma applied_keeps_wiring:
  "keeps_wiring h (fst (applyLayoutUpdate p i h))" "keeps_wiring h (fst (applyAgentGraphResponse p i h))"
  by (simp_all add: applyLayoutUpdate_def applyAgentGraphResponse_def keeps_wiring_def live_update_panel)

lemma notify_keeps_wiring:
  "(\<And>i h. keeps_wiring h (fst (f i h))) \<Longrightarrow> keeps_wiring h (fst (notify_observers f is h))"
proof (induction "is" arbitrary: h)
  case (Cons i "is")
  obtain h' out where f: "f i h = (h', out)" by force
  with Cons.prems[of h i] Cons.IH[OF Cons.prems, of h'] show ?case
    by (auto simp: keeps_wiring_def split: prod.splits)
qed (simp add: keeps_wiring_def)

lemma step_keeps_wiring:
  "\<forall>i. ev \<noteq> Close_map i \<Longrightarrow> ev \<noteq> Open_map \<Longrightarrow> keeps_wiring h (fst (host_step uuid ev h))"
  using notify_keeps_wiring[OF applied_keeps_wiring(1)] notify_keeps_wiring[OF applied_keeps_wiring(2)]
  by (cases ev) (simp_all add: host_step_def keeps_wiring_def)

lemma host_ok_show:
  assumes "host_ok h" "show_panel h = (i, h', out)"
  shows "host_ok h'" "live i h'" "i = (case current h of Some j \<Rightarrow> j | None \<Rightarrow> length (panels h))"
    "observing h' = observing h" "edit_listeners h' = edit_listeners h" "length (panels h) \<le> length (panels h')"
  using assms
  by (auto simp: show_panel_def host_ok_def live_new_panel Let_def less_Suc_eq split: option.splits if_splits)

lemma host_ok_open:
  assumes "host_ok h"
  shows "host_ok (fst (openMapView h))"
proof -
  obtain i h' out where s: "show_panel h = (i, h', out)" by (rule prod_cases3)
  note o = host_ok_show[OF assms s]
  have "live j (h'\<lparr>observing := obs, edit_listeners := ls\<rparr>) = live j h'" for j obs ls by (simp add: live_def)
  then show ?thesis using o by (auto simp: openMapView_def s host_ok_def live_def)
qed

lemma live_dispose_panel: "live j (dispose_panel i h) \<longleftrightarrow> live j h \<and> j \<noteq> i"
  by (cases "i = j") (auto simp: dispose_panel_def live_def update_panel_def)

lemma host_ok_dispose:
  assumes "host_ok h"
  shows "host_ok (dispose_panel i h)"
proof -
  have "current (dispose_panel i h) = (if current h = Some i then None else current h)"
    using assms by (auto simp: dispose_panel_def host_ok_def)
  moreover have "observing (dispose_panel i h) = observing h" "edit_listeners (dispose_panel i h) = edit_listeners h"
    "length (panels (dispose_panel i h)) = length (panels h)"
    by (simp_all add: dispose_panel_def)
  ultimately show ?thesis using assms by (auto simp: host_ok_def live_dispose_panel)
qed

lemma host_ok_step:
  assumes "host_ok h"
  shows "host_ok (fst (host_step uuid ev h))"
proof -
  consider "ev = Open_map" | i where "ev = Close_map i" | "ev \<noteq> Open_map" "\<forall>i. ev \<noteq> Close_map i" by blast
  then show ?thesis
  proof cases
    case 3
    then show ?thesis using keeps_wiring_ok[OF step_keeps_wiring assms] by simp
  qed (simp_all add: host_step_def host_ok_open host_ok_dispose assms)
qed

lemma host_ok_run: "host_ok h \<Longrightarrow> host_ok (host_run uuid evs h)"
  by (induction evs arbitrary: h) (simp_all add: host_ok_step)

lemma host_run_append: "host_run uuid (es @ fs) h = host_run uuid fs (host_run uuid es h)"
  by (induction es arbitrary: h) simp_all

lemma host_ok_initial: "host_ok initial_host"
  by (simp add: host_ok_def initial_host_def live_def)

lemma open_count:
  assumes "host_ok h" "current h = Some i"
  shows "current (fst (openMapView h)) = Some i"
    "count_list (edit_listeners (fst (openMapView h))) i = Suc (count_list (edit_listeners h) i)"
proof -
  have "live i h" using assms by (simp add: host_ok_def)
  then show "current (fst (openMapView h)) = Some i"
    "count_list (edit_listeners (fst (openMapView h))) i = Suc (count_list (edit_listeners h) i)"
    using assms by (simp_all add: openMapView_def show_panel_def)
qed

lemma run_count:
  assumes "host_ok h" "current h = Some i" "\<forall>j. Close_map j \<notin> set evs"
  shows "current (host_run uuid evs h) = Some i"
    and "count_list (edit_listeners (host_run uuid evs h)) i = count_list (edit_listeners h) i + count_list evs Open_map"
proof -
  have "current (host_run uuid evs h) = Some i \<and>
      count_list (edit_listeners (host_run uuid evs h)) i = count_list (edit_listeners h) i + count_list evs Open_map"
    using assms
  proof (induction evs arbitrary: h)
    case (Cons ev evs)
    let ?h = "fst (host_step uuid ev h)"
    have ok: "host_ok ?h" using Cons.prems(1) by (rule host_ok_step)
    have "current ?h = Some i \<and> count_list (edit_listeners ?h) i = count_list (edit_listeners h) i + (if ev = Open_map then 1 else 0)"
    proof (cases "ev = Open_map")
      case True
      then show ?thesis using open_count[OF Cons.prems(1,2)] by (simp add: host_step_def)
    next
      case False
      moreover have "\<forall>j. ev \<noteq> Close_map j" using Cons.prems(3) by auto
      ultimately have "keeps_wiring h ?h" by (intro step_keeps_wiring)
      with False Cons.prems(2) show ?thesis by (simp add: keeps_wiring_def)
    qed
    with Cons.IH[OF ok] Cons.prems(3) show ?case by auto
  qed simp
  then show "current (host_run uuid evs h) = Some i"
    "count_list (edit_listeners (host_run uuid evs h)) i = count_list (edit_listeners h) i + count_list evs Open_map" by blast+
qed

lemma enqueued_edits:
  assumes "live i h"
  shows "handleWebviewMessage uuid i (JObj [(''type'', JStr ''layout.edit''), (''payload'', position_edit z x y)]) h
    = map (\<lambda>k. Enqueue (layout_edit_envelope (uuid k) (position_edit z x y))) [0..<count_list (edit_listeners h) i]"
proof -
  have "filter (\<lambda>l. l = i) ls = replicate (count_list ls i) i" for ls by (induction ls) auto
  moreover have "map (\<lambda>(k, l). Enqueue (layout_edit_envelope (uuid k) p)) (enumerate 0 (replicate n i))
      = map (\<lambda>k. Enqueue (layout_edit_envelope (uuid k) p)) [0..<n]" for n p
    by (rule nth_equalityI) (simp_all add: nth_enumerate_eq)
  ultimately show ?thesis using assms
    by (simp add: handleWebviewMessage_def position_edit_def js_get_def is_object_def Let_def)
qed

text \<open>C20. A dragged zone reaches the kernel: for a panel opened while there is none, as long as it is not
  closed, it is the only live panel, and a drag in its page enqueues the position edit of that drag as
  a \<open>layout.edit\<close> envelope once for every invocation of the command since the panel was created (the
  command wires the panel up anew each time), so exactly once when it was invoked once.\<close>

theorem map_edits_enqueued:
  assumes "current (host_run uuid before initial_host) = None" "\<forall>j. Close_map j \<notin> set after"
    and "positions s z = Some p" "selector_ok z" "map node_id (filter (\<lambda>n. node_type n = ''zone'') path) = [z]"
    and "end_point (x0, y0) moves = (x1, y1)"
  shows "let h = host_run uuid (before @ Open_map # after) initial_host;
             i = length (panels (host_run uuid before initial_host))
         in (\<forall>j. live j h \<longleftrightarrow> j = i) \<and>
            concat (map (\<lambda>msg. handleWebviewMessage uuid i msg h)
              (snd (map_run dash (Mouse_down path x0 y0 # move_events moves @ [Mouse_up]) s)))
            = map (\<lambda>k. Enqueue (layout_edit_envelope (uuid k) (position_edit z (pos_x p + (x1 - x0)) (pos_y p + (y1 - y0)))))
                [0..<Suc (count_list after Open_map)]"
proof -
  let ?start = "host_run uuid before initial_host"
  let ?i = "length (panels ?start)"
  let ?opened = "fst (openMapView ?start)"
  let ?final = "host_run uuid after ?opened"
  have ok: "host_ok ?start" by (rule host_ok_run[OF host_ok_initial])
  have run: "host_run uuid (before @ Open_map # after) initial_host = ?final"
    by (simp add: host_run_append host_step_def)
  have fresh: "?i \<notin> set (edit_listeners ?start)" using ok by (auto simp: host_ok_def)
  have h1: "current ?opened = Some ?i" "count_list (edit_listeners ?opened) ?i = 1"
    using assms(1) fresh by (simp_all add: openMapView_def show_panel_def Let_def count_list_0_iff)
  note r = run_count[OF host_ok_open[OF ok] h1(1) assms(2)]
  have okh: "host_ok ?final" by (rule host_ok_run[OF host_ok_open[OF ok]])
  have live: "\<forall>j. live j ?final \<longleftrightarrow> j = ?i"
    using okh r(1) unfolding host_ok_def by auto
  show ?thesis
    using live enqueued_edits r(2) h1(2) dragged_message[OF assms(3-6)] by (simp add: run Let_def del: upt_Suc)
qed

theorem map_edits_enqueued_witness:
  "concat (map (\<lambda>msg. handleWebviewMessage (\<lambda>k. ''id'' @ show_nat k) 0 msg (host_run (\<lambda>k. ''id'') ([] @ Open_map # [Open_map]) initial_host))
     (snd (map_run ''-'' (Mouse_down [demo_zone, demo_tree] 30 50 # move_events [([demo_zone, demo_tree], 40, 45)] @ [Mouse_up]) demo_page)))
   = map (\<lambda>k. Enqueue (layout_edit_envelope (''id'' @ show_nat k) (position_edit ''z'' (24 + (40 - 30)) (46 + (45 - 50))))) [0..<2]"
proof -
  let ?p = "\<lparr>pos_x = 24, pos_y = 46, pos_width = 752, pos_height = 70\<rparr> :: node_position"
  have p: "positions demo_page ''z'' = Some ?p" by code_simp
  have ok: "selector_ok ''z''" by code_simp
  have z: "map node_id (filter (\<lambda>n. node_type n = ''zone'') [demo_zone, demo_tree]) = [''z'']"
    by (simp add: demo_file_def demo_zone_def demo_tree_def)
  have e: "end_point (30, 50) [([demo_zone, demo_tree], 40, 45)] = (40, 45)" by (simp add: end_point_def)
  have c: "current (host_run (\<lambda>k. ''id'' @ show_nat k) [] initial_host) = None" by (simp add: initial_host_def)
  have a: "\<forall>j. Close_map j \<notin> set [Open_map]" by simp
  have r: "host_run (\<lambda>k. ''id'') ([] @ Open_map # [Open_map]) initial_host = host_run (\<lambda>k. ''id'' @ show_nat k) ([] @ Open_map # [Open_map]) initial_host"
    by (simp add: host_step_def)
  have n: "[0..<Suc (count_list [Open_map] Open_map)] = [0..<2]" by (simp add: numeral_2_eq_2)
  show ?thesis
    using map_edits_enqueued[OF c a p ok z e, of "''-''", unfolded Let_def, THEN conjunct2]
    unfolding r n node_position.simps host_run.simps(1) by (simp only: initial_host_def map_host.simps list.size(3))
qed

text \<open>A panel that becomes visible again is sent exactly the last layout and the last graph it was given,
  and a closed panel neither sends nor enqueues anything.\<close>

lemma visible_panel_resends:
  "live i h \<Longrightarrow> lastLayout (panels h ! i) = Some l \<Longrightarrow> truthy l \<Longrightarrow> lastGraph (panels h ! i) = Some g \<Longrightarrow> truthy g \<Longrightarrow>
   view_state_changed i True h
     = [Post_to_page i (page_message ''layout.update'' l), Post_to_page i (page_message ''agent_graph.response'' g)]"
  by (simp add: view_state_changed_def)

lemma closed_panel_silent:
  "\<not> live i h \<Longrightarrow> view_state_changed i v h = [] \<and> handleWebviewMessage uuid i raw h = []
     \<and> applyLayoutUpdate p i h = (h, []) \<and> applyAgentGraphResponse p i h = (h, [])"
  by (simp add: view_state_changed_def handleWebviewMessage_def applyLayoutUpdate_def applyAgentGraphResponse_def)

text \<open>After a layout update the page of the live panel has been sent it, once per registration.\<close>

lemma notify_live_layout:
  assumes "live i h" "\<not> nullish p" "\<not> nullish (jprop p ''tree'')" "\<forall>j. live j h \<longrightarrow> j = i"
  shows "snd (notify_observers (applyLayoutUpdate p) is h) = replicate (count_list is i) (Post_to_page i (page_message ''layout.update'' p))"
  using assms
proof (induction "is" arbitrary: h)
  case Nil
  show ?case by simp
next
  case (Cons j "is")
  show ?case
  proof (cases "j = i")
    case False
    then have "applyLayoutUpdate p j h = (h, [])" using Cons.prems(4) closed_panel_silent by blast
    with False Cons.IH[OF Cons.prems] show ?thesis by (simp add: case_prod_unfold)
  next
    case True
    let ?h = "update_panel i (\<lambda>q. q\<lparr>lastLayout := Some p\<rparr>) h"
    have step: "applyLayoutUpdate p j h = (?h, [Post_to_page i (page_message ''layout.update'' p)])"
      using Cons.prems(1-3) by (simp add: True applyLayoutUpdate_def)
    have l: "live k ?h = live k h" for k by (simp add: live_update_panel)
    have "snd (notify_observers (applyLayoutUpdate p) is ?h) = replicate (count_list is i) (Post_to_page i (page_message ''layout.update'' p))"
      using Cons.prems l by (intro Cons.IH) blast+
    with True step show ?thesis by (simp add: case_prod_unfold)
  qed
qed

end
