(* ===== verification/Stub_Kernel.thy ===== *)
theory Stub_Kernel
  imports Controller Metadata_Applier Agent_Decorations "HOL-Library.Word"
begin

unbundle bit_operations_syntax

section \<open>The stub kernel (\<open>extension/src/extension.ts\<close>)\<close>

text \<open>
  The kernel client used for offline development: \<open>StubKernelClient\<close> answers a cell with an open span,
  an \<open>agent_emit\<close> span and a closed span, and sends a metadata snapshot through the router. Random ids
  and the three readings of the clock are arguments. Its output is followed through the notebook
  controller and the metadata applier.
\<close>

subsection \<open>Ids and times\<close>

definition hex_digit :: "nat \<Rightarrow> char" where
  "hex_digit n = ''0123456789abcdef'' ! n"

text \<open>\<open>b.toString(16).padStart(2, '0')\<close> of a byte.\<close>

definition hex_byte :: "8 word \<Rightarrow> string" where
  "hex_byte b = [hex_digit (unat b div 16), hex_digit (unat b mod 16)]"

definition hex_of :: "8 word list \<Rightarrow> string" where
  "hex_of bs = concat (map hex_byte bs)"

text \<open>\<open>random\<close> supplies the bytes that are drawn.\<close>

definition randomHex :: "(nat \<Rightarrow> 8 word) \<Rightarrow> nat \<Rightarrow> string" where
  "randomHex random len = hex_of (map random [0..<len div 2])"

definition fallbackUuid :: "(nat \<Rightarrow> 8 word) \<Rightarrow> string" where
  "fallbackUuid random =
     (let bytes = map random [0..<16];
          bytes = bytes[6 := ((bytes ! 6) AND 0x0F) OR 0x40];
          bytes = bytes[8 := ((bytes ! 8) AND 0x3F) OR 0x80]
      in hex_of (take 4 bytes) @ ''-'' @ hex_of (take 2 (drop 4 bytes)) @ ''-'' @ hex_of (take 2 (drop 6 bytes)) @ ''-'' @
         hex_of (take 2 (drop 8 bytes)) @ ''-'' @ hex_of (take 6 (drop 10 bytes)))"

definition nowUnixNanos :: "nat \<Rightarrow> string" where
  "nowUnixNanos ms = show_nat ms @ ''000000''"

subsection \<open>Spans\<close>

definition attributes_json :: "otlp_attribute list \<Rightarrow> jsv" where
  "attributes_json attrs = JArr (map (\<lambda>(k, v). JObj [(''key'', JStr k), (''value'', any_json v)]) attrs)"

definition stub_status :: "string \<Rightarrow> jsv" where
  "stub_status code = JObj [(''code'', JStr code), (''message'', JStr [])]"

definition json_text :: "jsobj \<Rightarrow> jsv" where
  "json_text kvs = JStr (case JSON_stringify None (JObj kvs) of Some s \<Rightarrow> s | None \<Rightarrow> [])"

definition stub_attributes :: "execute_request \<Rightarrow> jsobj" where
  "stub_attributes q =
     [(''llmnb.run_type'', JStr ''chain''), (''llmnb.agent_id'', JStr ''stub''), (''llmnb.cell_id'', JStr (cellUri q)),
      (''llmnb.tags'', JArr [JStr ''stub-kernel'']), (''input.value'', json_text [(''text'', JStr (cell_text q))]),
      (''input.mime_type'', JStr ''application/json'')]"

definition open_span :: "string \<Rightarrow> string \<Rightarrow> string \<Rightarrow> execute_request \<Rightarrow> jsv" where
  "open_span traceId spanId begun q =
     JObj [(''traceId'', JStr traceId), (''spanId'', JStr spanId), (''name'', JStr ''stub.echo''),
       (''kind'', JStr ''SPAN_KIND_INTERNAL''), (''startTimeUnixNano'', JStr begun), (''endTimeUnixNano'', JNull),
       (''attributes'', attributes_json (encodeAttrs (stub_attributes q))), (''status'', stub_status ''STATUS_CODE_UNSET'')]"

definition emit_span :: "string \<Rightarrow> string \<Rightarrow> string \<Rightarrow> string \<Rightarrow> string \<Rightarrow> jsv" where
  "emit_span traceId emitSpanId spanId begun ended =
     JObj [(''traceId'', JStr traceId), (''spanId'', JStr emitSpanId), (''parentSpanId'', JStr spanId),
       (''name'', JStr ''agent_emit:reasoning''), (''kind'', JStr ''SPAN_KIND_INTERNAL''),
       (''startTimeUnixNano'', JStr begun), (''endTimeUnixNano'', JStr ended),
       (''attributes'', attributes_json (encodeAttrs
          [(''llmnb.run_type'', JStr ''agent_emit''), (''llmnb.agent_id'', JStr ''stub''), (''llmnb.emit_kind'', JStr ''reasoning''),
           (''llmnb.emit_content'', JStr ''Stub kernel: simulated reasoning text for agent_emit renderer surface.'')])),
       (''status'', stub_status ''STATUS_CODE_OK'')]"

definition closed_span :: "string \<Rightarrow> string \<Rightarrow> string \<Rightarrow> string \<Rightarrow> execute_request \<Rightarrow> jsv" where
  "closed_span traceId spanId begun ended q =
     JObj [(''traceId'', JStr traceId), (''spanId'', JStr spanId), (''name'', JStr ''stub.echo''),
       (''kind'', JStr ''SPAN_KIND_INTERNAL''), (''startTimeUnixNano'', JStr begun), (''endTimeUnixNano'', JStr ended),
       (''attributes'', attributes_json (encodeAttrs (stub_attributes q @
          [(''output.value'', json_text [(''acknowledged'', JBool True), (''echo'', JStr (cell_text q))]),
           (''output.mime_type'', JStr ''application/json'')]))),
       (''status'', stub_status ''STATUS_CODE_OK'')]"

subsection \<open>The client\<close>

record stub_kernel =
  snapshotVersion :: nat
  emitAgentEmit :: bool
  emitNotebookMetadata :: bool
  router_attached :: bool
  lastPayloads :: "jsv list"
  lastInboundEnvelopes :: "jsv list"

datatype stub_effect = Sink_emit jsv | Route_inbound jsv | Stub_log log_level string

definition new_stub :: stub_kernel where
  "new_stub = \<lparr>snapshotVersion = 0, emitAgentEmit = True, emitNotebookMetadata = True, router_attached = False,
     lastPayloads = [], lastInboundEnvelopes = []\<rparr>"

definition attachRouter :: "stub_kernel \<Rightarrow> stub_kernel" where
  "attachRouter k = k\<lparr>router_attached := True\<rparr>"

definition stub_isReady :: "stub_kernel \<Rightarrow> bool" where
  "stub_isReady k = router_attached k"

definition stub_sendEnvelope :: "jsv \<Rightarrow> stub_kernel \<Rightarrow> stub_kernel \<times> stub_effect list" where
  "stub_sendEnvelope env k = (k, [Stub_log LDebug (''[stub-kernel] sendEnvelope type='' @ str_of (jprop env ''type''))])"

definition stub_metadata :: "nat \<Rightarrow> jsv \<Rightarrow> jsv" where
  "stub_metadata version sp =
     JObj [(''type'', JStr ''notebook.metadata''),
       (''payload'', JObj [(''mode'', JStr ''snapshot''), (''snapshot_version'', JNum (Fin (of_nat version))),
          (''trigger'', JStr ''end_of_run''),
          (''snapshot'', JObj [(''schema_version'', JStr ''1.0.0''), (''session_id'', JStr ''00000000-0000-4000-8000-000000000000''),
             (''event_log'', JObj [(''version'', JNum (Fin 1)), (''runs'', JArr [sp])])])])]"

text \<open>\<open>route_throws\<close> is the exception of the router, if any.\<close>

definition publish_snapshot :: "string option \<Rightarrow> jsv \<Rightarrow> stub_kernel \<Rightarrow> stub_kernel \<times> stub_effect list" where
  "publish_snapshot route_throws sp k =
     (if emitNotebookMetadata k \<and> router_attached k then
        (let version = Suc (snapshotVersion k); env = stub_metadata version sp
         in (k\<lparr>snapshotVersion := version, lastInboundEnvelopes := lastInboundEnvelopes k @ [env]\<rparr>,
             Route_inbound env # (case route_throws of None \<Rightarrow> []
               | Some err \<Rightarrow> [Stub_log LWarn (''[stub-kernel] notebook.metadata route threw: '' @ err)])))
      else (k, []))"

definition stub_executeCell ::
  "string \<times> string \<times> string \<Rightarrow> string \<times> string \<times> string \<Rightarrow> string option \<Rightarrow> execute_request \<Rightarrow> stub_kernel \<Rightarrow> stub_kernel \<times> stub_effect list" where
  "stub_executeCell ids clocks route_throws q k =
     (let (traceId, spanId, emitSpanId) = ids; (begun, emit_ended, ended) = clocks;
          closed = closed_span traceId spanId begun ended q;
          payloads = [open_span traceId spanId begun q] @
            (if emitAgentEmit k then [emit_span traceId emitSpanId spanId begun emit_ended] else []) @ [closed];
          (k', published) = publish_snapshot route_throws closed (k\<lparr>lastPayloads := lastPayloads k @ payloads\<rparr>)
      in (k', Stub_log LInfo (''[stub-kernel] execute cell '' @ cellUri q) # map Sink_emit payloads @ published))"

subsection \<open>The ids and times are well formed\<close>

definition is_hex :: "char \<Rightarrow> bool" where
  "is_hex c \<longleftrightarrow> c \<in> set ''0123456789abcdef''"

lemma hex_digit_is_hex [simp]: "n < 16 \<Longrightarrow> is_hex (hex_digit n)"
  unfolding is_hex_def hex_digit_def by (rule nth_mem) simp

lemma hex_byte_ok: "length (hex_byte b) = 2" "list_all is_hex (hex_byte b)"
proof -
  have "unat b < 256" using unsigned_less[of b, where ?'a = nat] by simp
  then show "list_all is_hex (hex_byte b)" by (simp add: hex_byte_def)
qed (simp add: hex_byte_def)

lemma hex_of_ok: "length (hex_of bs) = 2 * length bs" "list_all is_hex (hex_of bs)"
  by (induction bs) (simp_all add: hex_of_def hex_byte_ok)

lemma randomHex_ok: "length (randomHex random len) = 2 * (len div 2)" "list_all is_hex (randomHex random len)"
  by (simp_all add: randomHex_def hex_of_ok)

text \<open>The version digit is 4 and the variant digit 8, 9, a or b, checked for all bytes.\<close>

definition digits_ok :: "8 word \<Rightarrow> bool" where
  "digits_ok b \<longleftrightarrow> hd (hex_byte ((b AND 0x0F) OR 0x40)) = CHR ''4'' \<and> hd (hex_byte ((b AND 0x3F) OR 0x80)) \<in> set ''89ab''"

lemma all_bytes_ok: "list_all (\<lambda>n. digits_ok (word_of_nat n)) [0..<256]"
  by code_simp

lemma byte_digits: "digits_ok b"
proof -
  have "unat b < 256" using unsigned_less[of b, where ?'a = nat] by simp
  then show ?thesis using all_bytes_ok[unfolded list_all_iff, THEN bspec, of "unat b"] by simp
qed

lemma hd_hex_of: "hd (hex_of (b # bs)) = hd (hex_byte b)"
  by (simp add: hex_of_def hex_byte_def)

text \<open>Random ids are version 4 UUIDs in their textual form.\<close>

lemma fallbackUuid_v4:
  "\<exists>a b c d e. fallbackUuid random = a @ ''-'' @ b @ ''-'' @ c @ ''-'' @ d @ ''-'' @ e
     \<and> map length [a, b, c, d, e] = [8, 4, 4, 4, 12] \<and> list_all (list_all is_hex) [a, b, c, d, e]
     \<and> hd c = CHR ''4'' \<and> hd d \<in> set ''89ab''"
proof -
  define bs where "bs = (map random [0..<16])[6 := (random 6 AND 0x0F) OR 0x40, 8 := (random 8 AND 0x3F) OR 0x80]"
  have n: "length bs = 16" by (simp add: bs_def)
  have u: "fallbackUuid random = hex_of (take 4 bs) @ ''-'' @ hex_of (take 2 (drop 4 bs)) @ ''-'' @ hex_of (take 2 (drop 6 bs)) @ ''-'' @
      hex_of (take 2 (drop 8 bs)) @ ''-'' @ hex_of (take 6 (drop 10 bs))"
    by (simp add: fallbackUuid_def bs_def Let_def nth_append)
  have b: "bs ! 6 = (random 6 AND 0x0F) OR 0x40" "bs ! 8 = (random 8 AND 0x3F) OR 0x80" by (simp_all add: bs_def)
  have "take 2 (drop 6 bs) = bs ! 6 # take 1 (drop 7 bs)" "take 2 (drop 8 bs) = bs ! 8 # take 1 (drop 9 bs)"
    using n Cons_nth_drop_Suc[of 6 bs] Cons_nth_drop_Suc[of 8 bs] by (simp_all add: numeral_2_eq_2 flip: Cons_nth_drop_Suc)
  then have d: "hd (hex_of (take 2 (drop 6 bs))) = CHR ''4''" "hd (hex_of (take 2 (drop 8 bs))) \<in> set ''89ab''"
    using byte_digits[of "random 6"] byte_digits[of "random 8"] by (simp_all only: hd_hex_of b digits_ok_def)
  have l: "length (hex_of (take k (drop m bs))) = 2 * min k (16 - m)" for k m using n by (simp add: hex_of_ok(1) min.commute)
  have h: "list_all is_hex (hex_of xs)" for xs by (rule hex_of_ok(2))
  have "length (hex_of (take 4 bs)) = 8" using l[of 4 0] by simp
  then show ?thesis unfolding u
    using l[of 2 4] l[of 2 6] l[of 2 8] l[of 6 10] h[of "take 4 bs"] h[of "take 2 (drop 4 bs)"] h[of "take 2 (drop 6 bs)"]
      h[of "take 2 (drop 8 bs)"] h[of "take 6 (drop 10 bs)"] d
    by (intro exI conjI) (rule refl, simp_all)
qed

lemma nearest_double_exact: "n < 2 ^ 53 \<Longrightarrow> nearest_double n = n"
proof -
  assume n: "n < 2 ^ 53"
  have "floorlog 2 n \<le> 53"
    using n by (intro floorlog_leI) simp_all
  then show ?thesis by (simp add: nearest_double_def Let_def)
qed

text \<open>The time of a stub span reads back as the millisecond clock it was made from.\<close>

lemma nowUnixNanos_parses:
  assumes "ms < 2 ^ 53"
  shows "parseNanosToMs other (JStr (nowUnixNanos ms)) = int ms"
proof -
  have "digits_number (show_nat ms) = Some ms"
    using assms by (simp add: digits_number_def nearest_double_exact Let_def)
  moreover have "list_all is_digit (nowUnixNanos ms)" using show_nat_digits[of ms] by (simp add: nowUnixNanos_def is_digit_def)
  moreover have "6 < length (nowUnixNanos ms)" "take (length (nowUnixNanos ms) - 6) (nowUnixNanos ms) = show_nat ms"
    by (simp_all add: nowUnixNanos_def)
  ultimately show ?thesis by (auto simp: parseNanosToMs_def)
qed

subsection \<open>A stub cell through the controller and the applier\<close>

text \<open>The payloads the stub emits, one after the other, through the sink of the controller.\<close>

fun sink_all :: "observer \<Rightarrow> router \<Rightarrow> behaviour \<Rightarrow> stub_effect list \<Rightarrow> controller \<Rightarrow> controller \<times> ctl_effect list" where
  "sink_all self r bh [] c = (c, [])"
| "sink_all self r bh (Sink_emit p # out) c =
     (case sink_emit self r bh p c of (c1, e1) \<Rightarrow> (case sink_all self r bh out c1 of (c2, e2) \<Rightarrow> (c2, e1 @ e2)))"
| "sink_all self r bh (_ # out) c = sink_all self r bh out c"

text \<open>The envelopes handed to the router.\<close>

fun inbound :: "stub_effect list \<Rightarrow> jsv list" where
  "inbound [] = []"
| "inbound (Route_inbound env # out) = env # inbound out"
| "inbound (_ # out) = inbound out"

lemma inbound_append [simp]: "inbound (xs @ ys) = inbound xs @ inbound ys"
  by (induction xs rule: inbound.induct) auto

lemma inbound_sinks [simp]: "inbound (map Sink_emit ps) = []"
  by (induction ps) auto

definition metadata_of :: "jsv \<Rightarrow> metadata_payload" where
  "metadata_of p =
     \<lparr>mode = jprop p ''mode'', snapshot_version = (case jprop p ''snapshot_version'' of JNum (Fin v) \<Rightarrow> \<lfloor>v\<rfloor> | _ \<Rightarrow> 0),
      snapshot = jprop p ''snapshot''\<rparr>"

lemma sink_open:
  assumes "runObservers r = [self]" "\<forall>x. bh x = None" "spanId \<noteq> []"
  shows "sink_emit self r bh (open_span traceId spanId t0 q) c = onRunStart (open_span traceId spanId t0 q) c"
  using assms by (simp add: sink_emit_def routeRunMime_def open_span_def js_get_def nonempty_text_def)

lemma sink_closed:
  assumes "runObservers r = [self]" "\<forall>x. bh x = None" "i \<noteq> []" "t1 \<noteq> []"
  shows "sink_emit self r bh (emit_span traceId i s t0 t1) c = onRunComplete (emit_span traceId i s t0 t1) c"
    and "sink_emit self r bh (closed_span traceId i t0 t1 q) c = onRunComplete (closed_span traceId i t0 t1 q) c"
  using assms by (simp_all add: sink_emit_def routeRunMime_def emit_span_def closed_span_def js_get_def nonempty_text_def)

lemma terminal_claims:
  assumes "inflight c = [(u, e)]" "cellByCorrelation c = []" "status_ok p"
  shows "onRunComplete p c = (c\<lparr>inflight := [], closing := closing c @ [(e, True, jprop p ''spanId'')]\<rparr>, [Append_output e p])"
  using assms by (simp add: onRunComplete_def findExecForCorrelation_def bind_eq_None_conv split: option.splits)

lemma stub_spans_ok: "status_ok (emit_span traceId i s t0 t1)" "status_ok (closed_span traceId i t0 t1 q)"
  by (simp_all add: status_ok_def emit_span_def closed_span_def stub_status_def js_get_def)

lemma nothing_in_flight: "inflight c = [] \<Longrightarrow> cellByCorrelation c = [] \<Longrightarrow> onRunComplete p c = (c, [])"
  by (simp add: onRunComplete_def findExecForCorrelation_def bind_eq_None_conv split: option.splits)

text \<open>C21. A cell run on the stub kernel: for the only execution in flight, the controller appends the
  open span and the first closed span, and ends the execution once, successfully; that first closed
  span is the one of the \<open>agent_emit\<close> run when the stub emits one, and the span of the cell itself is
  then not appended. Unless metadata is switched off, a stub that has its router hands it exactly one
  envelope, after the spans: a snapshot with the next version that holds the closed span of the cell;
  the router delivers it to every metadata observer, in order, and it is valid for an applier that has
  accepted no newer one than the stub's last.\<close>

theorem stub_execution_completes:
  assumes "inflight c = [(u, e)]" "cellByCorrelation c = []" "closing c = []"
    and "runObservers r = [self]" "\<forall>x. bh x = None" "spanId \<noteq> []" "emitSpanId \<noteq> []" "t1 \<noteq> []" "t2 \<noteq> []"
  shows "let out = snd (stub_executeCell (traceId, spanId, emitSpanId) (t0, t1, t2) route_throws q k);
             (c', evs) = sink_all self r bh out c;
             terminal = (if emitAgentEmit k then emit_span traceId emitSpanId spanId t0 t1 else closed_span traceId spanId t0 t2 q)
         in evs = [Append_output e (open_span traceId spanId t0 q), Append_output e terminal]
            \<and> inflight c' = [] \<and> snd (ctl_perform hc self (Append_settled e) c') = [End_execution e True]
            \<and> (if emitNotebookMetadata k \<and> router_attached k then
                 \<exists>env. inbound out = [env] \<and> (let p = metadata_of (jprop env ''payload'') in
                   snapshot_version p = int (snapshotVersion k) + 1
                   \<and> jprop (jprop (snapshot p) ''event_log'') ''runs'' = JArr [closed_span traceId spanId t0 t2 q]
                   \<and> calls (fst (route r bh env)) = map (\<lambda>obs. OnNotebookMetadata obs (jprop env ''payload'')) (metadataObservers r)
                   \<and> (\<forall>st. (\<forall>prev. lastAcceptedVersion st = Some prev \<longrightarrow> prev \<le> int (snapshotVersion k)) \<longrightarrow> valid_snapshot p st))
               else inbound out = [])"
proof -
  let ?o = "open_span traceId spanId t0 q" and ?a = "emit_span traceId emitSpanId spanId t0 t1" and ?z = "closed_span traceId spanId t0 t2 q"
  let ?out = "snd (stub_executeCell (traceId, spanId, emitSpanId) (t0, t1, t2) route_throws q k)"
  have start: "onRunStart ?o c' = (c', [Append_output e ?o])" if "inflight c' = [(u, e)]" "cellByCorrelation c' = []" for c'
    using that by (simp add: onRunStart_def findExecForCorrelation_def bind_eq_None_conv split: option.splits)
  have rest: "sink_all self r bh (snd (publish_snapshot route_throws ?z k')) c' = (c', [])" for k' c'
    by (simp add: publish_snapshot_def Let_def split: option.splits)
  note sinks = sink_open[OF assms(4,5,6)] sink_closed(1)[OF assms(4,5,7,8)] sink_closed(2)[OF assms(4,5,6,9)]
  have out: "?out = Stub_log LInfo (''[stub-kernel] execute cell '' @ cellUri q) #
      map Sink_emit ([?o] @ (if emitAgentEmit k then [?a] else []) @ [?z]) @
      snd (publish_snapshot route_throws ?z (k\<lparr>lastPayloads := lastPayloads k @ [?o] @ (if emitAgentEmit k then [?a] else []) @ [?z]\<rparr>))"
    by (simp add: stub_executeCell_def Let_def case_prod_unfold)
  let ?t = "if emitAgentEmit k then ?a else ?z"
  let ?c = "c\<lparr>inflight := [], closing := [(e, True, jprop ?t ''spanId'')]\<rparr>"
  have run: "sink_all self r bh ?out c = (?c, [Append_output e ?o, Append_output e ?t])"
    unfolding out
    using assms(1-3) by (simp add: sinks start terminal_claims stub_spans_ok nothing_in_flight rest)
  let ?env = "stub_metadata (Suc (snapshotVersion k)) ?z"
  let ?p = "metadata_of (jprop ?env ''payload'')"
  have inb: "inbound ?out = (if emitNotebookMetadata k \<and> router_attached k then [?env] else [])"
    unfolding out by (simp add: publish_snapshot_def Let_def split: option.split)
  have p: "snapshot_version ?p = int (snapshotVersion k) + 1" "jprop (jprop (snapshot ?p) ''event_log'') ''runs'' = JArr [?z]"
    by (simp_all add: stub_metadata_def metadata_of_def js_get_def)
  have v: "valid_snapshot ?p st" if "\<forall>prev. lastAcceptedVersion st = Some prev \<longrightarrow> prev \<le> int (snapshotVersion k)" for st
    using that by (auto simp: stub_metadata_def metadata_of_def valid_snapshot_def js_get_def schema_major_def
        RFC005_SCHEMA_MAJOR_def coalesce_def nullish_def)
  have "deliver bh cs = (map Called cs, None)" for cs using assms(5) by (simp add: deliver_no_throw)
  moreover have "calls (map (\<lambda>x. Called (g x)) xs) = map g xs" for g :: "nat \<Rightarrow> call" and xs by (induction xs) simp_all
  ultimately have d: "calls (fst (route r bh ?env)) = map (\<lambda>obs. OnNotebookMetadata obs (jprop ?env ''payload'')) (metadataObservers r)"
    by (simp add: stub_metadata_def route_def validateEnvelope_def js_get_def str_of_def o_def)
  have pub: "if emitNotebookMetadata k \<and> router_attached k then
      \<exists>env. inbound ?out = [env] \<and> (snapshot_version (metadata_of (jprop env ''payload'')) = int (snapshotVersion k) + 1
        \<and> jprop (jprop (snapshot (metadata_of (jprop env ''payload''))) ''event_log'') ''runs'' = JArr [?z]
        \<and> calls (fst (route r bh env)) = map (\<lambda>obs. OnNotebookMetadata obs (jprop env ''payload'')) (metadataObservers r)
        \<and> (\<forall>st. (\<forall>prev. lastAcceptedVersion st = Some prev \<longrightarrow> prev \<le> int (snapshotVersion k)) \<longrightarrow>
             valid_snapshot (metadata_of (jprop env ''payload'')) st))
    else inbound ?out = []"
    unfolding inb using p v d by auto
  have "snd (ctl_perform hc self (Append_settled e) ?c) = [End_execution e True]" "inflight ?c = []" by (simp_all add: append_settled_def)
  with pub show ?thesis unfolding Let_def run prod.case by blast
qed

theorem stub_execution_completes_witness:
  "let out = snd (stub_executeCell (''t'', ''s'', ''es'') (nowUnixNanos 1, nowUnixNanos 2, nowUnixNanos 3) None
         \<lparr>cellUri = ''u'', cell_text = ''hi'', directive = None\<rparr> (attachRouter new_stub));
       (c', evs) = sink_all 7 (registerRunObserver 7 new_router) (\<lambda>_. None) out (new_controller\<lparr>inflight := [(''u'', 0)]\<rparr>)
   in length evs = 2 \<and> inflight c' = [] \<and> snd (ctl_perform True 7 (Append_settled 0) c') = [End_execution 0 True]
      \<and> length (inbound out) = 1"
proof -
  have n: "nowUnixNanos m \<noteq> []" for m by (simp add: nowUnixNanos_def)
  have c: "inflight (new_controller\<lparr>inflight := [(''u'', 0)]\<rparr>) = [(''u'', 0)]"
    "cellByCorrelation (new_controller\<lparr>inflight := [(''u'', 0)]\<rparr>) = []" "closing (new_controller\<lparr>inflight := [(''u'', 0)]\<rparr>) = []"
    by (simp_all add: new_controller_def)
  have r: "runObservers (registerRunObserver 7 new_router) = [7]" by (simp add: registerRunObserver_def new_router_def)
  have b: "\<forall>x. (\<lambda>_. None) x = None" by simp
  show ?thesis
    using stub_execution_completes[OF c r b _ _ n[of 2] n[of 3], of "''s''" "''es''" "''t''" "nowUnixNanos 1" None
        "\<lparr>cellUri = ''u'', cell_text = ''hi'', directive = None\<rparr>" "attachRouter new_stub" True]
    by (auto simp: Let_def attachRouter_def new_stub_def split: prod.splits)
qed

text \<open>Every cell run on a stub that has its router publishes one snapshot, with the next version.\<close>

lemma stub_versions:
  assumes "emitNotebookMetadata k" "router_attached k"
  shows "snapshotVersion (fst (stub_executeCell ids clocks route_throws q k)) = Suc (snapshotVersion k)
    \<and> lastInboundEnvelopes (fst (stub_executeCell ids clocks route_throws q k))
       = lastInboundEnvelopes k @ [stub_metadata (Suc (snapshotVersion k))
           (case ids of (traceId, spanId, _) \<Rightarrow> case clocks of (begun, _, ended) \<Rightarrow> closed_span traceId spanId begun ended q)]"
  using assms by (simp add: stub_executeCell_def publish_snapshot_def Let_def case_prod_unfold)

end
