(* ===== verification/Extension_Host.thy ===== *)
theory Extension_Host
  imports Run_Renderer Reveal_Cell Cell_Badge Stub_Kernel Sidebar_Trees
begin

section \<open>The extension host (\<open>extension/src/extension.ts\<close>)\<close>

text \<open>
  The glue of \<open>activate()\<close> that has behaviour of its own: the diagnostic rings and marker file, the
  bridge from the run renderer to commands, the command handlers, the blob table, and the kernel
  configuration. Creation and registration of the components with VS Code is not modelled.
\<close>

subsection \<open>Diagnostics\<close>

definition RING_LIMIT :: nat where
  "RING_LIMIT = 200"

definition pushRing :: "bool \<Rightarrow> 'a \<Rightarrow> 'a list \<Rightarrow> 'a list" where
  "pushRing verbose item ring =
     (if \<not> verbose then ring
      else let grown = ring @ [item] in if RING_LIMIT < length grown then tl grown else grown)"

record activation_diagnostics =
  activated_at :: "nat option"
  kernel_started_at :: "nat option"
  kernel_ready_at :: "nat option"
  hydrate_count :: nat
  last_marker :: "string option"

definition json_line :: "jsv \<Rightarrow> string" where
  "json_line v = (case JSON_stringify None v of Some l \<Rightarrow> l | None \<Rightarrow> [])"

text \<open>The target file is the first of the two environment variables that is set; the line is appended,
  whether that succeeds or not.\<close>

definition writeMarkerEvent ::
  "string option \<Rightarrow> string option \<Rightarrow> nat \<Rightarrow> string \<Rightarrow> string \<Rightarrow> jsobj \<Rightarrow> activation_diagnostics \<Rightarrow> activation_diagnostics \<times> (string \<times> string) option" where
  "writeMarkerEvent marker_env legacy_env now component event extra d =
     (case (case marker_env of Some t \<Rightarrow> Some t | None \<Rightarrow> legacy_env) of
        None \<Rightarrow> (d, None)
      | Some target \<Rightarrow>
          if target = [] then (d, None)
          else
            (let base = [(''ts'', JNum (Fin (of_nat now))), (''component'', JStr component), (''event'', JStr event)];
                 line = (case JSON_stringify None (JObj (fold (\<lambda>(k, v). js_put k v) extra base)) of
                   Some l \<Rightarrow> l
                 | None \<Rightarrow> json_line (JObj (base @ [(''_encode_error'', JBool True)])))
             in (d\<lparr>last_marker := Some (component @ '':'' @ event)\<rparr>, Some (target, line @ [LF]))))"

text \<open>The line a kernel log record becomes in the output channel, and what the ring keeps of it.\<close>

definition log_text :: "jsv \<Rightarrow> string" where
  "log_text rec =
     (if truthy (jprop rec ''body'') \<and> is_string (jprop (jprop rec ''body'') ''stringValue'')
      then str_of (jprop (jprop rec ''body'') ''stringValue'') else json_line rec)"

definition log_severity :: "jsv \<Rightarrow> string" where
  "log_severity rec =
     (if nullish (jprop rec ''severityText'') then ''S'' @ js_String (jprop rec ''severityNumber'')
      else js_String (jprop rec ''severityText''))"

definition log_record_handler :: "bool \<Rightarrow> jsv \<Rightarrow> (string \<times> string \<times> jsv) list \<Rightarrow> string \<times> (string \<times> string \<times> jsv) list" where
  "log_record_handler verbose rec ring =
     (''[kernel-log]['' @ log_severity rec @ ''] '' @ log_text rec,
      pushRing verbose (log_severity rec, log_text rec, rec) ring)"

text \<open>A notebook opened, or already open at activation: the loader is called in any case.\<close>

definition count_hydrate :: "string \<Rightarrow> string \<Rightarrow> activation_diagnostics \<Rightarrow> activation_diagnostics" where
  "count_hydrate nbtype opened_type d = (if opened_type = nbtype then d\<lparr>hydrate_count := Suc (hydrate_count d)\<rparr> else d)"

text \<open>The health of the transport the heartbeat watchdog asks for: the answer of a method of the client,
  if it has one.\<close>

definition pty_isHealthy :: "bool \<Rightarrow> bool option \<Rightarrow> bool" where
  "pty_isHealthy is_pty_client method_answer =
     (if is_pty_client then (case method_answer of Some b \<Rightarrow> b | None \<Rightarrow> True) else True)"

subsection \<open>Commands\<close>

datatype host_effect =
    Execute_command string jsv
  | Router_event event
  | Host_warn string

text \<open>Messages of the run renderer: only commands of the allow-list are executed.\<close>

definition ALLOWED_COMMANDS :: "string list" where
  "ALLOWED_COMMANDS = [''llmnb.revealCell'']"

definition on_renderer_message :: "jsv \<Rightarrow> host_effect list" where
  "on_renderer_message msg =
     (if \<not> truthy msg \<or> jprop msg ''type'' \<noteq> JStr ''command.invoke'' \<or> \<not> truthy (jprop msg ''payload'') then []
      else case jprop (jprop msg ''payload'') ''command'' of
        JStr cmd \<Rightarrow>
          if length cmd = 0 then []
          else if cmd \<notin> set ALLOWED_COMMANDS then [Host_warn (''[llmnb] renderer requested disallowed command: '' @ cmd)]
          else [Execute_command cmd (jprop (jprop msg ''payload'') ''args'')]
      | _ \<Rightarrow> [])"

definition interruptCell_command :: "router \<Rightarrow> behaviour \<Rightarrow> jsv \<Rightarrow> overrides \<Rightarrow> (overrides \<times> bool) \<times> host_effect list" where
  "interruptCell_command r bh args ov =
     (case jprop args ''agent_id'' of
        JStr (c # a) \<Rightarrow>
          (case postAgentInterrupt r bh (c # a) (str_of (jprop args ''cell_id'')) ov of (ov', evs) \<Rightarrow> (ov', map Router_event evs))
      | _ \<Rightarrow> ((ov, False), [Host_warn ''[llmnb.interruptCell] missing agent_id; ignoring click'']))"

text \<open>\<open>llmnb.sidebar.revealAgent\<close>; \<open>None\<close> is the \<open>TypeError\<close> of a null turn.\<close>

definition revealAgent_command :: "jsv \<Rightarrow> jsv \<Rightarrow> host_effect list option" where
  "revealAgent_command node snap =
     (case jprop node ''agentId'' of
        JStr (c # a) \<Rightarrow>
          map_option (\<lambda>cell. case cell of
              Some (i # is) \<Rightarrow> [Execute_command ''llmnb.revealCell'' (JObj [(''cell_id'', JStr (i # is))])] | _ \<Rightarrow> [])
            (firstTurnCellId (jprop (jprop (jprop (jprop snap ''zone'') ''agents'') (c # a)) ''turns''))
      | _ \<Rightarrow> Some [])"

text \<open>The blob table follows the snapshots that carry one.\<close>

definition refresh_blobs :: "jsv \<Rightarrow> jsv \<Rightarrow> jsv" where
  "refresh_blobs payload active_blobs =
     (if jprop payload ''mode'' \<noteq> JStr ''snapshot'' \<or> \<not> truthy (jprop payload ''snapshot'') then active_blobs
      else let next_blobs = jprop (jprop payload ''snapshot'') ''blobs''
        in if truthy next_blobs \<and> typeof_object next_blobs then next_blobs else active_blobs)"

subsection \<open>Kernel configuration\<close>

definition BACKTICK :: char where "BACKTICK = CHR 0x60"

text \<open>\<open>GetSubstitution\<close> for a replacement text without capture groups: \<open>$$\<close>, \<open>$&\<close>, \<open>$\<close>-backtick and
  \<open>$\<close>-quote stand for a dollar, the match, the text before and the text after it.\<close>

fun get_substitution :: "string \<Rightarrow> string \<Rightarrow> string \<Rightarrow> string \<Rightarrow> string" where
  "get_substitution matched pre post [] = []"
| "get_substitution matched pre post [c] = [c]"
| "get_substitution matched pre post (c # d # s) =
     (if c = CHR ''$'' \<and> d = CHR ''$'' then CHR ''$'' # get_substitution matched pre post s
      else if c = CHR ''$'' \<and> d = CHR ''&'' then matched @ get_substitution matched pre post s
      else if c = CHR ''$'' \<and> d = BACKTICK then pre @ get_substitution matched pre post s
      else if c = CHR ''$'' \<and> d = CHR 0x27 then post @ get_substitution matched pre post s
      else c # get_substitution matched pre post (d # s))"

definition WORKSPACE_VARIABLE :: string where
  "WORKSPACE_VARIABLE = ''${workspaceFolder}''"

function replace_folder :: "string \<Rightarrow> string \<Rightarrow> string \<Rightarrow> string" where
  "replace_folder folder pre [] = []"
| "replace_folder folder pre (c # s) =
     (if take (length WORKSPACE_VARIABLE) (c # s) = WORKSPACE_VARIABLE then
        (let rest = drop (length WORKSPACE_VARIABLE) (c # s)
         in get_substitution WORKSPACE_VARIABLE pre rest folder @ replace_folder folder (pre @ WORKSPACE_VARIABLE) rest)
      else c # replace_folder folder (pre @ [c]) s)"
  by pat_completeness auto
termination
  by (relation "measure (\<lambda>(_, _, s). length s)") (simp_all add: WORKSPACE_VARIABLE_def)

definition ENV_OPEN :: string where
  "ENV_OPEN = ''${env:''"

text \<open>The name of a variable reference at the head of a text, and the text after the reference.\<close>

definition env_reference :: "string \<Rightarrow> (string \<times> string) option" where
  "env_reference s =
     (if take (length ENV_OPEN) s \<noteq> ENV_OPEN then None
      else let rest = drop (length ENV_OPEN) s; name = takeWhile (\<lambda>c. c \<noteq> CHR ''}'') rest; post = dropWhile (\<lambda>c. c \<noteq> CHR ''}'') rest
        in if name = [] \<or> post = [] then None else Some (name, tl post))"

lemma env_reference_length: "env_reference s = Some (name, post) \<Longrightarrow> length post < length s"
proof -
  assume "env_reference s = Some (name, post)"
  then have "post = tl (dropWhile (\<lambda>c. c \<noteq> CHR ''}'') (drop (length ENV_OPEN) s))" "take (length ENV_OPEN) s = ENV_OPEN"
    by (auto simp: env_reference_def Let_def split: if_splits)
  moreover from this(2) have "s \<noteq> []" by (auto simp: ENV_OPEN_def)
  moreover have "length (dropWhile P xs) \<le> length xs" for P and xs :: string by (rule length_dropWhile_le)
  ultimately show ?thesis
    by (metis diff_le_self le_less_trans length_drop length_tl diff_less length_greater_0_conv zero_less_one le_trans less_le_not_le order_le_less_trans not_less)
qed

function replace_env :: "(string \<Rightarrow> string option) \<Rightarrow> string \<Rightarrow> string" where
  "replace_env env [] = []"
| "replace_env env (c # s) =
     (case env_reference (c # s) of
        Some (name, post) \<Rightarrow> (case env name of Some v \<Rightarrow> v | None \<Rightarrow> []) @ replace_env env post
      | None \<Rightarrow> c # replace_env env s)"
  by pat_completeness auto
termination
  by (relation "measure (\<lambda>(_, s). length s)") (auto dest: env_reference_length)

definition resolveConfigPath :: "string option \<Rightarrow> (string \<Rightarrow> string option) \<Rightarrow> string \<Rightarrow> string" where
  "resolveConfigPath folder env value =
     replace_env env (replace_folder (case folder of Some f \<Rightarrow> f | None \<Rightarrow> []) [] value)"

definition loadKernelConfig :: "string option \<Rightarrow> (string \<Rightarrow> string option) \<Rightarrow> string option \<Rightarrow> string \<Rightarrow> string \<times> string" where
  "loadKernelConfig folder env configured session =
     (session, resolveConfigPath folder env (case configured of Some p \<Rightarrow> p | None \<Rightarrow> ''python''))"

subsection \<open>Properties\<close>

text \<open>C40. Diagnostic rings: whatever is pushed, a ring holds exactly the last 200 items pushed, in order,
  in a verbose session, and nothing otherwise.\<close>

theorem rings_keep_last:
  "fold (pushRing verbose) pushed [] = (if verbose then drop (length pushed - RING_LIMIT) pushed else [])
   \<and> length (fold (pushRing verbose) pushed []) \<le> RING_LIMIT"
proof (induction pushed rule: rev_induct)
  case (snoc x xs)
  show ?case
  proof (cases verbose)
    case True
    let ?r = "drop (length xs - RING_LIMIT) xs"
    have f: "fold (pushRing verbose) (xs @ [x]) [] = pushRing verbose x ?r" using snoc True by simp
    have "pushRing verbose x ?r = drop (length (xs @ [x]) - RING_LIMIT) (xs @ [x])"
    proof (cases "length xs < RING_LIMIT")
      case False
      then have "length ?r = RING_LIMIT" by simp
      then have "pushRing verbose x ?r = tl (?r @ [x])" using True by (simp add: pushRing_def Let_def)
      also have "\<dots> = drop (Suc (length xs - RING_LIMIT)) xs @ [x]"
        using \<open>length ?r = RING_LIMIT\<close> by (cases "?r = []") (simp_all add: RING_LIMIT_def drop_Suc tl_drop)
      also have "Suc (length xs - RING_LIMIT) = length (xs @ [x]) - RING_LIMIT" using False by simp
      also have "drop (length (xs @ [x]) - RING_LIMIT) xs @ [x] = drop (length (xs @ [x]) - RING_LIMIT) (xs @ [x])"
        by (simp add: RING_LIMIT_def)
      finally show ?thesis .
    qed (use True in \<open>simp add: pushRing_def Let_def\<close>)
    then show ?thesis using f True by simp
  qed (use snoc in \<open>simp add: pushRing_def\<close>)
qed simp

text \<open>C19. Messages of the renderer. The markup of a provenance chip has one element that reveals a
  cell, and a click on it or on anything inside it, wherever the chip stands, posts a message for
  which the host executes the reveal command, once, with the id of the cell the chip names (an id
  without control characters). Every message posted by a click outside such an element is an operator action,
  the decisions of the approval cards among them, and has no effect in the host. Whatever message
  the host receives, the only command it executes is the reveal command.\<close>

theorem renderer_messages_gated:
  assumes "generatedBy pr \<noteq> []" "printable (generatedBy pr)"
    and "closest ''data-rts-reveal-cell'' inner = None" "closest ''data-rts-reveal-cell'' path = None"
  shows "(\<exists>chip label. elements_with ''data-rts-reveal-cell'' None (renderProvenanceChip env pr) = [(chip, label)] \<and>
      (\<exists>m. on_click True pg (inner @ chip # outer) = [Post_message m] \<and>
         (\<exists>args. on_renderer_message m = [Execute_command ''llmnb.revealCell'' args] \<and> reveal_arg args = generatedBy pr)))
    \<and> (\<forall>m. Post_message m \<in> set (on_click can_post pg path) \<longrightarrow>
         (\<exists>a ps. m = action_envelope a ps) \<and> on_renderer_message m = [])
    \<and> (\<forall>raw cmd args. Execute_command cmd args \<in> set (on_renderer_message raw) \<longrightarrow> cmd = ''llmnb.revealCell'')"
proof (intro conjI)
  have reveal: "on_renderer_message (reveal_envelope c) = [Execute_command ''llmnb.revealCell'' (JObj [(''cellId'', JStr c)])]" for c
    by (simp add: on_renderer_message_def reveal_envelope_def js_get_def ALLOWED_COMMANDS_def)
  have arg: "reveal_arg (JObj [(''cellId'', JStr (generatedBy pr))]) = generatedBy pr"
    using assms(1) by (simp add: reveal_arg_def strField_def js_get_def)
  obtain chip label where chip: "elements_with ''data-rts-reveal-cell'' None (renderProvenanceChip env pr) = [(chip, label)]"
    "map_of chip ''data-rts-reveal-cell'' = Some (generatedBy pr)"
    using provenance_chip_elements [OF assms(1), of env] decode_printable [OF assms(2)] by auto
  then show "\<exists>chip label. elements_with ''data-rts-reveal-cell'' None (renderProvenanceChip env pr) = [(chip, label)] \<and>
      (\<exists>m. on_click True pg (inner @ chip # outer) = [Post_message m] \<and>
         (\<exists>args. on_renderer_message m = [Execute_command ''llmnb.revealCell'' args] \<and> reveal_arg args = generatedBy pr))"
    using reveal_click [OF chip(2) assms(1,3), of pg outer] reveal [of "generatedBy pr"] arg by auto
  have action: "on_renderer_message (action_envelope a ps) = []" for a ps
    by (simp add: on_renderer_message_def action_envelope_def js_get_def)
  have "\<exists>a ps. m = action_envelope a ps" if "Post_message m \<in> set (on_click can_post pg path)" for m
    using that assms(4) by (auto simp: on_click_def Let_def split: option.splits if_splits)
  then show "\<forall>m. Post_message m \<in> set (on_click can_post pg path) \<longrightarrow>
      (\<exists>a ps. m = action_envelope a ps) \<and> on_renderer_message m = []"
    using action by blast
qed (auto simp: on_renderer_message_def ALLOWED_COMMANDS_def split: jsv.splits if_splits)

text \<open>A chip for cell c1, and the Approve button of a card.\<close>

theorem renderer_messages_gated_witness:
  "\<exists>chip m args m'. on_click True \<lparr>page_ids = [], page_inputs = [], page_radios = []\<rparr> [chip] = [Post_message m]
     \<and> on_renderer_message m = [Execute_command ''llmnb.revealCell'' args] \<and> reveal_arg args = ''c1''
     \<and> on_click True \<lparr>page_ids = [], page_inputs = [], page_radios = []\<rparr> [[(''data-rts-action'', ''approval_response'')]] = [Post_message m']
     \<and> on_renderer_message m' = []"
proof -
  let ?pg = "\<lparr>page_ids = [], page_inputs = [], page_radios = []\<rparr>"
  let ?path = "[[(''data-rts-action'', ''approval_response'')]]"
  let ?pr = "\<lparr>prov_cellId = [], generatedBy = ''c1'', generatedAt = None, generatorMagicText = None\<rparr>"
  have h: "generatedBy ?pr \<noteq> []" "printable (generatedBy ?pr)" "closest ''data-rts-reveal-cell'' [] = None"
    "closest ''data-rts-reveal-cell'' ?path = None"
    by (simp_all add: printable_def control_char_def closest_def)
  obtain m' where m': "on_click True ?pg ?path = [Post_message m']"
    by (simp add: on_click_def closest_def)
  show ?thesis
    using renderer_messages_gated [OF h, of demo_render_env ?pg "[]" True] m' by fastforce
qed

subsection \<open>Configuration paths\<close>

lemma get_substitution_plain: "CHR ''$'' \<notin> set folder \<Longrightarrow> get_substitution matched pre post folder = folder"
  by (induction matched pre post folder rule: get_substitution.induct) auto

lemma replace_folder_plain: "CHR ''$'' \<notin> set s \<Longrightarrow> replace_folder folder pre s = s"
  by (induction s arbitrary: pre) (auto simp: WORKSPACE_VARIABLE_def)

lemma replace_env_plain: "CHR ''$'' \<notin> set s \<Longrightarrow> replace_env env s = s"
  by (induction s) (auto simp: env_reference_def ENV_OPEN_def)

text \<open>A path below the workspace folder resolves to it, as long as the folder has no dollar sign.\<close>

lemma config_path_below_workspace:
  assumes "CHR ''$'' \<notin> set folder" "CHR ''$'' \<notin> set path"
  shows "resolveConfigPath (Some folder) env (WORKSPACE_VARIABLE @ path) = folder @ path"
proof -
  have "replace_folder folder [] (WORKSPACE_VARIABLE @ path) = folder @ path"
    using assms get_substitution_plain replace_folder_plain by (simp add: WORKSPACE_VARIABLE_def)
  then show ?thesis using assms by (simp add: resolveConfigPath_def replace_env_plain)
qed

lemma dollar_folder_mangled:
  "resolveConfigPath (Some ''/w/$$x'') (\<lambda>_. None) ''${workspaceFolder}/bin'' = ''/w/$x/bin''"
  by code_simp

end
