(* ===== verification/Spec2Isabelle.thy ===== *)
theory Spec2Isabelle
  imports RTS_Prelude Otel_Attrs Router Section_Ops Pty_Lifecycle Pty_Handshake Heartbeat Blob_Resolver Serializer
    Metadata_Loader Controller Run_Frames Cell_Badge Contamination Pin_Status Sidebar_Trees Run_Renderer Section_Headers Kernel_Terminal Cell_Toolbar Output_Lens Map_Panel Extension_Host
begin

text \<open>
  A verification of the LLMNB notebook extension, the TypeScript program under
  \<open>src/extension/src\<close>. The extension runs in the VS Code extension host: it opens \<open>.llmnb\<close>
  notebooks, starts a kernel process on a pseudo terminal, exchanges newline-delimited JSON
  frames with it over a socket, executes cells through it, and shows what the kernel reports.

  \<^bold>\<open>How the parts interact.\<close> A cell is run by the notebook controller, which parses its directive
  and hands it to the kernel client; the client turns it into an operator action and writes it
  as a frame. Frames that come back are spans, log records or envelopes; the client passes
  them to the message router, which calls the registered observers: the controller (spans
  become cell outputs and end executions), the metadata applier and loader (notebook state),
  the heartbeat watchdog, and the registries behind the status items. The serializer and the
  blob resolver read and write the notebook file. The spans in a cell's output are turned into
  HTML by the run renderer, whose clicks are messages to the extension host; the sidebar (trees of
  zones, agents and activity, search, output lens), the section headers and the status items
  read the metadata of the open notebooks; the map view is a page of its own with a host panel.

  \<^bold>\<open>The theories\<close>, each with the source it models:
  \<^item> \<open>RTS_Prelude\<close>: JavaScript values (\<open>jsv\<close>), property lists in \<open>Object.entries\<close> order, \<open>Map\<close> in
    insertion order, integers as text; the locale \<open>prop_store\<close> (an object used as a dictionary).
    \<open>JS_Strings\<close>: the string functions and regular expressions used. \<open>JSON_Text\<close>: \<open>JSON.parse\<close>
    and \<open>JSON.stringify\<close> with their round trip. \<open>JS_Sort\<close>: \<open>Array.prototype.sort\<close> with the
    locale \<open>comparator\<close>, and grouping in a \<open>Map\<close>. \<open>Observables\<close>: stores that fire change
    events (locales \<open>change_notifier\<close>, \<open>flagged_step\<close>).
  \<^item> \<open>Otel_Attrs\<close> (\<open>otel/attrs.ts\<close>): attribute values; decoding inverts encoding where nothing is
    lost, and a single read agrees with decoding the list.
  \<^item> \<open>Router\<close> (\<open>messaging/router.ts\<close>): six observer lists (locale \<open>observer_registry\<close>), dispatch and
    outbound fan-out with throwing observers; refinement of a table of recipients.
  \<^item> \<open>Cell_Directive\<close> (\<open>parseCellDirective\<close> of \<open>notebook/controller.ts\<close>) and \<open>Section_Ops\<close>
    (\<open>notebook/commands/section-ops.ts\<close>): the cell grammar and the section commands.
  \<^item> \<open>Pty_Client\<close>, \<open>Pty_Framing\<close>, \<open>Pty_Lifecycle\<close>, \<open>Pty_Handshake\<close>
    (\<open>notebook/pty-kernel-client.ts\<close>): the client as a state machine whose inputs are socket,
    process and timer events; framing (locale \<open>line_framer\<close>), order of outbound frames, the
    ready promise, the version handshake and the envelope of an executed cell. Receiving is independent of
    chunking, exceptions included, up to what is left in the buffer after one.
  \<^item> \<open>Controller\<close> (class \<open>LlmnbNotebookController\<close>): \<open>execute\<close> and \<open>runOne\<close> split at their awaits,
    the run observer hooks; an execution ends successfully once at most and only for a good span, and is ended once
    while no cell is run again before its \<open>runOne\<close> returned (the relation \<open>ctl_run\<close> records whether that
    happened, with an example of what goes wrong otherwise).
  \<^item> \<open>Heartbeat\<close> (\<open>messaging/heartbeat-consumer.ts\<close>): the liveness warning for every history.
  \<^item> \<open>Serializer\<close> (\<open>llmnb/serializer.ts\<close>), \<open>Blob_Resolver\<close> (\<open>llmnb/blob-resolver.ts\<close>): the file
    round trip, with the cell languages that do not survive it, markdown cells without an agent,
    what a blob reference turns into.
  \<^item> \<open>Metadata_Applier\<close>, \<open>Metadata_Loader\<close> (\<open>notebook/metadata-applier.ts\<close>,
    \<open>metadata-loader.ts\<close>): snapshot validation and ordering, hydration guards and watchdogs, the
    secret scan.
  \<^item> \<open>Run_Frames\<close> (\<open>inspect\<close>): readers of run frames and context manifests, rendered texts, the
    inspect status item; results are well-typed for any metadata and match a specification.
  \<^item> \<open>Cell_Badge\<close> (\<open>notebook/cell-badge.ts\<close>, \<open>interrupt-button.ts\<close>, one observer of
    \<open>extension.ts\<close>): agent registry, badges, interrupt button, gutter colours (the hash on
    32-bit words).
  \<^item> \<open>Contamination\<close> (\<open>notebook/contamination-badge.ts\<close>, \<open>header-chips.ts\<close>,
    \<open>commands/reset-contamination.ts\<close>): contaminated cells, promotion chips, privilege grants.
  \<^item> \<open>Pin_Status\<close> (\<open>notebook/pin-status-header.ts\<close>, \<open>commands/auth-prompts.ts\<close>): hash-mode
    configuration, the action menu and the \<open>@auth\<close> flows (locale \<open>cell_inserter\<close>).
  \<^item> \<open>JS_Date\<close>, \<open>JS_Uri\<close>: \<open>Date.parse\<close>, \<open>toISOString\<close> and URI component encoding, with their round
    trips. \<open>Sidebar_State\<close>, \<open>Agent_Decorations\<close>, \<open>Activity_Tree\<close>, \<open>Sidebar_Trees\<close>
    (\<open>sidebar/*.ts\<close>): run state and fork lineage of agents, their decorations, the activity list
    and its window, the throttled metadata source and the trees; changes are not lost, and the
    indicators of a running agent agree.
  \<^item> \<open>Cell_Search\<close>, \<open>Search_View\<close>, \<open>Reveal_Cell\<close> (\<open>sidebar/search\<close>, \<open>commands/reveal-cell.ts\<close>): plain
    and regular-expression search (locale \<open>regex_matcher\<close>), snippets, the view as a state machine
    with a debounced request, and the way from a match to its cell. \<open>Output_Lens\<close>
    (\<open>sidebar/output-kind-lens\<close>): tagged spans, their groups and rows.
  \<^item> \<open>Html_Text\<close>, \<open>Tool_Cards\<close>, \<open>Run_Renderer\<close> (\<open>renderers\<close>): the HTML of every card, the dispatch, and
    the click handler, against a checker of markup and a parser of the page that gives each element the text
    behind its tag.
  \<^item> \<open>Section_Headers\<close> (\<open>notebook/sections\<close>, \<open>three-pane-*.ts\<close>), \<open>Cell_Toolbar\<close>
    (\<open>cell-toolbar.ts\<close>), \<open>Kernel_Terminal\<close> (\<open>kernel-terminal.ts\<close>): header texts and their menu, streaming
    and artifact badges, privilege items with their confirmation, replay of boot output.
  \<^item> \<open>Map_Layout\<close>, \<open>Map_Panel\<close> (\<open>webviews/map-view-renderer.ts\<close>, \<open>map-view-panel.ts\<close>,
    \<open>llmnb.openMapView\<close>): layout, drawing and dragging; the panel and its wiring to the router. Every
    node laid out is drawn once, and a drag is enqueued and comes back as the position of its zone.
  \<^item> \<open>Stub_Kernel\<close>, \<open>Extension_Host\<close> (\<open>extension.ts\<close>): the offline kernel client followed through the
    controller and the applier; diagnostics, command handlers, the bridge from the renderer, and
    configuration paths.
  \<^item> This theory: the views that read the registries show what the last snapshot lists.

  \<^bold>\<open>Correspondence.\<close> A class is a record of its fields, an operation a function from its arguments
  and the record to the new record and the list of effects (calls, log lines, writes), under
  the name it has in the source where that is free. Asynchronous functions are split at their
  awaits; what the environment answers (timers, sockets, VS Code, the operator) is an input or
  an argument, and runs are lists of inputs or inductive relations. Exceptions are values:
  \<open>option\<close>, a sum, or the text of the error. The hash function of the blob resolver is a
  parameter.

  \<^bold>\<open>Bounds and fuel.\<close> Strings are those with code units below 256; the few glyphs outside that
  range are arguments of the functions that print them. Numbers are rationals and the three
  non-finite values, colour arithmetic is exact (with a proof that rounding to bytes cannot
  differ). The JSON parser has fuel; the length of the text is shown to be enough for what the
  printer writes. Caps of the code are definitions (250 matches per cell and 500 displayed, windows of
  500 activity entries, 200 diagnostic records, snippets of 80 characters). Recursion over JSON values
  and layout trees ends by their size. The one loop that may not end, the refusal warning, is a partial function
  whose termination is characterised.

  \<^bold>\<open>Not modelled.\<close> Creation, registration and disposal of the components with VS Code in
  \<open>extension.ts\<close>, its accessors for tests and the logging proxy of test runs, and the in-memory
  doubles the tests inject: they have no logic beyond calls of VS Code. Interfaces without code
  (\<open>messaging/types.ts\<close>). The fixed HTML pages of the webviews. The rounding of doubles in map coordinates,
  which are exact rationals here. The Python client, the tests, and the vendored kernel, which is the
  peer of the protocol and not in this tree. Properties inherited from \<open>Object.prototype\<close> are not
  looked up, except where a table of handlers is indexed with a name from the kernel.
\<close>

section \<open>Views over the metadata registries\<close>

lemma privileges_view:
  assumes "snapshot_of p = Some snap" "\<forall>q \<in> set qs. snapshot_of q = None"
  shows "snd (observe_run privileges_metadata render (ps @ p # qs) (g, render g)) = render (listed_grants snap)"
  using privilege_notifier.observe_run_last [of qs render ps p g] assms(2) privileges_after [OF assms(1)]
  by (simp add: privileges_metadata_def)

lemma config_view:
  assumes "snapshot_of p = Some snap" "\<forall>q \<in> set qs. snapshot_of q = None" "is_objectlike (jprop snap ''config'')"
  shows "snd (observe_run config_metadata render (ps @ p # qs) (c, render c)) = render (listed_config snap)"
  using config_notifier.observe_run_last [of qs render ps p c] assms(2) config_after [OF assms(1,3)]
  by (simp add: config_metadata_def)

lemma inspect_view:
  assumes "snapshot_of p = Some snap" "\<forall>q \<in> set qs. snapshot_of q = None"
  shows "snd (observe_run router_source_metadata render (ps @ p # qs) (md, render md)) = render (JObj [(''rts'', snap)])"
proof -
  have "router_source_metadata q t = (case snapshot_of q of None \<Rightarrow> (t, False) | Some s \<Rightarrow> (JObj [(''rts'', s)], True))" for q t
    by (simp add: router_source_metadata_def snapshot_of_def)
  then show ?thesis
    using inspect_notifier.observe_run_last [of qs render ps p md] assms by simp
qed


text \<open>A snapshot with one agent that has terminated, read by the badge of its cell, and a payload after
  it that is no snapshot.\<close>

definition demo_snapshot :: jsv where
  "demo_snapshot = JObj [(''agents'', JObj [(''a1'', JObj [(''provider'', JStr ''p''), (''runtime_status'', JStr ''terminated'')])]),
     (''config'', JObj [(''magic_hash_enabled'', JBool True)]), (''cells'', JObj [])]"

definition demo_badge_cell :: badge_cell where
  "demo_badge_cell = \<lparr>bc_kind = Code, bc_metadata = JObj [(''rts'', JObj [(''cell'', JObj [(''bound_agent_id'', JStr ''a1'')])])],
     bc_uri = ''u'', bc_outputs = []\<rparr>"


end
